(* ===== verification/Prelude.thy ===== *)
theory Prelude
  imports Main "HOL-Library.Word"
begin

text \<open>
  Shared vocabulary of the development: the C integer types at their widths, the outcome
  of a C call that may abort (a failed \<open>assert\<close>) or leave an array, checked array
  accesses, and the generic lemmas on words that the component theories share.
\<close>

unbundle bit_operations_syntax

subsection \<open>C integers\<close>

type_synonym u8 = "8 word"
type_synonym u16 = "16 word"
type_synonym u32 = "32 word"
type_synonym u64 = "64 word"

text \<open>
  \<open>lo8 w\<close> and \<open>hi8 w\<close> are the two bytes the sources store with
  \<open>w & 0xFF\<close> and \<open>(w >> 8) & 0xFF\<close>.
\<close>

definition lo8 :: "u16 \<Rightarrow> u8" where
  "lo8 w = ucast (w AND 0xFF)"

definition hi8 :: "u16 \<Rightarrow> u8" where
  "hi8 w = ucast (drop_bit 8 w AND 0xFF)"

subsection \<open>Outcomes of C code\<close>

text \<open>
  A call returns a value, or it stops: an \<open>assert\<close> fails and the process aborts, an
  index leaves its array, a variable is read before it is set, or a null pointer is followed;
  after the last three C says
  nothing about what happens. All are values of
  the model, so that a theorem that a call returns is a theorem that none of them happens.
\<close>

datatype fault = Assert_Failed | Out_Of_Bounds | Uninitialised | Null_Pointer | Division_By_Zero
  | Invalid_Free

type_synonym 'a outcome = "fault + 'a"

definition bind_c :: "'a outcome \<Rightarrow> ('a \<Rightarrow> 'b outcome) \<Rightarrow> 'b outcome" where
  "bind_c m k = (case m of Inl e \<Rightarrow> Inl e | Inr v \<Rightarrow> k v)"

definition assert_c :: "bool \<Rightarrow> 'a outcome \<Rightarrow> 'a outcome" where
  "assert_c b k = (if b then k else Inl Assert_Failed)"

definition aget :: "'a list \<Rightarrow> int \<Rightarrow> 'a outcome" where
  "aget xs i = (if 0 \<le> i \<and> nat i < length xs then Inr (xs ! nat i) else Inl Out_Of_Bounds)"

definition aput :: "'a list \<Rightarrow> int \<Rightarrow> 'a \<Rightarrow> 'a list outcome" where
  "aput xs i v = (if 0 \<le> i \<and> nat i < length xs then Inr (xs[nat i := v]) else Inl Out_Of_Bounds)"

lemma bind_c_simps [simp]:
  "bind_c (Inl e) k = Inl e"
  "bind_c (Inr v) k = k v"
  by (simp_all add: bind_c_def)

lemma bind_c_eq_Inr:
  "bind_c m k = Inr r \<longleftrightarrow> (\<exists>v. m = Inr v \<and> k v = Inr r)"
  by (cases m) auto

lemma assert_c_simps [simp]:
  "assert_c True k = k"
  "assert_c False k = Inl Assert_Failed"
  by (simp_all add: assert_c_def)

lemma assert_c_eq_Inr [simp]:
  "assert_c b k = Inr r \<longleftrightarrow> b \<and> k = Inr r"
  by (simp add: assert_c_def)

lemma aget_eq_Inr:
  "aget xs i = Inr v \<longleftrightarrow> 0 \<le> i \<and> nat i < length xs \<and> v = xs ! nat i"
  by (auto simp: aget_def)

lemma aput_eq_Inr:
  "aput xs i v = Inr ys \<longleftrightarrow> 0 \<le> i \<and> nat i < length xs \<and> ys = xs[nat i := v]"
  by (auto simp: aput_def)

lemma aget_in_range [simp]:
  "n < length xs \<Longrightarrow> aget xs (int n) = Inr (xs ! n)"
  by (simp add: aget_def)

lemma aput_in_range [simp]:
  "n < length xs \<Longrightarrow> aput xs (int n) v = Inr (xs[n := v])"
  by (simp add: aput_def)

lemmas outcome_eq_Inr = bind_c_eq_Inr aget_eq_Inr aput_eq_Inr

text \<open>
  \<open>returns P m\<close>: if the call \<open>m\<close> returns, its value satisfies \<open>P\<close>. The rules push
  it through the sequencing of the model, so that a fact about every return of a routine is
  one simplification of its body.
\<close>

definition returns :: "('a \<Rightarrow> bool) \<Rightarrow> 'a outcome \<Rightarrow> bool" where
  "returns P m \<longleftrightarrow> (case m of Inl _ \<Rightarrow> True | Inr v \<Rightarrow> P v)"

lemma returns_Inl [simp]: "returns P (Inl e)"
  and returns_Inr [simp]: "returns P (Inr v) = P v"
  by (simp_all add: returns_def)

lemma returns_bind [simp]: "returns P (bind_c m k) = returns (\<lambda>v. returns P (k v)) m"
  by (simp add: returns_def bind_c_def split: sum.split)

lemma returns_assert [simp]: "returns P (assert_c b m) = (b \<longrightarrow> returns P m)"
  by (simp add: returns_def assert_c_def)

lemma returns_aget [simp]:
  "returns P (aget xs i) = (0 \<le> i \<and> nat i < length xs \<longrightarrow> P (xs ! nat i))"
  by (auto simp: returns_def aget_def)

lemma returns_aput [simp]:
  "returns P (aput xs i v) = (0 \<le> i \<and> nat i < length xs \<longrightarrow> P (xs[nat i := v]))"
  by (auto simp: returns_def aput_def)

lemma returns_True [simp]: "returns (\<lambda>_. True) m"
  by (cases m) simp_all

lemma returns_if:
  "returns P (if b then m else n) = ((b \<longrightarrow> returns P m) \<and> (\<not> b \<longrightarrow> returns P n))"
  by simp

lemma returnsD: "returns P m \<Longrightarrow> m = Inr v \<Longrightarrow> P v"
  by simp

lemma returns_mono: "returns P m \<Longrightarrow> (\<And>v. P v \<Longrightarrow> Q v) \<Longrightarrow> returns Q m"
  by (cases m) auto

lemma returns_conjI: "returns P m \<Longrightarrow> returns Q m \<Longrightarrow> returns (\<lambda>v. P v \<and> Q v) m"
  by (cases m) auto

subsection \<open>Words\<close>

lemma unat_Suc_small: "Suc (unat w) < 2 ^ LENGTH('a) \<Longrightarrow> unat (w + 1) = Suc (unat w)"
  for w :: "'a::len word"
  by (simp add: unat_word_ariths)

lemma byte_mask_bit: "k < 8 \<Longrightarrow> bit (0xFF :: u16) k"
  by (simp add: less_Suc_eq numeral_eq_Suc) auto

lemma lo8_bit: "k < 8 \<Longrightarrow> bit (lo8 w) k = bit w k"
  using byte_mask_bit [of k] by (simp add: lo8_def bit_simps)

lemma hi8_bit: "k < 8 \<Longrightarrow> bit (hi8 w) k = bit w (k + 8)"
  using byte_mask_bit [of k] by (simp add: hi8_def bit_simps add.commute)

lemma lo8_hi8_eq_iff:
  "lo8 v = lo8 w \<and> hi8 v = hi8 w \<longleftrightarrow> v = w"
proof
  assume eq: "lo8 v = lo8 w \<and> hi8 v = hi8 w"
  show "v = w"
  proof (rule bit_word_eqI)
    fix n
    assume "n < LENGTH(16)"
    then have n: "n < 8 \<or> (\<exists>k<8. n = k + 8)"
      by (auto intro: exI [of _ "n - 8"])
    have "bit (lo8 v) k = bit (lo8 w) k" "bit (hi8 v) k = bit (hi8 w) k" for k
      using eq by simp_all
    with n show "bit v n = bit w n" by (metis lo8_bit hi8_bit)
  qed
qed simp

lemma and_exp_eq: "x AND 2 ^ n = (if bit x n then 2 ^ n else 0)"
  for x :: "'a::len word"
  by (rule bit_word_eqI) (auto simp: bit_simps)

lemma and_one_eq_if: "w AND 1 = (if bit w 0 then 1 else 0)"
  for w :: "'a::len word"
  using and_exp_eq [of w 0] by simp

lemma xor_eq_right_iff: "v XOR w = w \<longleftrightarrow> v = 0"
  for v w :: "'a::len word"
  by (auto simp: bit_eq_iff bit_simps)

lemma xor_eq_zero_iff: "v XOR w = 0 \<longleftrightarrow> v = w"
  for v w :: "'a::len word"
  by (auto simp: bit_eq_iff bit_simps)

lemma xor_xor_cancel [simp]: "v XOR w XOR w = v"
  for v w :: "'a::len word"
  by (simp add: xor.assoc)

lemma and_one_mult: "(w AND 1) * c = (if bit w 0 then c else 0)"
  for w c :: "'a::len word"
  using and_exp_eq [of w 0] by simp

lemma or_eq_xor_disjoint: "(x AND a) OR (y AND b) = (x AND a) XOR (y AND b)"
  if "a AND b = 0" for x y a b :: "'a::len word"
  using that by (auto simp: bit_eq_iff bit_simps)

lemma and_xor_distrib_right: "(v XOR w) AND m = (v AND m) XOR (w AND m)"
  for v w m :: "'a::len word"
  by (auto simp: bit_eq_iff bit_simps)

lemma and_xor_distrib_left: "m AND (v XOR w) = (m AND v) XOR (m AND w)"
  for v w m :: "'a::len word"
  by (auto simp: bit_eq_iff bit_simps)

lemma masked_or_select: "((x AND m) OR (y AND k)) AND m = x AND m"
  if "k AND m = 0" for x y m k :: "'a::len word"
  using that by (auto simp: bit_eq_iff bit_simps)

text \<open>
  The bits of a word, least significant first: the order in which USB sends them.
\<close>

definition word_bits :: "'a::len word \<Rightarrow> bool list" where
  "word_bits w = map (bit w) [0..<LENGTH('a)]"

definition xorb :: "bool \<Rightarrow> bool \<Rightarrow> bool" where
  "xorb b c = (b \<noteq> c)"

lemma xorb_simps [simp]:
  "xorb b b = False" "xorb b False = b" "xorb False b = b"
  by (auto simp: xorb_def)

lemma length_word_bits [simp]: "length (word_bits (w::'a::len word)) = LENGTH('a)"
  by (simp add: word_bits_def)

lemma word_bits_xor: "word_bits (v XOR w) = map2 xorb (word_bits v) (word_bits w)"
  by (rule nth_equalityI) (auto simp: word_bits_def bit_simps xorb_def)

lemma word_bits_zero: "word_bits (0 :: 'a::len word) = replicate LENGTH('a) False"
  by (rule nth_equalityI) (auto simp: word_bits_def)

lemma word_bits_inject [simp]: "word_bits v = word_bits w \<longleftrightarrow> v = w"
  by (auto simp: word_bits_def bit_word_eqI)

lemma funpow_numeral: "(f ^^ numeral n) x = (f ^^ pred_numeral n) (f x)"
  by (simp add: numeral_eq_Suc funpow_swap1)

lemma funpow_Suc_inner: "(f ^^ Suc n) x = (f ^^ n) (f x)"
  by (simp add: funpow_swap1)

subsection \<open>Exclusive-or linear maps on words\<close>

text \<open>
  A map that commutes with exclusive or is determined by the words with one bit set. Both
  CRC encoders are such maps up to a constant.
\<close>

locale xor_linear =
  fixes f :: "'a::len word \<Rightarrow> 'b::len word"
  assumes lin: "f (x XOR y) = f x XOR f y"
begin

lemma lin_zero: "f 0 = 0"
  using lin [of 0 0] by simp

lemma lin_take_bit:
  assumes "\<And>k. k < LENGTH('a) \<Longrightarrow> f (push_bit k 1) = 0"
  shows "f (take_bit n x) = 0"
proof (induction n)
  case 0
  show ?case by (simp add: lin_zero)
next
  case (Suc n)
  have "take_bit (Suc n) x = take_bit n x XOR (if bit x n then push_bit n 1 else 0)"
    by (rule bit_word_eqI) (auto simp: bit_simps less_Suc_eq split: if_splits)
  moreover have "f (if bit x n then push_bit n 1 else 0) = 0"
    using assms [of n] lin_zero by (auto dest: bit_imp_le_length)
  ultimately show ?case using Suc by (simp add: lin)
qed

lemma lin_basis:
  assumes "\<And>k. k < LENGTH('a) \<Longrightarrow> f (push_bit k 1) = 0"
  shows "f x = 0"
proof -
  have "f (take_bit LENGTH('a) x) = 0"
    using assms by (rule lin_take_bit)
  moreover have "take_bit LENGTH('a) x = x"
    by (rule bit_word_eqI) (auto simp: bit_simps)
  ultimately show ?thesis by simp
qed

end

lemma xor_linear_funpow: "xor_linear f \<Longrightarrow> xor_linear (f ^^ n)"
  for f :: "'a::len word \<Rightarrow> 'a word"
  by (induction n) (simp_all add: xor_linear_def)

end
