(* ===== verification/Usbcrc.thy ===== *)
theory Usbcrc
  imports Prelude
begin

text \<open>
  The checksums of \<open>src/vpi/usb/usbcrc.c\<close>: \<open>crc5_calc\<close> appends the token CRC to an
  11-bit payload, \<open>crc5_check\<close> tests a received token, and \<open>crc16_calc\<close> and
  \<open>crc16_check\<close> do the same for the bytes of a data packet. C's integer promotions do
  not matter here: every value is stored back into its \<open>uint16_t\<close> or \<open>uint8_t\<close>
  variable, and exclusive or, left shift and multiplication agree with their 16-bit and
  8-bit versions on the bits that are kept.
\<close>

subsection \<open>The routines\<close>

text \<open>\<open>reflect8\<close>: the loop runs \<open>j\<close> from 7 down to 0.\<close>

definition reflect8_bit :: "nat \<Rightarrow> u8 \<times> u8 \<Rightarrow> u8 \<times> u8" where
  "reflect8_bit j = (\<lambda>(x, y). (drop_bit 1 x, y OR push_bit j (x AND 0x01)))"

definition reflect8 :: "u8 \<Rightarrow> u8" where
  "reflect8 x = snd (foldl (\<lambda>s j. reflect8_bit j s) (x, 0) (rev [0..<8]))"

definition crc5_bit :: "u16 \<Rightarrow> u16" where
  "crc5_bit crc = drop_bit 1 crc XOR (((crc XOR push_bit 11 crc) AND 0x0800) * 0x14)"

definition crc5_calc :: "u16 \<Rightarrow> u16" where
  "crc5_calc dat =
     (let crc = (crc5_bit ^^ 11) (0xF800 OR (dat AND 0x07FF))
      in (dat AND 0x07FF) OR (NOT crc AND 0xF800))"

definition crc5_check_bit :: "u8 \<times> u16 \<Rightarrow> u8 \<times> u16" where
  "crc5_check_bit = (\<lambda>(crc, dat).
     (push_bit 1 crc XOR ((ucast (dat XOR ucast (drop_bit 4 crc)) AND 0x01) * 0x05),
      drop_bit 1 dat))"

definition crc5_check :: "u16 \<Rightarrow> bool" where
  "crc5_check dat = ((fst ((crc5_check_bit ^^ 16) (0x1F, dat)) AND 0x1F) = 0x0C)"

text \<open>
  \<open>crc16_calc ptr len\<close> reads the first \<open>len\<close> bytes at \<open>ptr\<close>; the callers of the model
  check that the array has that many.
\<close>

definition crc16_bit :: "u16 \<times> u16 \<Rightarrow> u16 \<times> u16" where
  "crc16_bit = (\<lambda>(crc, val).
     (drop_bit 1 crc XOR (((val XOR crc) AND 0x01) * 0xA001), drop_bit 1 val))"

definition crc16_byte :: "u16 \<Rightarrow> u8 \<Rightarrow> u16" where
  "crc16_byte crc b = fst ((crc16_bit ^^ 8) (crc, ucast b))"

definition crc16_calc :: "u8 list \<Rightarrow> nat \<Rightarrow> u16" where
  "crc16_calc ptr len = NOT (foldl crc16_byte 0xFFFF (take len ptr))"

definition crc16_check :: "u8 list \<Rightarrow> nat \<Rightarrow> bool" where
  "crc16_check ptr len = (NOT (crc16_calc ptr len) = 0xB001)"

subsection \<open>Shift registers with linear feedback\<close>

text \<open>
  All four routines run a shift register over a sequence of bits. The first contract is
  linearity; the second adds what a register that shifts towards its low bit offers: fed its
  own low bits it only shifts, and a step on a zero bit loses no state.
\<close>

locale lfsr =
  fixes sh :: "'a::len word \<Rightarrow> bool \<Rightarrow> 'a word"
  assumes sh_xor: "sh (s XOR t) (xorb b c) = sh s b XOR sh t c"
begin

lemma run_xor:
  "length bs = length cs \<Longrightarrow>
     foldl sh (s XOR t) (map2 xorb bs cs) = foldl sh s bs XOR foldl sh t cs"
  by (induction bs cs arbitrary: s t rule: list_induct2) (auto simp: sh_xor)

lemma run_word_xor:
  "foldl sh (s XOR t) (word_bits (v XOR w)) = foldl sh s (word_bits v) XOR foldl sh t (word_bits w)"
  by (simp add: word_bits_xor run_xor)

end

locale lsb_lfsr = lfsr +
  assumes sh_self: "sh s (bit s 0) = drop_bit 1 s"
    and sh_kernel: "sh s False = 0 \<Longrightarrow> s = 0"
begin

lemma sh_inj:
  assumes "sh s b = sh t b"
  shows "s = t"
proof -
  have "sh (s XOR t) False = 0"
    using assms sh_xor [of s t b b] by simp
  then have "s XOR t = 0" by (rule sh_kernel)
  then show ?thesis by (metis xor.right_neutral bit.xor_left_self)
qed

lemma run_inj: "foldl sh s bs = foldl sh t bs \<Longrightarrow> s = t"
  by (induction bs arbitrary: s t) (auto dest: sh_inj)

lemma run_self: "foldl sh s (map (bit s) [0..<n]) = drop_bit n s"
proof (induction n)
  case 0
  show ?case by simp
next
  case (Suc n)
  have "bit s n = bit (drop_bit n s) 0" by (simp add: bit_simps)
  then show ?case using Suc sh_self [of "drop_bit n s"] by simp
qed

lemma run_word_self: "foldl sh s (word_bits s) = 0"
  by (simp add: word_bits_def run_self bit_eq_iff bit_simps)

lemma run_zero_bits:
  assumes "length ds \<le> LENGTH('a)" and "foldl sh 0 ds = 0"
  shows "ds = replicate (length ds) False"
proof -
  let ?n = "length ds"
  define e :: "'a word" where "e = horner_sum of_bool 2 ds"
  have bits: "bit e k \<longleftrightarrow> k < ?n \<and> ds ! k" for k
    using assms(1) by (auto simp: e_def bit_horner_sum_bit_word_iff)
  have ds: "ds = map (bit e) [0..<?n]"
    by (rule nth_equalityI) (auto simp: bits)
  have "foldl sh e ds = drop_bit ?n e"
    by (subst ds) (rule run_self)
  also have "\<dots> = 0" by (auto simp: bit_eq_iff bit_simps bits)
  finally have "foldl sh e ds = foldl sh 0 ds"
    using assms(2) by simp
  then have "e = 0" by (rule run_inj)
  then have "\<not> ds ! k" if "k < ?n" for k
    using bits [of k] that by simp
  then show ?thesis by (intro nth_equalityI) simp_all
qed

lemma run_bits_inj:
  assumes "length bs = length cs" and "length bs \<le> LENGTH('a)"
    and "foldl sh s bs = foldl sh s cs"
  shows "bs = cs"
proof -
  have "foldl sh 0 (map2 xorb bs cs) = 0"
    using run_xor [OF assms(1), of s s] assms(3) by simp
  then have *: "map2 xorb bs cs = replicate (length (map2 xorb bs cs)) False"
    using assms(1,2) by (intro run_zero_bits) simp_all
  show ?thesis
  proof (rule nth_equalityI)
    fix i
    assume "i < length bs"
    then have "map2 xorb bs cs ! i = False"
      using assms(1) by (subst *) simp
    then show "bs ! i = cs ! i"
      using \<open>i < length bs\<close> assms(1) by (simp add: xorb_def)
  qed (rule assms(1))
qed

end

definition sh5 :: "u8 \<Rightarrow> bool \<Rightarrow> u8" where
  "sh5 s b = push_bit 1 s XOR (if bit s 4 \<noteq> b then 0x05 else 0)"

definition sh16 :: "u16 \<Rightarrow> bool \<Rightarrow> u16" where
  "sh16 s b = drop_bit 1 s XOR (if bit s 0 \<noteq> b then 0xA001 else 0)"

interpretation l5: lfsr sh5
proof
  fix s t b c
  show "sh5 (s XOR t) (xorb b c) = sh5 s b XOR sh5 t c"
    by (cases "bit s 4"; cases "bit t 4"; cases b; cases c)
      (simp_all add: sh5_def bit_xor_iff xorb_def ac_simps)
qed

interpretation l16: lsb_lfsr sh16
proof
  fix s t b c
  show "sh16 (s XOR t) (xorb b c) = sh16 s b XOR sh16 t c"
    by (cases "bit s 0"; cases "bit t 0"; cases b; cases c)
      (simp_all add: sh16_def bit_xor_iff xorb_def ac_simps)
next
  fix s
  show "sh16 s (bit s 0) = drop_bit 1 s" by (simp add: sh16_def)
next
  fix s
  assume z: "sh16 s False = 0"
  have "\<not> bit (sh16 s False) 15" using z by simp
  then have "\<not> bit s 0"
    by (auto simp: sh16_def bit_simps split: if_splits dest: bit_imp_le_length)
  moreover from this have "drop_bit 1 s = 0" using z by (simp add: sh16_def)
  then have "\<not> bit (drop_bit 1 s) n" for n by simp
  then have "\<not> bit s (Suc n)" for n by (simp add: bit_simps)
  ultimately have "\<not> bit s n" for n by (cases n) simp_all
  then show "s = 0" by (intro bit_word_eqI) simp
qed

subsection \<open>The routines as shift registers\<close>

lemma crc5_check_bit_alt:
  "crc5_check_bit (crc, dat) = (sh5 crc (bit dat 0), drop_bit 1 dat)"
  by (simp add: crc5_check_bit_def sh5_def and_one_mult bit_simps)

lemma crc5_check_run:
  "(crc5_check_bit ^^ n) (s, d) = (foldl sh5 s (map (bit d) [0..<n]), drop_bit n d)"
  by (induction n) (auto simp: crc5_check_bit_alt bit_simps)

lemma crc5_check_alt: "crc5_check d \<longleftrightarrow> foldl sh5 0x1F (word_bits d) AND 0x1F = 0x0C"
  by (simp add: crc5_check_def crc5_check_run word_bits_def)

lemma crc5_bit_alt:
  "crc5_bit crc = drop_bit 1 crc XOR (if bit crc 11 \<noteq> bit crc 0 then 0xA000 else 0)"
proof -
  have "(x AND 0x0800) * 0x14 = (if bit x 11 then 0xA000 else 0)" for x :: u16
    using and_exp_eq [of x 11] by simp
  then show ?thesis by (simp add: crc5_bit_def bit_simps)
qed

lemma crc5_bit_xor: "crc5_bit (x XOR y) = crc5_bit x XOR crc5_bit y"
  by (cases "bit x 11"; cases "bit x 0"; cases "bit y 11"; cases "bit y 0")
    (simp_all add: crc5_bit_alt bit_xor_iff ac_simps)

interpretation c5: xor_linear "crc5_bit ^^ n" for n
  by (rule xor_linear_funpow) (simp add: xor_linear_def crc5_bit_xor)

text \<open>The linear part of \<open>crc5_calc\<close>, and the codeword of the payload 0.\<close>

definition crc5_lin :: "u16 \<Rightarrow> u16" where
  "crc5_lin d = (d AND 0x07FF) XOR ((crc5_bit ^^ 11) (d AND 0x07FF) AND 0xF800)"

lemma crc5_calc_affine: "crc5_calc d = crc5_lin d XOR crc5_calc 0"
proof -
  have 1: "0xF800 OR (d AND 0x7FF) = 0xF800 XOR (d AND 0x7FF)"
    using or_eq_xor_disjoint [of "0xF800" "0x7FF" "0xF800" d] by simp
  have 2: "NOT c AND 0xF800 = (c AND 0xF800) XOR 0xF800" for c :: u16
    by (auto simp: bit_eq_iff bit_simps)
  have 3: "(d AND 0x7FF) OR (c AND 0xF800) = (d AND 0x7FF) XOR (c AND 0xF800)" for c d :: u16
    by (rule or_eq_xor_disjoint) simp
  show ?thesis
    unfolding crc5_calc_def crc5_lin_def Let_def 3
    unfolding 1 2 c5.lin and_xor_distrib_right
    by (simp add: ac_simps)
qed

interpretation crc5_linear: xor_linear crc5_lin
proof
  fix x y
  show "crc5_lin (x XOR y) = crc5_lin x XOR crc5_lin y"
    unfolding crc5_lin_def and_xor_distrib_right c5.lin by (simp only: ac_simps)
qed

lemmas crc5_eval =
  crc5_bit_alt [of 1] crc5_bit_alt [of "numeral n" for n] c5.lin_zero
  sh5_def [of 0] sh5_def [of 1] sh5_def [of "numeral n" for n]
  word_bits_def funpow_numeral funpow_Suc_inner upt_rec

lemma crc5_lin_basis:
  assumes "k < LENGTH(16)"
  shows "foldl sh5 0 (word_bits (crc5_lin (push_bit k 1))) AND 0x1F = 0"
proof -
  have "k \<in> {0, 1, 2, 3, 4, 5, 6, 7, 8, 9, 10, 11, 12, 13, 14, 15}"
    using assms by simp presburger
  then show ?thesis
    by (elim insertE emptyE) (simp_all add: crc5_lin_def crc5_eval)
qed


lemma crc5_state_split:
  "foldl sh5 s (word_bits (v XOR w)) = foldl sh5 0 (word_bits v) XOR foldl sh5 s (word_bits w)"
  using l5.run_word_xor [of 0 s v w] by simp

lemma crc5_state_lin: "foldl sh5 0 (word_bits (crc5_lin d)) AND 0x1F = 0"
proof -
  have "xor_linear (\<lambda>d. foldl sh5 0 (word_bits (crc5_lin d)) AND 0x1F)"
  proof
    fix x y
    show "foldl sh5 0 (word_bits (crc5_lin (x XOR y))) AND 0x1F =
      (foldl sh5 0 (word_bits (crc5_lin x)) AND 0x1F) XOR
      (foldl sh5 0 (word_bits (crc5_lin y)) AND 0x1F)"
      by (simp only: crc5_linear.lin crc5_state_split and_xor_distrib_right)
  qed
  then show ?thesis
    using crc5_lin_basis by (rule xor_linear.lin_basis)
qed

lemma crc5_check_calc: "crc5_check (crc5_calc dat)"
proof -
  have "foldl sh5 0x1F (word_bits (crc5_calc 0)) AND 0x1F = 0x0C"
    by (simp add: crc5_calc_def crc5_eval)
  moreover have "crc5_calc dat = crc5_lin dat XOR crc5_calc 0"
    by (rule crc5_calc_affine)
  ultimately show ?thesis
    by (simp only: crc5_check_alt crc5_state_split and_xor_distrib_right crc5_state_lin) simp
qed

lemma crc5_calc_payload: "crc5_calc dat AND 0x07FF = dat AND 0x07FF"
  by (simp only: crc5_calc_def Let_def) (rule masked_or_select, simp)

text \<open>
  The five check bits are independent: a nonzero pattern in them alone moves the final
  state of the checker.
\<close>

lemma crc5_top_bits:
  fixes e :: u16
  assumes "e AND 0x07FF = 0"
  shows "e = (if bit e 11 then 2 ^ 11 else 0) XOR (if bit e 12 then 2 ^ 12 else 0) XOR
    (if bit e 13 then 2 ^ 13 else 0) XOR (if bit e 14 then 2 ^ 14 else 0) XOR
    (if bit e 15 then 2 ^ 15 else (0::u16))"
proof -
  have "e AND 0xF800 = e"
  proof -
    have "e = (e AND 0x07FF) OR (e AND NOT 0x07FF)"
      by (auto simp: bit_eq_iff bit_simps)
    moreover have "NOT 0x07FF = (0xF800 :: u16)" by simp
    ultimately show ?thesis using assms by (metis or.left_neutral)
  qed
  moreover have "(0xF800 :: u16) = 2 ^ 11 XOR 2 ^ 12 XOR 2 ^ 13 XOR 2 ^ 14 XOR 2 ^ 15"
    by simp
  ultimately have "e = (e AND 2 ^ 11) XOR (e AND 2 ^ 12) XOR (e AND 2 ^ 13) XOR
    (e AND 2 ^ 14) XOR (e AND 2 ^ 15)"
    by (metis and_xor_distrib_left)
  then show ?thesis unfolding and_exp_eq .
qed

lemma crc5_check_bits_independent:
  fixes e :: u16
  assumes "e AND 0x07FF = 0" and "foldl sh5 0 (word_bits e) AND 0x1F = 0"
  shows "e = 0"
proof (rule ccontr)
  assume "e \<noteq> 0"
  obtain a b c d f where
    e: "e = (if a then 2 ^ 11 else 0) XOR (if b then 2 ^ 12 else 0) XOR
      (if c then 2 ^ 13 else 0) XOR (if d then 2 ^ 14 else 0) XOR (if f then 2 ^ 15 else 0)"
    using crc5_top_bits [OF assms(1)] by blast
  show False
    using \<open>e \<noteq> 0\<close> assms(2) unfolding e
    by (cases a; cases b; cases c; cases d; cases f) (simp_all add: crc5_eval)
qed

text \<open>
  (C6) The token checker accepts exactly the codewords of the encoder: a 16-bit token passes
  \<open>crc5_check\<close> if and only if it is \<open>crc5_calc\<close> of its own low 11 bits. So every
  encoded token is accepted, and no other value of the five check bits is.
\<close>

theorem crc5_check_iff: "crc5_check t \<longleftrightarrow> t = crc5_calc (t AND 0x07FF)"
proof
  assume "t = crc5_calc (t AND 0x07FF)"
  then show "crc5_check t" using crc5_check_calc by metis
next
  let ?u = "crc5_calc (t AND 0x07FF)"
  assume t: "crc5_check t"
  have "(t XOR ?u) AND 0x07FF = 0"
    by (simp only: and_xor_distrib_right crc5_calc_payload and.assoc and.idem) simp
  moreover have "foldl sh5 0x1F (word_bits (t XOR ?u XOR ?u)) AND 0x1F =
    (foldl sh5 0 (word_bits (t XOR ?u)) AND 0x1F) XOR (foldl sh5 0x1F (word_bits ?u) AND 0x1F)"
    by (simp only: crc5_state_split and_xor_distrib_right xor.assoc)
  then have "foldl sh5 0 (word_bits (t XOR ?u)) AND 0x1F = 0"
    using t crc5_check_calc [of "t AND 0x07FF"]
    by (simp add: crc5_check_alt xor_eq_right_iff)
  ultimately have "t XOR ?u = 0" by (rule crc5_check_bits_independent)
  then show "t = ?u" by (simp only: xor_eq_zero_iff)
qed


text \<open>The data CRC as one register run over the bits of all bytes.\<close>

lemma crc16_bit_alt: "crc16_bit (crc, val) = (sh16 crc (bit val 0), drop_bit 1 val)"
  by (simp add: crc16_bit_def sh16_def and_one_mult bit_simps)

lemma crc16_run:
  "(crc16_bit ^^ n) (s, v) = (foldl sh16 s (map (bit v) [0..<n]), drop_bit n v)"
  by (induction n) (auto simp: crc16_bit_alt bit_simps)

lemma crc16_byte_alt: "crc16_byte s b = foldl sh16 s (word_bits b)"
proof -
  have "map (bit (ucast b :: u16)) [0..<8] = word_bits b"
    by (simp add: word_bits_def bit_simps)
  then show ?thesis by (simp add: crc16_byte_def crc16_run)
qed

definition byte_bits :: "u8 list \<Rightarrow> bool list" where
  "byte_bits bs = concat (map word_bits bs)"

lemma byte_bits_simps [simp]:
  "byte_bits [] = []"
  "byte_bits (b # bs) = word_bits b @ byte_bits bs"
  "byte_bits (bs @ cs) = byte_bits bs @ byte_bits cs"
  by (simp_all add: byte_bits_def)

lemma length_byte_bits [simp]: "length (byte_bits bs) = 8 * length bs"
  by (induction bs) auto

lemma byte_bits_inject: "length bs = length cs \<Longrightarrow> byte_bits bs = byte_bits cs \<longleftrightarrow> bs = cs"
  by (induction bs cs rule: list_induct2) auto

lemma crc16_bytes_alt: "foldl crc16_byte s bs = foldl sh16 s (byte_bits bs)"
  by (induction bs arbitrary: s) (simp_all add: crc16_byte_alt)

lemma word_bits_lo8_hi8: "word_bits (lo8 w) @ word_bits (hi8 w) = word_bits w"
  by (rule nth_equalityI) (auto simp: word_bits_def nth_append lo8_bit hi8_bit)

lemma sh16_residue: "foldl sh16 0 (word_bits (NOT (0::u16))) = 0xB001"
  by (simp add: word_bits_def upt_rec sh16_def)

lemma crc16_residue: "foldl sh16 s (word_bits (NOT s)) = 0xB001"
proof -
  have "s XOR NOT 0 = NOT s" by (simp add: bit_eq_iff bit_simps)
  then have "foldl sh16 s (word_bits (NOT s)) =
    foldl sh16 s (word_bits s) XOR foldl sh16 0 (word_bits (NOT (0::u16)))"
    using l16.run_word_xor [of s 0 s "NOT 0"] by simp
  then show ?thesis by (simp only: l16.run_word_self sh16_residue) simp
qed

lemma crc16_codeword:
  "crc16_check (bs @ [c1, c2]) (length bs + 2) \<longleftrightarrow>
     c1 = lo8 (crc16_calc bs (length bs)) \<and> c2 = hi8 (crc16_calc bs (length bs))"
proof -
  define s where "s = foldl sh16 0xFFFF (byte_bits bs)"
  have crc: "crc16_calc bs (length bs) = NOT s"
    by (simp add: crc16_calc_def s_def crc16_bytes_alt)
  have check: "crc16_check (bs @ [c1, c2]) (length bs + 2) \<longleftrightarrow>
      foldl sh16 s (word_bits c1 @ word_bits c2) = 0xB001"
    by (simp add: crc16_check_def crc16_calc_def crc16_bytes_alt crc16_byte_alt s_def)
  have "foldl sh16 s (word_bits (lo8 (NOT s)) @ word_bits (hi8 (NOT s))) = 0xB001"
    by (simp only: word_bits_lo8_hi8 crc16_residue)
  then have "foldl sh16 s (word_bits c1 @ word_bits c2) = 0xB001 \<Longrightarrow>
      word_bits c1 @ word_bits c2 = word_bits (lo8 (NOT s)) @ word_bits (hi8 (NOT s))"
    by (intro l16.run_bits_inj [where s = s]) simp_all
  then have "foldl sh16 s (word_bits c1 @ word_bits c2) = 0xB001 \<longleftrightarrow>
      c1 = lo8 (NOT s) \<and> c2 = hi8 (NOT s)"
    using \<open>foldl sh16 s (word_bits (lo8 (NOT s)) @ _) = _\<close> by (auto simp del: foldl_append)
  then show ?thesis by (simp only: check crc)
qed

lemma crc16_ready:
  "n \<le> length tx \<Longrightarrow> crc16_check (take n tx @ [lo8 (crc16_calc tx n), hi8 (crc16_calc tx n)]) (n + 2)"
  using crc16_codeword [of "take n tx" "lo8 (crc16_calc tx n)" "hi8 (crc16_calc tx n)"]
  by (simp add: min_absorb2 crc16_calc_def)

text \<open>
  (C5) A data packet passes \<open>crc16_check\<close> exactly when its last two bytes are the low and
  the high byte of \<open>crc16_calc\<close> over the bytes before them, for a payload of any length.
\<close>

theorem crc16_check_iff:
  "crc16_check (bs @ [c1, c2]) (length bs + 2) \<longleftrightarrow>
     c1 = lo8 (crc16_calc bs (length bs)) \<and> c2 = hi8 (crc16_calc bs (length bs))"
  by (rule crc16_codeword)

text \<open>
  (C7) Burst detection: two messages of the same length that differ only in two adjacent
  bytes (so in particular in one bit, or one byte) never have the same data CRC.
\<close>

theorem crc16_detects_burst:
  assumes "length xs = length ys" and "length xs \<le> 2" and "xs \<noteq> ys"
  shows "crc16_calc (p @ xs @ q) (length (p @ xs @ q)) \<noteq>
    crc16_calc (p @ ys @ q) (length (p @ ys @ q))"
proof
  let ?s = "foldl sh16 0xFFFF (byte_bits p)"
  assume "crc16_calc (p @ xs @ q) (length (p @ xs @ q)) =
    crc16_calc (p @ ys @ q) (length (p @ ys @ q))"
  then have "foldl sh16 (foldl sh16 ?s (byte_bits xs)) (byte_bits q) =
    foldl sh16 (foldl sh16 ?s (byte_bits ys)) (byte_bits q)"
    by (simp add: crc16_calc_def crc16_bytes_alt)
  then have "foldl sh16 ?s (byte_bits xs) = foldl sh16 ?s (byte_bits ys)"
    by (rule l16.run_inj)
  then have "byte_bits xs = byte_bits ys"
    using assms(1,2) by (intro l16.run_bits_inj) simp_all
  then show False using assms(1,3) by (simp add: byte_bits_inject)
qed

lemma crc16_detects_burst_witness:
  "crc16_calc ([0x80] @ [0x06] @ [0x00]) 3 \<noteq> crc16_calc ([0x80] @ [0x07] @ [0x00]) 3"
  using crc16_detects_burst [of "[0x06]" "[0x07]" "[0x80]" "[0x00]"]
  by (simp add: eval_nat_numeral)

subsection \<open>Bit reflection\<close>

lemma reflect8_bit_bits:
  "reflect8_bit j (x, y) = (drop_bit 1 x, y OR (if bit x 0 then push_bit j 1 else 0))"
  unfolding reflect8_bit_def and_one_eq_if by simp

lemma reflect8_fold:
  "m \<le> 8 \<Longrightarrow>
     foldl (\<lambda>s j. reflect8_bit j s) (x, y) (rev [m..<8]) =
       (drop_bit (8 - m) x, snd (foldl (\<lambda>s j. reflect8_bit j s) (x, y) (rev [m..<8]))) \<and>
     (\<forall>n<8. bit (snd (foldl (\<lambda>s j. reflect8_bit j s) (x, y) (rev [m..<8]))) n \<longleftrightarrow>
        bit y n \<or> (m \<le> n \<and> bit x (7 - n)))"
proof (induction "8 - m" arbitrary: m)
  case 0
  then show ?case by simp
next
  case (Suc k)
  then have m: "m < 8" and eq: "[m..<8] = m # [Suc m..<8]"
    by (simp_all add: upt_rec)
  have k: "8 - m = Suc (8 - Suc m)" using m by simp
  define y' where "y' = snd (foldl (\<lambda>s j. reflect8_bit j s) (x, y) (rev [Suc m..<8]))"
  have IH: "foldl (\<lambda>s j. reflect8_bit j s) (x, y) (rev [Suc m..<8]) = (drop_bit (8 - Suc m) x, y')"
    and bits: "\<forall>n<8. bit y' n \<longleftrightarrow> bit y n \<or> (Suc m \<le> n \<and> bit x (7 - n))"
    using Suc.hyps(1) [of "Suc m", folded y'_def] Suc.hyps(2) m by simp_all
  have "foldl (\<lambda>s j. reflect8_bit j s) (x, y) (rev [m..<8]) =
    (drop_bit (8 - m) x, y' OR (if bit x (7 - m) then push_bit m 1 else 0))"
    using m by (simp add: eq IH reflect8_bit_bits k bit_simps del: drop_bit_Suc)
  then show ?case
    using bits m by (auto simp: bit_simps le_less Suc_le_eq)
qed

lemma reflect8_bits: "n < 8 \<Longrightarrow> bit (reflect8 x) n = bit x (7 - n)"
  using reflect8_fold [of 0 x 0] by (simp add: reflect8_def)

lemma reflect8_involution: "reflect8 (reflect8 x) = x"
  by (rule bit_word_eqI) (simp add: reflect8_bits)

end
