(* ===== verification/Ulpi.thy ===== *)
theory Ulpi
  imports Usbcrc
begin

text \<open>
  The ULPI bus, USB transfers and the transaction step-functions of
  \<open>src/vpi/usb/ulpi.h\<close> and \<open>src/vpi/usb/ulpi.c\<close>, as built (\<open>__fast_eop\<close> is not
  defined). A step-function takes the transfer, the sampled bus \<open>in\<close> and the caller's
  \<open>out\<close>, and returns its \<open>int\<close> result with the new transfer and the new \<open>out\<close>:
  the C code updates both through pointers that never alias. A failing \<open>assert\<close> and an
  access outside an array are the two faults of \<open>Prelude\<close>. The diagnostics that are
  only printed have no counterpart here. \<open>int\<close> positions and lengths are HOL integers:
  the array accesses keep them far from the ends of C's range.
\<close>

subsection \<open>Signals and buses\<close>

text \<open>A VPI scalar is a \<open>uint8_t\<close>: 0, 1, Z and X are the values 0 to 3.\<close>

type_synonym bit_t = u8

abbreviation SIG0 :: bit_t where "SIG0 \<equiv> 0"
abbreviation SIG1 :: bit_t where "SIG1 \<equiv> 1"
abbreviation SIGZ :: bit_t where "SIGZ \<equiv> 2"
abbreviation SIGX :: bit_t where "SIGX \<equiv> 3"

record byte_t =
  byte_a :: u8
  byte_b :: u8

record ulpi_bus_t =
  u_clock :: bit_t
  u_rst_n :: bit_t
  u_dir :: bit_t
  u_stp :: bit_t
  u_nxt :: bit_t
  u_data :: byte_t

abbreviation data_a :: "ulpi_bus_t \<Rightarrow> u8" where
  "data_a bus \<equiv> byte_a (u_data bus)"

abbreviation data_b :: "ulpi_bus_t \<Rightarrow> u8" where
  "data_b bus \<equiv> byte_b (u_data bus)"

text \<open>The assignments \<open>bus->data.a = a\<close> and \<open>bus->data.b = b\<close>.\<close>

definition set_a :: "u8 \<Rightarrow> ulpi_bus_t \<Rightarrow> ulpi_bus_t" where
  "set_a a bus = bus\<lparr>u_data := (u_data bus)\<lparr>byte_a := a\<rparr>\<rparr>"

definition set_b :: "u8 \<Rightarrow> ulpi_bus_t \<Rightarrow> ulpi_bus_t" where
  "set_b b bus = bus\<lparr>u_data := (u_data bus)\<lparr>byte_b := b\<rparr>\<rparr>"

definition bus_zero :: ulpi_bus_t where
  "bus_zero = \<lparr>u_clock = 0, u_rst_n = 0, u_dir = 0, u_stp = 0, u_nxt = 0,
     u_data = \<lparr>byte_a = 0, byte_b = 0\<rparr>\<rparr>"

subsection \<open>Transfers\<close>

datatype xfer_type =
    XferIdle | NOPID | RegWrite | RegRead | SETUP | OUT | IN | SOF | PING
  | DnDATA0 | DnDATA1 | DnACK | UpACK | UpNYET | UpNAK | UpSTALL | UpDATA0 | UpDATA1 | TimeOut

datatype xfer_stage =
    NoXfer | AssertDir | InitRXCMD | TokenPID | Token1 | Token2 | HskPID | HskStop
  | DATAxPID | DATAxBody | DATAxCRC1 | DATAxCRC2 | DATAxStop | ULPITurn | EndRXCMD | EOP
  | REGW | REGR | REGD | LineIdle

text \<open>
  The code compares both enumerations with \<open><\<close>, so they are ordered by their C values.
\<close>

primrec xfer_type_val :: "xfer_type \<Rightarrow> nat" where
  "xfer_type_val XferIdle = 0"
| "xfer_type_val NOPID = 1"
| "xfer_type_val RegWrite = 2"
| "xfer_type_val RegRead = 3"
| "xfer_type_val SETUP = 4"
| "xfer_type_val OUT = 5"
| "xfer_type_val IN = 6"
| "xfer_type_val SOF = 7"
| "xfer_type_val PING = 8"
| "xfer_type_val DnDATA0 = 9"
| "xfer_type_val DnDATA1 = 10"
| "xfer_type_val DnACK = 11"
| "xfer_type_val UpACK = 12"
| "xfer_type_val UpNYET = 13"
| "xfer_type_val UpNAK = 14"
| "xfer_type_val UpSTALL = 15"
| "xfer_type_val UpDATA0 = 16"
| "xfer_type_val UpDATA1 = 17"
| "xfer_type_val TimeOut = 18"

primrec xfer_stage_val :: "xfer_stage \<Rightarrow> nat" where
  "xfer_stage_val NoXfer = 0"
| "xfer_stage_val AssertDir = 1"
| "xfer_stage_val InitRXCMD = 2"
| "xfer_stage_val TokenPID = 3"
| "xfer_stage_val Token1 = 4"
| "xfer_stage_val Token2 = 5"
| "xfer_stage_val HskPID = 6"
| "xfer_stage_val HskStop = 7"
| "xfer_stage_val DATAxPID = 8"
| "xfer_stage_val DATAxBody = 9"
| "xfer_stage_val DATAxCRC1 = 10"
| "xfer_stage_val DATAxCRC2 = 11"
| "xfer_stage_val DATAxStop = 12"
| "xfer_stage_val ULPITurn = 13"
| "xfer_stage_val EndRXCMD = 14"
| "xfer_stage_val EOP = 15"
| "xfer_stage_val REGW = 16"
| "xfer_stage_val REGR = 17"
| "xfer_stage_val REGD = 18"
| "xfer_stage_val LineIdle = 19"

lemma xfer_type_val_inject: "xfer_type_val s = xfer_type_val t \<Longrightarrow> s = t"
  by (cases s; cases t) simp_all

lemma xfer_stage_val_inject: "xfer_stage_val s = xfer_stage_val t \<Longrightarrow> s = t"
  by (cases s; cases t) simp_all

instantiation xfer_type :: linorder
begin
definition less_eq_xfer_type :: "xfer_type \<Rightarrow> xfer_type \<Rightarrow> bool" where
  "less_eq_xfer_type s t \<longleftrightarrow> xfer_type_val s \<le> xfer_type_val t"
definition less_xfer_type :: "xfer_type \<Rightarrow> xfer_type \<Rightarrow> bool" where
  "less_xfer_type s t \<longleftrightarrow> xfer_type_val s < xfer_type_val t"
instance
  by standard (auto simp: less_eq_xfer_type_def less_xfer_type_def intro: xfer_type_val_inject)
end

instantiation xfer_stage :: linorder
begin
definition less_eq_xfer_stage :: "xfer_stage \<Rightarrow> xfer_stage \<Rightarrow> bool" where
  "less_eq_xfer_stage s t \<longleftrightarrow> xfer_stage_val s \<le> xfer_stage_val t"
definition less_xfer_stage :: "xfer_stage \<Rightarrow> xfer_stage \<Rightarrow> bool" where
  "less_xfer_stage s t \<longleftrightarrow> xfer_stage_val s < xfer_stage_val t"
instance
  by standard (auto simp: less_eq_xfer_stage_def less_xfer_stage_def intro: xfer_stage_val_inject)
end

lemmas xfer_order = less_eq_xfer_type_def less_xfer_type_def less_eq_xfer_stage_def
  less_xfer_stage_def

record transfer_t =
  x_address :: u8
  x_endpoint :: u8
  x_type :: xfer_type
  x_stage :: xfer_stage
  x_ep_seq :: "bit_t list"
  x_cycle :: u32
  x_tx :: "u8 list"
  x_tx_len :: int
  x_tx_ptr :: int
  x_rx :: "u8 list"
  x_rx_len :: int
  x_rx_ptr :: int
  x_tok1 :: u8
  x_tok2 :: u8
  x_crc1 :: u8
  x_crc2 :: u8

abbreviation MAX_PACKET_SIZE :: nat where "MAX_PACKET_SIZE \<equiv> 512"
abbreviation MAX_CONFIG_SIZE :: nat where "MAX_CONFIG_SIZE \<equiv> 64"

text \<open>The zero-filled structure of an initialiser \<open>{0}\<close> or of a \<open>memset\<close>.\<close>

definition xfer_zero :: transfer_t where
  "xfer_zero = \<lparr>x_address = 0, x_endpoint = 0, x_type = XferIdle, x_stage = NoXfer,
     x_ep_seq = replicate 16 0, x_cycle = 0,
     x_tx = replicate MAX_PACKET_SIZE 0, x_tx_len = 0, x_tx_ptr = 0,
     x_rx = replicate MAX_PACKET_SIZE 0, x_rx_len = 0, x_rx_ptr = 0,
     x_tok1 = 0, x_tok2 = 0, x_crc1 = 0, x_crc2 = 0\<rparr>"

text \<open>The three arrays of a transfer have the lengths of their C declarations.\<close>

definition arrays_ok :: "transfer_t \<Rightarrow> bool" where
  "arrays_ok x \<longleftrightarrow> length (x_ep_seq x) = 16 \<and> length (x_tx x) = MAX_PACKET_SIZE \<and>
     length (x_rx x) = MAX_PACKET_SIZE"

subsection \<open>Packet identifiers and RX CMD bits\<close>

abbreviation USBPID_OUT :: u8 where "USBPID_OUT \<equiv> 0x1"
abbreviation USBPID_IN :: u8 where "USBPID_IN \<equiv> 0x9"
abbreviation USBPID_SOF :: u8 where "USBPID_SOF \<equiv> 0x5"
abbreviation USBPID_SETUP :: u8 where "USBPID_SETUP \<equiv> 0xD"
abbreviation USBPID_DATA0 :: u8 where "USBPID_DATA0 \<equiv> 0x3"
abbreviation USBPID_DATA1 :: u8 where "USBPID_DATA1 \<equiv> 0xB"
abbreviation USBPID_ACK :: u8 where "USBPID_ACK \<equiv> 0x2"
abbreviation USBPID_NAK :: u8 where "USBPID_NAK \<equiv> 0xA"
abbreviation USBPID_STALL :: u8 where "USBPID_STALL \<equiv> 0xE"
abbreviation USBPID_NYET :: u8 where "USBPID_NYET \<equiv> 0x6"
abbreviation USBPID_PING :: u8 where "USBPID_PING \<equiv> 0x4"

abbreviation RX_EVENT_MASK :: u8 where "RX_EVENT_MASK \<equiv> 0x30"
abbreviation RX_ACTIVE_BITS :: u8 where "RX_ACTIVE_BITS \<equiv> 0x10"

abbreviation ULPITX_DATA0 :: u8 where "ULPITX_DATA0 \<equiv> 0x43"
abbreviation ULPITX_DATA1 :: u8 where "ULPITX_DATA1 \<equiv> 0x4B"
abbreviation ULPITX_ACK :: u8 where "ULPITX_ACK \<equiv> 0x42"

subsection \<open>Helpers\<close>

definition phy_bus_release :: "ulpi_bus_t \<Rightarrow> ulpi_bus_t" where
  "phy_bus_release bus = set_b 0xFF (set_a 0x00 (bus\<lparr>u_dir := SIG0, u_nxt := SIG0\<rparr>))"

definition ulpi_bus_is_idle :: "ulpi_bus_t \<Rightarrow> bool" where
  "ulpi_bus_is_idle bus \<longleftrightarrow>
     u_rst_n bus = SIG1 \<and> data_a bus = 0x00 \<and> data_b bus = 0x00 \<and>
     u_dir bus = SIG0 \<and> u_nxt bus = SIG0 \<and> u_stp bus = SIG0"

definition ulpi_bus_idle :: "ulpi_bus_t \<Rightarrow> ulpi_bus_t" where
  "ulpi_bus_idle bus = set_b 0x00 (set_a 0x00
     (bus\<lparr>u_clock := SIG1, u_rst_n := SIG1, u_dir := SIG0, u_nxt := SIG0, u_stp := SIG0\<rparr>))"

definition check_pid :: "ulpi_bus_t \<Rightarrow> bool" where
  "check_pid bus =
     (if data_b bus \<noteq> 0x00 then False
      else (let u = drop_bit 4 (data_a bus) XOR 0x0F in u = (data_a bus AND 0x0F)))"

definition check_seq :: "transfer_t \<Rightarrow> u8 \<Rightarrow> bool" where
  "check_seq xfer pid \<longleftrightarrow>
     pid = USBPID_DATA0 \<and> x_ep_seq xfer ! unat (x_endpoint xfer AND 0x0F) = 0 \<or>
     pid = USBPID_DATA1 \<and> x_ep_seq xfer ! unat (x_endpoint xfer AND 0x0F) = 1"

definition transfer_out :: "transfer_t \<Rightarrow> u8 \<Rightarrow> u8 \<Rightarrow> transfer_t" where
  "transfer_out xfer addr ep =
     xfer\<lparr>x_address := addr, x_endpoint := ep, x_type := OUT, x_stage := NoXfer,
       x_tx_len := 0, x_tx_ptr := 0\<rparr>"

definition transfer_in :: "transfer_t \<Rightarrow> u8 \<Rightarrow> u8 \<Rightarrow> transfer_t" where
  "transfer_in xfer addr ep =
     xfer\<lparr>x_address := addr, x_endpoint := ep, x_type := IN, x_stage := NoXfer,
       x_rx_len := 0, x_rx_ptr := 0\<rparr>"

text \<open>
  \<open>transfer_ack\<close> indexes \<open>ep_seq\<close> with the whole endpoint byte, unlike \<open>check_seq\<close>,
  which masks it.
\<close>

definition transfer_ack :: "transfer_t \<Rightarrow> transfer_t outcome" where
  "transfer_ack xfer =
     (let ep = uint (x_endpoint xfer) in
      bind_c (aget (x_ep_seq xfer) ep) (\<lambda>seq.
      bind_c (aput (x_ep_seq xfer) ep (if seq = SIG0 then SIG1 else SIG0)) (\<lambda>ep_seq.
        Inr (xfer\<lparr>x_ep_seq := ep_seq\<rparr>))))"

text \<open>The 11-bit token payload is the address with the endpoint above it.\<close>

definition token_payload :: "u8 \<Rightarrow> u8 \<Rightarrow> u16" where
  "token_payload addr ep = (ucast addr AND 0x7F) OR push_bit 7 (ucast ep AND 0x0F)"

definition transfer_tok :: "transfer_t \<Rightarrow> transfer_t" where
  "transfer_tok xfer =
     (let tok = crc5_calc (token_payload (x_address xfer) (x_endpoint xfer))
      in xfer\<lparr>x_tok1 := lo8 tok, x_tok2 := ucast (drop_bit 8 tok)\<rparr>)"

definition sof_frame :: "transfer_t \<Rightarrow> u16 \<Rightarrow> transfer_t" where
  "sof_frame xfer frame =
     xfer\<lparr>x_address := 0, x_endpoint := 0, x_type := SOF, x_stage := NoXfer, x_cycle := 0,
       x_rx_len := 0, x_rx_ptr := 0, x_tx_len := 0, x_tx_ptr := 0\<rparr>"

definition transfer_type_to_pid :: "transfer_t \<Rightarrow> u8" where
  "transfer_type_to_pid xfer =
     (let ty = x_type xfer;
          pid =
            (if ty = SETUP then Some USBPID_SETUP
             else if ty = OUT then Some USBPID_OUT
             else if ty = IN then Some USBPID_IN
             else if ty = SOF then Some USBPID_SOF
             else if ty = PING then Some USBPID_PING
             else if ty = DnACK \<or> ty = UpACK then Some USBPID_ACK
             else if ty = UpNAK then Some USBPID_NAK
             else if ty = UpNYET then Some USBPID_NYET
             else if ty = UpSTALL then Some USBPID_STALL
             else if ty = DnDATA0 \<or> ty = UpDATA0 then Some USBPID_DATA0
             else if ty = DnDATA1 \<or> ty = UpDATA1 then Some USBPID_DATA1
             else None)
      in case pid of
           None \<Rightarrow> 255
         | Some pid \<Rightarrow>
             if ty < UpACK then pid OR (push_bit 4 pid XOR 0xF0) else pid OR 0x10)"

text \<open>
  \<open>crc16_of p len\<close> is a call \<open>crc16_calc(p, len)\<close> on an array: its loop reads
  \<open>p[0 .. len-1]\<close>, and a negative \<open>len\<close> is a huge \<open>uint32_t\<close>.
\<close>

definition crc16_of :: "u8 list \<Rightarrow> int \<Rightarrow> u16 outcome" where
  "crc16_of p len =
     (if 0 \<le> len \<and> nat len \<le> length p then Inr (crc16_calc p (nat len))
      else Inl Out_Of_Bounds)"

definition check_rx_crc16 :: "transfer_t \<Rightarrow> (bool \<times> transfer_t) outcome" where
  "check_rx_crc16 xfer =
     (let len = x_rx_len xfer in
      if len > 0 then
        bind_c (crc16_of (x_rx xfer) len) (\<lambda>crc.
        bind_c (crc16_of (x_rx xfer) (x_rx_ptr xfer)) (\<lambda>cod.
          let xfer = xfer\<lparr>x_crc1 := lo8 crc, x_crc2 := hi8 crc\<rparr> in
          bind_c (aget (x_rx xfer) len) (\<lambda>b1.
            if x_crc1 xfer \<noteq> b1 then Inr (False, xfer)
            else bind_c (aget (x_rx xfer) (len + 1)) (\<lambda>b2.
              Inr (x_crc2 xfer = b2 \<and> cod = 0x4FFE, xfer)))))
      else Inr (x_rx xfer ! 0 = 0x00 \<and> x_rx xfer ! 1 = 0x00, xfer))"

subsection \<open>Transaction step-functions\<close>

type_synonym step_result = "(int \<times> transfer_t \<times> ulpi_bus_t) outcome"
type_synonym step_fn = "transfer_t \<Rightarrow> ulpi_bus_t \<Rightarrow> ulpi_bus_t \<Rightarrow> step_result"

definition drive_eop :: step_fn where
  "drive_eop xfer inb out =
     (if x_stage xfer = NoXfer then Inr (1, xfer, out)
      else if x_stage xfer \<in> {Token2, DATAxCRC2, HskPID} then
        assert_c (u_dir inb = SIG1) (assert_c (u_nxt inb = SIG1) (assert_c (data_b inb = 0x00)
          (Inr (0, xfer\<lparr>x_stage := EndRXCMD\<rparr>, set_a 0x4C (out\<lparr>u_nxt := SIG0\<rparr>)))))
      else if x_stage xfer = DATAxStop then
        assert_c (u_nxt inb = SIG0)
          (Inr (0, xfer\<lparr>x_stage := EndRXCMD\<rparr>, set_b 0x00 (set_a 0x4C out)))
      else if x_stage xfer = EndRXCMD then
        assert_c (u_dir out = SIG1) (assert_c (u_nxt out = SIG0) (assert_c (data_b out = 0x00)
          (Inr (0, xfer\<lparr>x_stage := EOP\<rparr>, set_a 0x4D out))))
      else if x_stage xfer = EOP then
        assert_c (u_dir out = SIG1) (assert_c (u_nxt out = SIG0) (assert_c (data_b out = 0x00)
          (Inr (0, xfer\<lparr>x_stage := LineIdle\<rparr>, set_b 0xFF (set_a 0x00 (out\<lparr>u_dir := SIG0\<rparr>))))))
      else if x_stage xfer = LineIdle then
        assert_c (u_dir inb = SIG0) (assert_c (u_nxt inb = SIG0) (assert_c (data_a inb = 0x00)
          (Inr (1, xfer\<lparr>x_type := XferIdle, x_stage := NoXfer\<rparr>, out))))
      else Inr (-1, xfer, out))"

definition token_send_step :: step_fn where
  "token_send_step xfer inb out =
     (if x_stage xfer > NoXfer \<and> x_stage xfer < LineIdle \<and> u_dir inb \<noteq> SIG1
      then Inr (-1, xfer, out)
      else if x_type xfer \<in> {SETUP, OUT, IN, SOF} then
        (let out = inb in
         if x_stage xfer = NoXfer then
           Inr (0, xfer\<lparr>x_stage := AssertDir\<rparr>,
             set_b 0xFF (set_a 0x00 (out\<lparr>u_dir := SIG1, u_nxt := SIG1\<rparr>)))
         else if x_stage xfer = AssertDir then
           Inr (0, xfer\<lparr>x_stage := InitRXCMD\<rparr>,
             set_b 0x00 (set_a 0x5D (out\<lparr>u_nxt := SIG0\<rparr>)))
         else if x_stage xfer = InitRXCMD then
           Inr (0, xfer\<lparr>x_stage := TokenPID\<rparr>,
             set_a (transfer_type_to_pid xfer) (out\<lparr>u_dir := SIG1, u_nxt := SIG1\<rparr>))
         else if x_stage xfer = TokenPID then
           Inr (0, xfer\<lparr>x_stage := Token1\<rparr>,
             set_b 0x00 (set_a (x_tok1 xfer) (out\<lparr>u_nxt := SIG1\<rparr>)))
         else if x_stage xfer = Token1 then
           assert_c (u_dir out = SIG1) (assert_c (u_nxt out = SIG1) (assert_c (data_b out = 0x00)
             (Inr (0, xfer\<lparr>x_stage := Token2\<rparr>, set_a (x_tok2 xfer) out))))
         else drive_eop xfer inb out)
      else Inr (-1, xfer, out))"

definition datax_send_step :: step_fn where
  "datax_send_step xfer inb out =
     (let pid = (if x_type xfer = DnDATA0 then 0xC3 else 0x4B) in
      if \<not> check_seq xfer (pid AND 0x0F) then Inr (-1, xfer, out)
      else (let out = inb in
        if x_type xfer \<in> {DnDATA0, DnDATA1} then
          (if x_stage xfer = NoXfer then
             (if data_a inb \<noteq> 0x00 \<or> u_stp inb \<noteq> SIG0 then Inr (-1, xfer, out)
              else Inr (0, xfer\<lparr>x_stage := AssertDir\<rparr>,
                set_b 0xFF (set_a 0x00 (out\<lparr>u_dir := SIG1, u_nxt := SIG1\<rparr>))))
           else if x_stage xfer = AssertDir then
             Inr (0, xfer\<lparr>x_stage := InitRXCMD\<rparr>,
               set_b 0x00 (set_a 0x5D (out\<lparr>u_nxt := SIG0\<rparr>)))
           else if x_stage xfer = InitRXCMD then
             Inr (0, xfer\<lparr>x_stage := DATAxPID\<rparr>,
               set_b 0x00 (set_a pid (out\<lparr>u_nxt := SIG1\<rparr>)))
           else if x_stage xfer = DATAxPID then
             (let out = set_b 0x00 (out\<lparr>u_nxt := SIG1\<rparr>) in
              if x_tx_len xfer > 0 then
                bind_c (aget (x_tx xfer) (x_tx_ptr xfer)) (\<lambda>byte.
                  Inr (0, xfer\<lparr>x_tx_ptr := x_tx_ptr xfer + 1, x_stage := DATAxBody\<rparr>,
                    set_a byte out))
              else Inr (0, xfer\<lparr>x_stage := DATAxCRC1\<rparr>, set_a 0x00 out))
           else if x_stage xfer = DATAxBody then
             (let out = set_b 0x00 (out\<lparr>u_nxt := SIG1\<rparr>) in
              if x_tx_ptr xfer < x_tx_len xfer then
                bind_c (aget (x_tx xfer) (x_tx_ptr xfer)) (\<lambda>byte.
                  Inr (0, xfer\<lparr>x_tx_ptr := x_tx_ptr xfer + 1, x_stage := DATAxBody\<rparr>,
                    set_a byte out))
              else Inr (0, xfer\<lparr>x_stage := DATAxCRC1\<rparr>, set_a (x_crc1 xfer) out))
           else if x_stage xfer = DATAxCRC1 then
             Inr (0, xfer\<lparr>x_stage := DATAxCRC2\<rparr>,
               set_b 0x00 (set_a (x_crc2 xfer) (out\<lparr>u_nxt := SIG1\<rparr>)))
           else drive_eop xfer inb out)
        else Inr (-1, xfer, out)))"

definition datax_recv_step :: step_fn where
  "datax_recv_step xfer inb out =
     (let out = inb in
      if x_type xfer \<in> {UpDATA0, UpDATA1} then
        (if x_stage xfer = NoXfer then
           (let out = out\<lparr>u_dir := SIG0\<rparr> in
            if data_a inb \<noteq> 0x00 then
              Inr (0, xfer\<lparr>x_stage := DATAxPID\<rparr>, out\<lparr>u_nxt := SIG1\<rparr>)
            else Inr (0, xfer, out))
         else if x_stage xfer = DATAxPID then
           assert_c (u_dir inb = SIG0) (assert_c (u_nxt inb = SIG1) (assert_c (data_b inb = 0x00)
             (let out = out\<lparr>u_nxt := SIG0\<rparr>;
                  xfer = xfer\<lparr>x_stage := DATAxBody, x_rx_ptr := 0\<rparr> in
              if data_a inb \<noteq> ULPITX_DATA0 \<and> data_a inb \<noteq> ULPITX_DATA1 then Inr (-2, xfer, out)
              else if \<not> check_seq xfer (data_a inb AND 0x0F) then Inr (-3, xfer, out)
              else Inr (0, xfer, out))))
         else if x_stage xfer = DATAxBody then
           assert_c (u_dir inb = SIG0)
             (if u_stp inb = SIG1 then
                (let out = set_b 0xFF (set_a 0x00 (out\<lparr>u_nxt := SIG0, u_dir := SIG1\<rparr>));
                     xfer = xfer\<lparr>x_stage := DATAxStop, x_rx_len := x_rx_ptr xfer - 2\<rparr> in
                 bind_c (check_rx_crc16 xfer) (\<lambda>(ok, xfer).
                   if \<not> ok then Inr (-1, xfer, out) else Inr (0, xfer, out)))
              else if u_nxt inb = SIG1 then
                bind_c (aput (x_rx xfer) (x_rx_ptr xfer) (data_a inb)) (\<lambda>rx.
                  Inr (0, xfer\<lparr>x_rx := rx, x_rx_ptr := x_rx_ptr xfer + 1\<rparr>, out))
              else Inr (0, xfer, out\<lparr>u_nxt := SIG1\<rparr>))
         else drive_eop xfer inb out)
      else Inr (-1, xfer, out))"

definition ack_recv_step :: step_fn where
  "ack_recv_step xfer inb out =
     (if x_type xfer \<noteq> UpACK then Inr (-1, xfer, out)
      else if x_stage xfer = NoXfer then
        (if \<not> ulpi_bus_is_idle inb then
           (if data_a inb = ULPITX_ACK then
              bind_c (transfer_ack (xfer\<lparr>x_stage := HskPID\<rparr>)) (\<lambda>xfer.
                Inr (0, xfer, out\<lparr>u_nxt := SIG1\<rparr>))
            else Inr (-1, xfer, out))
         else Inr (0, xfer, out))
      else if x_stage xfer = HskPID then
        assert_c (u_dir inb = SIG0) (assert_c (data_b inb = 0x00)
          (Inr (0, if u_stp inb = SIG1 then xfer\<lparr>x_stage := HskStop\<rparr> else xfer,
            out\<lparr>u_nxt := SIG0\<rparr>)))
      else if x_stage xfer = HskStop then
        assert_c (u_dir inb = SIG0) (assert_c (u_nxt inb = SIG0) (assert_c (u_stp inb = SIG0)
          (Inr (1, xfer\<lparr>x_stage := NoXfer\<rparr>, out))))
      else Inr (-1, xfer, out))"

definition ack_send_step :: step_fn where
  "ack_send_step xfer inb out =
     (if x_type xfer \<noteq> DnACK then Inr (-1, xfer, out)
      else if x_stage xfer = NoXfer then
        (if \<not> ulpi_bus_is_idle inb then Inr (-1, xfer, out)
         else Inr (0, xfer\<lparr>x_stage := AssertDir\<rparr>,
           set_b 0xFF (set_a 0x00 (out\<lparr>u_dir := SIG1, u_nxt := SIG1\<rparr>))))
      else if x_stage xfer = AssertDir then
        assert_c (u_dir inb = SIG1) (assert_c (u_nxt inb = SIG1) (assert_c (u_stp inb = SIG0)
          (Inr (0, xfer\<lparr>x_stage := InitRXCMD\<rparr>,
            set_b 0x00 (set_a 0x5D (out\<lparr>u_nxt := SIG0\<rparr>))))))
      else if x_stage xfer = InitRXCMD then
        assert_c (u_dir inb = SIG1) (assert_c (u_nxt inb = SIG0) (assert_c (u_stp inb = SIG0)
          (assert_c (data_b inb = 0x00)
            (Inr (0, xfer\<lparr>x_stage := HskPID\<rparr>,
              set_a (transfer_type_to_pid xfer) (out\<lparr>u_nxt := SIG1\<rparr>))))))
      else drive_eop xfer inb out)"

subsection \<open>Running a host step-function against a function of the device\<close>

type_synonym 'u user_fn = "'u \<Rightarrow> ulpi_bus_t \<Rightarrow> ulpi_bus_t \<Rightarrow> (int \<times> 'u \<times> ulpi_bus_t) outcome"

text \<open>
  The loop of \<open>ulpi_step_with\<close>: \<open>None\<close> is "still running after \<open>fuel\<close> turns". After
  each call \<open>bus\<close> is a copy of \<open>out\<close>, so one argument stands for both.
\<close>

fun ulpi_step_loop ::
  "nat \<Rightarrow> step_fn \<Rightarrow> 'u user_fn \<Rightarrow> transfer_t \<Rightarrow> ulpi_bus_t \<Rightarrow> ulpi_bus_t \<Rightarrow> 'u
    \<Rightarrow> (int \<times> transfer_t \<times> ulpi_bus_t \<times> 'u) outcome option" where
  "ulpi_step_loop 0 host_fn user_fn xfer bus out user = None"
| "ulpi_step_loop (Suc fuel) host_fn user_fn xfer bus out user =
     (case host_fn xfer bus out of
        Inl e \<Rightarrow> Some (Inl e)
      | Inr (result, xfer', out') \<Rightarrow>
          if result < 0 then Some (Inr (result, xfer', out', user))
          else (case user_fn user out' out' of
              Inl e \<Rightarrow> Some (Inl e)
            | Inr (r, user', out'') \<Rightarrow>
                let result = result OR r in
                if result = 0 then ulpi_step_loop fuel host_fn user_fn xfer' out'' out'' user'
                else Some (Inr (result, xfer', out'', user'))))"

definition ulpi_step_with ::
  "nat \<Rightarrow> step_fn \<Rightarrow> transfer_t \<Rightarrow> ulpi_bus_t \<Rightarrow> 'u user_fn \<Rightarrow> 'u
    \<Rightarrow> (int \<times> transfer_t \<times> ulpi_bus_t \<times> 'u) outcome option" where
  "ulpi_step_with fuel host_fn xfer bus user_fn user =
     ulpi_step_loop fuel host_fn user_fn (xfer\<lparr>x_stage := NoXfer\<rparr>) (ulpi_bus_idle bus) bus_zero user"

end
