(* ===== verification/Ulpi_Steps.thy ===== *)
theory Ulpi_Steps
  imports Ulpi
begin

text \<open>
  What every transaction step-function of \<open>src/vpi/usb/ulpi.c\<close> promises to the code that
  drives it (\<open>ulpi_step_with\<close>, the bulk transactions and the standard requests): a
  contract, proved for all five step-functions, and its consequences for the loop.
\<close>

lemma set_a_simps [simp]:
  "u_clock (set_a a bus) = u_clock bus" "u_rst_n (set_a a bus) = u_rst_n bus"
  "u_dir (set_a a bus) = u_dir bus" "u_stp (set_a a bus) = u_stp bus"
  "u_nxt (set_a a bus) = u_nxt bus" "data_a (set_a a bus) = a" "data_b (set_a a bus) = data_b bus"
  by (simp_all add: set_a_def)

lemma set_b_simps [simp]:
  "u_clock (set_b b bus) = u_clock bus" "u_rst_n (set_b b bus) = u_rst_n bus"
  "u_dir (set_b b bus) = u_dir bus" "u_stp (set_b b bus) = u_stp bus"
  "u_nxt (set_b b bus) = u_nxt bus" "data_a (set_b b bus) = data_a bus" "data_b (set_b b bus) = b"
  by (simp_all add: set_b_def)

named_theorems step_defs \<open>definitions of the step-functions\<close>

declare drive_eop_def [step_defs] token_send_step_def [step_defs] datax_send_step_def [step_defs]
  datax_recv_step_def [step_defs] ack_recv_step_def [step_defs] ack_send_step_def [step_defs]

subsection \<open>The contract\<close>

text \<open>
  The packet to send and its addressing are never written by a step-function, nor are the
  deadline and the token bytes; array lengths never change.
\<close>

definition same_request :: "transfer_t \<Rightarrow> transfer_t \<Rightarrow> bool" where
  "same_request x x' \<longleftrightarrow>
     x_address x' = x_address x \<and> x_endpoint x' = x_endpoint x \<and> x_cycle x' = x_cycle x \<and>
     x_tx x' = x_tx x \<and> x_tx_len x' = x_tx_len x \<and>
     x_tok1 x' = x_tok1 x \<and> x_tok2 x' = x_tok2 x"

definition same_seq :: "transfer_t \<Rightarrow> transfer_t \<Rightarrow> bool" where
  "same_seq x x' \<longleftrightarrow> x_ep_seq x' = x_ep_seq x"

lemma same_request_refl [simp]: "same_request x x"
  by (simp add: same_request_def)

lemma same_request_trans: "same_request x y \<Longrightarrow> same_request y z \<Longrightarrow> same_request x z"
  by (simp add: same_request_def)

locale step_contract =
  fixes step :: step_fn
  assumes result_range: "step x inb out = Inr (r, x', out') \<Longrightarrow> -3 \<le> r \<and> r \<le> 1"
    and keeps_arrays: "step x inb out = Inr (r, x', out') \<Longrightarrow> arrays_ok x \<Longrightarrow> arrays_ok x'"
    and keeps_request: "step x inb out = Inr (r, x', out') \<Longrightarrow> same_request x x'"
    and done_at_rest: "step x inb out = Inr (r, x', out') \<Longrightarrow> 0 < r \<Longrightarrow> x_stage x' = NoXfer"
begin

lemma loop_keeps:
  "ulpi_step_loop fuel step user_fn x bus out u = Some (Inr (r, x', bus', u')) \<Longrightarrow>
     same_request x x' \<and> (arrays_ok x \<longrightarrow> arrays_ok x')"
proof (induction fuel arbitrary: x bus out u)
  case 0
  then show ?case by simp
next
  case (Suc fuel)
  from Suc.prems obtain r1 x1 o1 where s: "step x bus out = Inr (r1, x1, o1)"
    by (auto split: sum.splits)
  have one: "same_request x x1 \<and> (arrays_ok x \<longrightarrow> arrays_ok x1)"
    using keeps_request [OF s] keeps_arrays [OF s] by blast
  from Suc.prems s have "x' = x1 \<or> (\<exists>b o2 u2. ulpi_step_loop fuel step user_fn x1 b o2 u2 =
      Some (Inr (r, x', bus', u')))"
    by (auto simp: Let_def split: sum.splits if_splits)
  with one show ?case using Suc.IH by (blast intro: same_request_trans)
qed

end

subsection \<open>The step-functions keep the contract\<close>

definition step_post :: "transfer_t \<Rightarrow> int \<times> transfer_t \<times> ulpi_bus_t \<Rightarrow> bool" where
  "step_post x = (\<lambda>(r, x', out').
     -3 \<le> r \<and> r \<le> 1 \<and> same_request x x' \<and> (arrays_ok x \<longrightarrow> arrays_ok x') \<and>
     (0 < r \<longrightarrow> x_stage x' = NoXfer))"

lemma step_contractI:
  assumes "\<And>x inb out. returns (step_post x) (step x inb out)"
  shows "step_contract step"
proof
  fix x inb out r x' out'
  assume "step x inb out = Inr (r, x', out')"
  with assms have post: "step_post x (r, x', out')" by (metis returnsD)
  from post show "-3 \<le> r \<and> r \<le> 1" by (simp add: step_post_def)
  from post show "same_request x x'" by (simp add: step_post_def)
  from post show "arrays_ok x \<Longrightarrow> arrays_ok x'" by (simp add: step_post_def)
  from post show "0 < r \<Longrightarrow> x_stage x' = NoXfer" by (simp add: step_post_def)
qed

lemmas post_defs = step_post_def same_request_def arrays_ok_def

lemma drive_eop_post: "returns (step_post x) (drive_eop x inb out)"
  by (simp add: drive_eop_def post_defs)

lemma token_send_post: "returns (step_post x) (token_send_step x inb out)"
  using drive_eop_post [of x inb inb]
  by (simp add: token_send_step_def Let_def post_defs)

lemma datax_send_post: "returns (step_post x) (datax_send_step x inb out)"
  using drive_eop_post [of x inb inb]
  by (simp add: datax_send_step_def Let_def post_defs)

lemma check_rx_crc16_post:
  "returns (\<lambda>(ok, x'). \<exists>c1 c2. x' = x\<lparr>x_crc1 := c1, x_crc2 := c2\<rparr>) (check_rx_crc16 x)"
proof -
  have "\<exists>c1 c2. x = x\<lparr>x_crc1 := c1, x_crc2 := c2\<rparr>"
    by (rule exI [of _ "x_crc1 x"], rule exI [of _ "x_crc2 x"]) simp
  then show ?thesis
    by (auto simp: check_rx_crc16_def Let_def crc16_of_def)
qed

lemma datax_recv_post: "returns (step_post x) (datax_recv_step x inb out)"
proof -
  let ?y = "x\<lparr>x_stage := DATAxStop, x_rx_len := x_rx_ptr x - 2\<rparr>"
  have "returns (\<lambda>p. returns (step_post x)
      (case p of (ok, x') \<Rightarrow> if \<not> ok then Inr (-1, x', o') else Inr (0, x', o')))
    (check_rx_crc16 ?y)" for o'
    by (rule returns_mono [OF check_rx_crc16_post]) (auto simp: post_defs)
  then show ?thesis
    using drive_eop_post [of x inb inb]
    by (simp add: datax_recv_step_def Let_def) (simp add: post_defs)
qed

lemma ack_recv_post: "returns (step_post x) (ack_recv_step x inb out)"
  by (simp add: ack_recv_step_def transfer_ack_def Let_def post_defs)

lemma ack_send_post: "returns (step_post x) (ack_send_step x inb out)"
  using drive_eop_post [of x inb out]
  by (simp add: ack_send_step_def Let_def post_defs)

interpretation tok: step_contract token_send_step
  by (rule step_contractI, rule token_send_post)

interpretation dsend: step_contract datax_send_step
  by (rule step_contractI, rule datax_send_post)

interpretation drecv: step_contract datax_recv_step
  by (rule step_contractI, rule datax_recv_post)

interpretation arecv: step_contract ack_recv_step
  by (rule step_contractI, rule ack_recv_post)

interpretation asend: step_contract ack_send_step
  by (rule step_contractI, rule ack_send_post)

end
