(* ===== verification/Ulpi_Packets.thy ===== *)
theory Ulpi_Packets
  imports Ulpi_Steps
begin

text \<open>
  What the transmit step-functions put on the bus, run by \<open>ulpi_step_with\<close> against a device
  that only listens.
\<close>

subsection \<open>A listening device\<close>

text \<open>
  A ULPI link takes a packet byte in every clock in which the PHY owns the bus with
  \<open>NXT\<close> high and drives the data lines; with \<open>NXT\<close> low the byte is an RX CMD.
\<close>

definition listen :: "u8 list user_fn" where
  "listen bytes inb out =
     Inr (0, if u_dir inb = SIG1 \<and> u_nxt inb = SIG1 \<and> data_b inb = 0x00
             then bytes @ [data_a inb] else bytes, out)"

definition bus_released :: "ulpi_bus_t \<Rightarrow> ulpi_bus_t" where
  "bus_released bus = set_b 0xFF (ulpi_bus_idle bus)"

lemma ulpi_bus_idle_simps [simp]:
  "u_clock (ulpi_bus_idle b) = SIG1" "u_rst_n (ulpi_bus_idle b) = SIG1"
  "u_dir (ulpi_bus_idle b) = SIG0" "u_nxt (ulpi_bus_idle b) = SIG0"
  "u_stp (ulpi_bus_idle b) = SIG0" "data_a (ulpi_bus_idle b) = 0" "data_b (ulpi_bus_idle b) = 0"
  by (simp_all add: ulpi_bus_idle_def)

lemma bus_eqI:
  "\<lbrakk>u_clock b = u_clock c; u_rst_n b = u_rst_n c; u_dir b = u_dir c; u_stp b = u_stp c;
    u_nxt b = u_nxt c; data_a b = data_a c; data_b b = data_b c\<rbrakk> \<Longrightarrow> b = c"
  for b c :: ulpi_bus_t
  by simp


subsection \<open>Turns of the loop\<close>

text \<open>
  One turn of \<open>ulpi_step_with\<close> that ends with result 0, and \<open>n\<close> of them in a row: how a
  long run is put together from pieces.
\<close>

type_synonym 'u run_state = "transfer_t \<times> ulpi_bus_t \<times> ulpi_bus_t \<times> 'u"

definition turn :: "step_fn \<Rightarrow> 'u user_fn \<Rightarrow> 'u run_state \<Rightarrow> 'u run_state option" where
  "turn step user = (\<lambda>(x, bus, out, u).
     case step x bus out of
       Inl _ \<Rightarrow> None
     | Inr (r, x', out') \<Rightarrow>
         if r < 0 then None
         else (case user u out' out' of
             Inl _ \<Rightarrow> None
           | Inr (r', u', out'') \<Rightarrow>
               if r OR r' = 0 then Some (x', out'', out'', u') else None))"

primrec turns :: "nat \<Rightarrow> step_fn \<Rightarrow> 'u user_fn \<Rightarrow> 'u run_state \<Rightarrow> 'u run_state option" where
  "turns 0 step user s = Some s"
| "turns (Suc n) step user s = Option.bind (turn step user s) (turns n step user)"

lemma turns_numeral:
  "turns (numeral n) step user s =
     Option.bind (turn step user s) (turns (pred_numeral n) step user)"
  by (simp add: numeral_eq_Suc)

lemma loop_Suc_done:
  assumes "step x bus out = Inr (1, x', out')" and "user u out' out' = Inr (0, u', out'')"
  shows "ulpi_step_loop (Suc n) step user x bus out u = Some (Inr (1, x', out'', u'))"
  using assms by simp

lemma turns_add:
  "turns (m + n) step user s = Option.bind (turns m step user s) (turns n step user)"
  by (induction m arbitrary: s) (auto split: bind_split)

lemma turns_trans:
  "turns m step user s = Some s1 \<Longrightarrow> turns n step user s1 = Some s2 \<Longrightarrow>
     turns (m + n) step user s = Some s2"
  by (simp add: turns_add)

lemma turn_loop:
  assumes "turn step user (x, bus, out, u) = Some (x1, bus1, out1, u1)"
  shows "ulpi_step_loop (Suc n) step user x bus out u = ulpi_step_loop n step user x1 bus1 out1 u1"
  using assms by (auto simp: turn_def Let_def split: sum.splits if_splits)

lemma turns_loop:
  "turns m step user (x, bus, out, u) = Some (x1, bus1, out1, u1) \<Longrightarrow>
     ulpi_step_loop n step user x bus out u =
       (if n < m then None else ulpi_step_loop (n - m) step user x1 bus1 out1 u1)"
proof (induction m arbitrary: n x bus out u)
  case 0
  then show ?case by simp
next
  case (Suc m)
  from Suc.prems obtain x' bus' out' u' where
    t: "turn step user (x, bus, out, u) = Some (x', bus', out', u')" and
    ts: "turns m step user (x', bus', out', u') = Some (x1, bus1, out1, u1)"
    by (auto simp: bind_eq_Some_conv)
  show ?case
    using Suc.IH [OF ts] turn_loop [OF t] by (cases n) auto
qed

lemma turns_loop_done:
  assumes "turns m step user (x, bus, out, u) = Some (x1, bus1, out1, u1)"
    and "step x1 bus1 out1 = Inr (1, x2, out2)" and "user u1 out2 out2 = Inr (0, u2, out3)"
  shows "ulpi_step_loop n step user x bus out u =
    (if n < Suc m then None else Some (Inr (1, x2, out3, u2)))"
  unfolding turns_loop [OF assms(1)]
  using loop_Suc_done [of step x1 bus1 out1 x2 out2 user u1 u2 out3 "n - m - 1"] assms(2,3)
  by (cases "n - m") auto

subsection \<open>Tokens\<close>

lemma token_turns:
  assumes "x_type x \<in> {SETUP, OUT, IN, SOF}" and "x_stage x = NoXfer"
  shows "turns 8 token_send_step listen (x, ulpi_bus_idle bus, out, u) =
    Some (x\<lparr>x_stage := LineIdle\<rparr>, bus_released bus, bus_released bus,
      u @ [transfer_type_to_pid x, x_tok1 x, x_tok2 x])"
  using assms by (auto simp add: turns_numeral turn_def token_send_step_def drive_eop_def
     xfer_order listen_def transfer_type_to_pid_def bus_released_def)

lemma token_last:
  assumes "x_type x \<in> {SETUP, OUT, IN, SOF}" and "x_stage x = LineIdle"
  shows "token_send_step x (bus_released bus) out =
    Inr (1, x\<lparr>x_type := XferIdle, x_stage := NoXfer\<rparr>, bus_released bus)"
  using assms by (auto simp: token_send_step_def drive_eop_def xfer_order bus_released_def)

lemma listen_released: "listen u (bus_released bus) out = Inr (0, u, out)"
  by (simp add: listen_def bus_released_def)

lemma token_run:
  assumes "x_type x \<in> {SETUP, OUT, IN, SOF}"
  shows "ulpi_step_with n token_send_step x bus listen [] =
    (if n < 9 then None
     else Some (Inr (1, x\<lparr>x_type := XferIdle, x_stage := NoXfer\<rparr>, bus_released bus,
       [transfer_type_to_pid x, x_tok1 x, x_tok2 x])))"
proof -
  let ?x = "x\<lparr>x_stage := NoXfer\<rparr>"
  have ty: "x_type ?x \<in> {SETUP, OUT, IN, SOF}" using assms by simp
  have pid: "transfer_type_to_pid ?x = transfer_type_to_pid x"
    by (simp add: transfer_type_to_pid_def)
  show ?thesis
    unfolding ulpi_step_with_def
    using turns_loop_done [OF token_turns [OF ty, of bus bus_zero "[]"] token_last listen_released,
        where n = n] ty pid by simp
qed

subsection \<open>Data packets\<close>

definition data_pid :: "transfer_t \<Rightarrow> u8" where
  "data_pid x = (if x_type x = DnDATA0 then 0xC3 else 0x4B)"

text \<open>What the device sees after the PID: the payload and the two CRC bytes.\<close>

definition data_bytes :: "transfer_t \<Rightarrow> u8 list" where
  "data_bytes x =
     (if x_tx_len x > 0 then take (nat (x_tx_len x)) (x_tx x) @ [x_crc1 x, x_crc2 x]
      else [0x00, x_crc2 x])"

definition sending :: "transfer_t \<Rightarrow> bool" where
  "sending x \<longleftrightarrow> x_type x \<in> {DnDATA0, DnDATA1} \<and> check_seq x (data_pid x AND 0x0F) \<and>
     x_tx_len x \<le> int (length (x_tx x))"

text \<open>The bus while packet bytes are driven.\<close>

definition driven :: "ulpi_bus_t \<Rightarrow> u8 \<Rightarrow> ulpi_bus_t" where
  "driven bus b = set_b 0x00 (set_a b ((ulpi_bus_idle bus)\<lparr>u_dir := SIG1, u_nxt := SIG1\<rparr>))"

lemma driven_simps [simp]:
  "u_clock (driven bus b) = SIG1" "u_rst_n (driven bus b) = SIG1" "u_dir (driven bus b) = SIG1"
  "u_stp (driven bus b) = SIG0" "u_nxt (driven bus b) = SIG1" "data_a (driven bus b) = b"
  "data_b (driven bus b) = 0x00"
  by (simp_all add: driven_def)

lemma driven_eqI:
  "\<lbrakk>u_clock c = SIG1; u_rst_n c = SIG1; u_dir c = SIG1; u_stp c = SIG0; u_nxt c = SIG1;
    data_a c = b; data_b c = 0x00\<rbrakk> \<Longrightarrow> c = driven bus b"
  by (rule bus_eqI) simp_all

lemma ptr_stage_commute:
  "x\<lparr>x_tx_ptr := p, x_stage := s\<rparr> = x\<lparr>x_stage := s, x_tx_ptr := p\<rparr>"
  by simp

lemma body_turn:
  assumes "sending x" and "x_tx_ptr x = int p" and "int p < x_tx_len x"
  shows "turn datax_send_step listen (x\<lparr>x_stage := DATAxBody\<rparr>, driven bus b, driven bus b, u) =
    Some (x\<lparr>x_stage := DATAxBody, x_tx_ptr := int (Suc p)\<rparr>, driven bus (x_tx x ! p),
      driven bus (x_tx x ! p), u @ [x_tx x ! p])"
  using assms by (auto simp: turn_def datax_send_step_def listen_def sending_def check_seq_def
    data_pid_def Let_def aget_def intro!: driven_eqI)

lemma body_turns:
  assumes "sending x" and "x_tx_ptr x = int p" and "int (p + k) \<le> x_tx_len x"
  shows "\<exists>c. turns k datax_send_step listen
      (x\<lparr>x_stage := DATAxBody\<rparr>, driven bus b, driven bus b, u) =
    Some (x\<lparr>x_stage := DATAxBody, x_tx_ptr := int (p + k)\<rparr>, driven bus c, driven bus c,
      u @ take k (drop p (x_tx x)))"
  using assms
proof (induction k arbitrary: x p b u)
  case 0
  then show ?case by (auto intro: exI [of _ b])
next
  case (Suc k)
  let ?y = "x\<lparr>x_tx_ptr := int (Suc p)\<rparr>"
  have y: "sending ?y" using Suc.prems by (simp add: sending_def check_seq_def data_pid_def)
  have p: "p < length (x_tx x)" using Suc.prems by (simp add: sending_def)
  have "turn datax_send_step listen (x\<lparr>x_stage := DATAxBody\<rparr>, driven bus b, driven bus b, u) =
    Some (?y\<lparr>x_stage := DATAxBody\<rparr>, driven bus (x_tx x ! p), driven bus (x_tx x ! p),
      u @ [x_tx x ! p])"
    using body_turn [of x p bus b u] Suc.prems by simp
  moreover obtain c where "turns k datax_send_step listen
      (?y\<lparr>x_stage := DATAxBody\<rparr>, driven bus (x_tx x ! p), driven bus (x_tx x ! p), u @ [x_tx x ! p]) =
    Some (?y\<lparr>x_stage := DATAxBody, x_tx_ptr := int (Suc p + k)\<rparr>, driven bus c, driven bus c,
      (u @ [x_tx x ! p]) @ take k (drop (Suc p) (x_tx x)))"
    using Suc.IH [OF y, of "Suc p" "x_tx x ! p" "u @ [x_tx x ! p]"] Suc.prems by auto
  moreover have "take (Suc k) (drop p (x_tx x)) = x_tx x ! p # take k (drop (Suc p) (x_tx x))"
    using p by (simp add: Cons_nth_drop_Suc [symmetric])
  ultimately show ?case by (intro exI [of _ c]) simp
qed

lemmas datax_turn = turns_numeral turn_def datax_send_step_def drive_eop_def listen_def sending_def
  check_seq_def data_pid_def bus_released_def aget_def

lemma data_head_turns:
  assumes "sending x" and "x_stage x = NoXfer"
  shows "turns 3 datax_send_step listen (x, ulpi_bus_idle bus, out, u) =
    Some (x\<lparr>x_stage := DATAxPID\<rparr>, driven bus (data_pid x), driven bus (data_pid x), u @ [data_pid x])"
  using assms by (auto simp: datax_turn intro!: driven_eqI)

lemma data_tail_turns:
  assumes "sending x" and "x_tx_len x > 0 \<longrightarrow> x_tx_ptr x = x_tx_len x"
    and "x_stage x = DATAxCRC1"
  shows "turns 4 datax_send_step listen (x, driven bus b, driven bus b, u) =
    Some (x\<lparr>x_stage := LineIdle\<rparr>, bus_released bus, bus_released bus, u @ [x_crc2 x])"
  using assms by (auto simp: datax_turn)

lemma data_zero_turns:
  assumes "sending x" and "\<not> x_tx_len x > 0"
  shows "turns 1 datax_send_step listen
      (x\<lparr>x_stage := DATAxPID\<rparr>, driven bus b, driven bus b, u) =
    Some (x\<lparr>x_stage := DATAxCRC1\<rparr>, driven bus 0x00, driven bus 0x00, u @ [0x00])"
  using assms by (auto simp: datax_turn intro!: driven_eqI)

lemma data_first_turn:
  assumes "sending x" and "x_tx_len x > 0" and "x_tx_ptr x = 0"
  shows "turn datax_send_step listen
      (x\<lparr>x_stage := DATAxPID\<rparr>, driven bus b, driven bus b, u) =
    Some (x\<lparr>x_stage := DATAxBody, x_tx_ptr := 1\<rparr>, driven bus (x_tx x ! 0),
      driven bus (x_tx x ! 0), u @ [x_tx x ! 0])"
  using assms by (auto simp: datax_turn intro!: driven_eqI)

lemma data_crc1_turn:
  assumes "sending x" and "x_tx_ptr x = x_tx_len x"
  shows "turn datax_send_step listen
      (x\<lparr>x_stage := DATAxBody\<rparr>, driven bus b, driven bus b, u) =
    Some (x\<lparr>x_stage := DATAxCRC1\<rparr>, driven bus (x_crc1 x), driven bus (x_crc1 x),
      u @ [x_crc1 x])"
  using assms by (auto simp: datax_turn intro!: driven_eqI)

lemma data_some_turns:
  assumes x: "sending x" and len: "x_tx_len x > 0" and ptr: "x_tx_ptr x = 0"
  shows "turns (nat (x_tx_len x) + 1) datax_send_step listen
      (x\<lparr>x_stage := DATAxPID\<rparr>, driven bus b, driven bus b, u) =
    Some (x\<lparr>x_stage := DATAxCRC1, x_tx_ptr := x_tx_len x\<rparr>, driven bus (x_crc1 x),
      driven bus (x_crc1 x), u @ take (nat (x_tx_len x)) (x_tx x) @ [x_crc1 x])"
proof -
  let ?n = "nat (x_tx_len x)"
  let ?d = "x_tx x ! 0"
  let ?y = "x\<lparr>x_tx_ptr := 1\<rparr>"
  let ?z = "x\<lparr>x_tx_ptr := x_tx_len x\<rparr>"
  obtain k where k: "?n = Suc k" using len by (cases ?n) auto
  have y: "sending ?y" and z: "sending ?z"
    using x by (simp_all add: sending_def check_seq_def data_pid_def)
  have tx: "x_tx x \<noteq> []" using x len by (auto simp: sending_def)
  have le: "int (1 + k) \<le> x_tx_len ?y" using k len by simp
  obtain c where "turns k datax_send_step listen
      (?y\<lparr>x_stage := DATAxBody\<rparr>, driven bus ?d, driven bus ?d, u @ [?d]) =
    Some (?y\<lparr>x_stage := DATAxBody, x_tx_ptr := int (1 + k)\<rparr>, driven bus c, driven bus c,
      (u @ [?d]) @ take k (drop 1 (x_tx x)))"
    using body_turns [OF y _ le, of bus ?d "u @ [?d]"] by auto
  moreover have "int (1 + k) = x_tx_len x" using k len by simp
  moreover have "?d # take k (drop 1 (x_tx x)) = take ?n (x_tx x)"
    using tx unfolding k by (cases "x_tx x") simp_all
  ultimately have "turns ?n datax_send_step listen
      (x\<lparr>x_stage := DATAxPID\<rparr>, driven bus b, driven bus b, u) =
    Some (?z\<lparr>x_stage := DATAxBody\<rparr>, driven bus c, driven bus c, u @ take ?n (x_tx x))"
    using data_first_turn [OF x len ptr, of bus b u] unfolding k
    by (simp add: ptr_stage_commute)
  moreover have "turns 1 datax_send_step listen
      (?z\<lparr>x_stage := DATAxBody\<rparr>, driven bus c, driven bus c, u @ take ?n (x_tx x)) =
    Some (?z\<lparr>x_stage := DATAxCRC1\<rparr>, driven bus (x_crc1 x), driven bus (x_crc1 x),
      (u @ take ?n (x_tx x)) @ [x_crc1 x])"
    using data_crc1_turn [OF z, of bus c "u @ take ?n (x_tx x)"] by simp
  ultimately show ?thesis
    using turns_trans [of ?n datax_send_step listen _ _ 1] by fastforce
qed

text \<open>The whole packet but for its last turn.\<close>

definition data_sent :: "transfer_t \<Rightarrow> transfer_t" where
  "data_sent x = (if x_tx_len x > 0 then x\<lparr>x_tx_ptr := x_tx_len x\<rparr> else x)"

lemma sending_simps [simp]:
  "sending (data_sent x) = sending x" "sending (x\<lparr>x_stage := s\<rparr>) = sending x"
  "data_bytes (data_sent x) = data_bytes x" "data_bytes (x\<lparr>x_stage := s\<rparr>) = data_bytes x"
  "data_pid (data_sent x) = data_pid x" "data_pid (x\<lparr>x_stage := s\<rparr>) = data_pid x"
  by (simp_all add: sending_def check_seq_def data_pid_def data_sent_def data_bytes_def)

lemma data_upto_crc1:
  assumes "sending x" and "x_stage x = NoXfer" and "x_tx_len x > 0 \<longrightarrow> x_tx_ptr x = 0"
  shows "\<exists>b. turns (nat (x_tx_len x) + 4) datax_send_step listen (x, ulpi_bus_idle bus, out, u) =
    Some ((data_sent x)\<lparr>x_stage := DATAxCRC1\<rparr>, driven bus b, driven bus b, u @ data_pid x # butlast (data_bytes x))"
proof -
  let ?l = "nat (x_tx_len x)"
  have "\<exists>b. turns (?l + 1) datax_send_step listen
      (x\<lparr>x_stage := DATAxPID\<rparr>, driven bus (data_pid x), driven bus (data_pid x), u @ [data_pid x]) =
    Some ((data_sent x)\<lparr>x_stage := DATAxCRC1\<rparr>, driven bus b, driven bus b, u @ data_pid x # butlast (data_bytes x))"
    using data_zero_turns [OF assms(1)] data_some_turns [OF assms(1)] assms(3)
    by (cases "x_tx_len x > 0") (auto simp: data_bytes_def data_sent_def butlast_append ptr_stage_commute)
  then obtain b where "turns (?l + 1) datax_send_step listen
      (x\<lparr>x_stage := DATAxPID\<rparr>, driven bus (data_pid x), driven bus (data_pid x), u @ [data_pid x]) =
    Some ((data_sent x)\<lparr>x_stage := DATAxCRC1\<rparr>, driven bus b, driven bus b, u @ data_pid x # butlast (data_bytes x))" ..
  moreover have n: "?l + 4 = 3 + (?l + 1)" by simp
  ultimately show ?thesis
    unfolding n by (intro exI) (rule turns_trans [OF data_head_turns [OF assms(1,2)]])
qed

lemma datax_turns:
  assumes "sending x" and "x_stage x = NoXfer" and "x_tx_len x > 0 \<longrightarrow> x_tx_ptr x = 0"
  shows "turns (nat (x_tx_len x) + 8) datax_send_step listen (x, ulpi_bus_idle bus, out, u) =
    Some ((data_sent x)\<lparr>x_stage := LineIdle\<rparr>, bus_released bus, bus_released bus, u @ data_pid x # data_bytes x)"
proof -
  let ?z = "(data_sent x)\<lparr>x_stage := DATAxCRC1\<rparr>" and ?l = "nat (x_tx_len x)"
  obtain b where body: "turns (?l + 4) datax_send_step listen (x, ulpi_bus_idle bus, out, u) =
    Some (?z, driven bus b, driven bus b, u @ data_pid x # butlast (data_bytes x))"
    using data_upto_crc1 [OF assms] by blast
  have "sending ?z" using assms(1) by simp
  moreover have "x_tx_len ?z > 0 \<longrightarrow> x_tx_ptr ?z = x_tx_len ?z" by (simp add: data_sent_def)
  ultimately have tail: "turns 4 datax_send_step listen
      (?z, driven bus b, driven bus b, u @ data_pid x # butlast (data_bytes x)) =
    Some ((data_sent x)\<lparr>x_stage := LineIdle\<rparr>, bus_released bus, bus_released bus, u @ data_pid x # data_bytes x)"
    using data_tail_turns [of ?z bus b] by (simp add: data_bytes_def data_sent_def butlast_append)
  have n: "?l + 8 = (?l + 4) + 4" by simp
  show ?thesis
    unfolding n by (rule turns_trans [OF body tail])
qed

lemma datax_last:
  assumes "sending x" and "x_stage x = LineIdle" and "u_dir b = SIG0" and "u_nxt b = SIG0" and "data_a b = 0x00"
  shows "datax_send_step x b out = Inr (1, x\<lparr>x_type := XferIdle, x_stage := NoXfer\<rparr>, b)"
  using assms by (auto simp: datax_turn)

lemma datax_run:
  assumes "x_type x \<in> {DnDATA0, DnDATA1}" and "check_seq x (data_pid x AND 0x0F)"
    and "x_tx_len x \<le> int (length (x_tx x))" and "x_tx_ptr x = 0"
  shows "ulpi_step_with n datax_send_step x bus listen [] =
    (if n < nat (x_tx_len x) + 9 then None
     else Some (Inr (1, x\<lparr>x_type := XferIdle, x_stage := NoXfer, x_tx_ptr := max 0 (x_tx_len x)\<rparr>,
       bus_released bus, data_pid x # data_bytes x)))"
proof -
  let ?y = "x\<lparr>x_stage := NoXfer\<rparr>"
  let ?z = "(data_sent x)\<lparr>x_stage := LineIdle\<rparr>"
  have y: "sending x" using assms by (simp add: sending_def)
  have "data_sent ?y = (data_sent x)\<lparr>x_stage := NoXfer\<rparr>" by (simp add: data_sent_def)
  then have "turns (nat (x_tx_len x) + 8) datax_send_step listen (?y, ulpi_bus_idle bus, bus_zero, []) =
    Some (?z, bus_released bus, bus_released bus, data_pid x # data_bytes x)"
    using datax_turns [of ?y bus bus_zero "[]"] y assms(4) by simp
  moreover have "datax_send_step ?z (bus_released bus) (bus_released bus) =
      Inr (1, ?z\<lparr>x_type := XferIdle, x_stage := NoXfer\<rparr>, bus_released bus)"
    by (rule datax_last) (use y in \<open>simp_all add: bus_released_def\<close>)
  moreover have "listen u (bus_released bus) (bus_released bus) = Inr (0, u, bus_released bus)" for u
    by (simp add: listen_def bus_released_def)
  moreover have "?z\<lparr>x_type := XferIdle, x_stage := NoXfer\<rparr> =
      x\<lparr>x_type := XferIdle, x_stage := NoXfer, x_tx_ptr := max 0 (x_tx_len x)\<rparr>"
    using assms(4) by (cases x) (simp add: data_sent_def max_def)
  ultimately show ?thesis
    unfolding ulpi_step_with_def by (simp only: turns_loop_done) simp
qed

subsection \<open>What the device sees\<close>

text \<open>
  (C3) A token, run against a listening device, takes exactly nine turns and puts three bytes on
  the bus: the PID of the transfer and the two token bytes. It ends with result 1, the bus
  released and the transfer at rest, and changes nothing else of the transfer.
\<close>

theorem token_sent:
  assumes "x_type x \<in> {SETUP, OUT, IN, SOF}"
  shows "ulpi_step_with n token_send_step x bus listen [] =
    (if n < 9 then None
     else Some (Inr (1, x\<lparr>x_type := XferIdle, x_stage := NoXfer\<rparr>, bus_released bus,
       [transfer_type_to_pid x, x_tok1 x, x_tok2 x])))"
  using assms by (rule token_run)

lemma token_sent_witness:
  "ulpi_step_with 9 token_send_step (xfer_zero\<lparr>x_type := SETUP, x_tok2 := 0x10\<rparr>) bus_zero listen [] =
    Some (Inr (1, xfer_zero\<lparr>x_tok2 := 0x10\<rparr>, bus_released bus_zero, [0x2D, 0x00, 0x10]))"
  using token_sent [of "xfer_zero\<lparr>x_type := SETUP, x_tok2 := 0x10\<rparr>" 9 bus_zero]
  by (simp add: transfer_type_to_pid_def xfer_zero_def xfer_order)

text \<open>The 16-bit token in the order it is sent.\<close>

definition token_word :: "u8 \<Rightarrow> u8 \<Rightarrow> u16" where
  "token_word tok1 tok2 = push_bit 8 (ucast tok2) OR ucast tok1"

lemma token_word_bytes: "token_word (lo8 w) (hi8 w) = w"
proof (rule bit_word_eqI)
  fix n
  assume "n < LENGTH(16)"
  then have "n < 8 \<or> (\<exists>k<8. n = k + 8)" by (auto intro: exI [of _ "n - 8"])
  then show "bit (token_word (lo8 w) (hi8 w)) n = bit w n"
    by (auto simp: token_word_def bit_simps lo8_bit hi8_bit dest: bit_imp_le_length)
qed

lemma high_byte: "ucast (drop_bit 8 (w::u16)) = hi8 w"
proof (rule bit_word_eqI)
  fix n
  assume "n < LENGTH(8)"
  then show "bit (ucast (drop_bit 8 w) :: u8) n = bit (hi8 w) n"
    by (simp add: hi8_bit bit_simps add.commute)
qed

lemma payload_bits: "token_payload addr ep AND 0x07FF = token_payload addr ep"
proof -
  have "(ucast addr AND 0x7F) AND 0x07FF = (ucast addr AND 0x7F :: u16)"
    by (simp add: and.assoc)
  moreover have "push_bit 7 (ucast ep AND 0x0F) AND 0x07FF = (push_bit 7 (ucast ep AND 0x0F) :: u16)"
    by (simp add: push_bit_and and.assoc)
  ultimately show ?thesis by (simp add: token_payload_def bit.conj_disj_distrib2)
qed

text \<open>
  The three bytes of a token built by \<open>transfer_tok\<close> are well formed: the PID carries its
  own complement, the 16 bits after it pass the receiver's CRC check, and its low 11 bits are the
  seven address bits and the four end-point bits.
\<close>

lemma token_well_formed:
  assumes "x_type x \<in> {SETUP, OUT, IN, SOF, PING, DnDATA0, DnDATA1, DnACK}"
    and "data_a bus = transfer_type_to_pid x" and "data_b bus = 0x00"
  shows "check_pid bus \<and>
    (let t = token_word (x_tok1 (transfer_tok x)) (x_tok2 (transfer_tok x)) in
     crc5_check t \<and> t AND 0x07FF = token_payload (x_address x) (x_endpoint x))"
proof -
  have "check_pid bus"
    using assms by (auto simp: check_pid_def transfer_type_to_pid_def xfer_order Let_def)
  moreover have "token_word (x_tok1 (transfer_tok x)) (x_tok2 (transfer_tok x)) =
      crc5_calc (token_payload (x_address x) (x_endpoint x))"
    by (simp add: transfer_tok_def Let_def high_byte token_word_bytes)
  ultimately show ?thesis
    by (simp add: crc5_check_calc crc5_calc_payload payload_bits)
qed

lemma token_well_formed_witness:
  "check_pid (driven bus_zero 0x69) \<and>
    (let x = xfer_zero\<lparr>x_type := IN, x_address := 0x23, x_endpoint := 1\<rparr>;
         t = token_word (x_tok1 (transfer_tok x)) (x_tok2 (transfer_tok x)) in
     crc5_check t \<and> t AND 0x07FF = 0xA3)"
proof -
  let ?x = "xfer_zero\<lparr>x_type := IN, x_address := 0x23, x_endpoint := 1\<rparr>"
  have "transfer_type_to_pid ?x = 0x69"
    by (simp add: transfer_type_to_pid_def xfer_order)
  then show ?thesis
    using token_well_formed [of ?x "driven bus_zero 0x69"]
    by (simp add: Let_def token_payload_def)
qed

text \<open>
  (C2) A data packet, run against a listening device, is sent in as many turns as it has data
  bytes, plus nine: the PID, the first \<open>tx_len\<close> bytes of \<open>tx\<close>, and the two CRC bytes. If the
  CRC bytes were set from \<open>crc16_calc\<close>, the bytes after the PID pass the receiver's check,
  for a packet of any length the buffer can hold, the zero-length packet included.
\<close>

theorem datax_sent:
  assumes "x_type x \<in> {DnDATA0, DnDATA1}" and "check_seq x (data_pid x AND 0x0F)"
    and "0 \<le> x_tx_len x" and "x_tx_len x \<le> int (length (x_tx x))" and "x_tx_ptr x = 0"
    and "x_crc1 x = lo8 (crc16_calc (x_tx x) (nat (x_tx_len x)))"
    and "x_crc2 x = hi8 (crc16_calc (x_tx x) (nat (x_tx_len x)))"
  shows "ulpi_step_with n datax_send_step x bus listen [] =
    (if n < nat (x_tx_len x) + 9 then None
     else Some (Inr (1, x\<lparr>x_type := XferIdle, x_stage := NoXfer, x_tx_ptr := x_tx_len x\<rparr>,
       bus_released bus,
       data_pid x # take (nat (x_tx_len x)) (x_tx x) @ [x_crc1 x, x_crc2 x]))) \<and>
    crc16_check (take (nat (x_tx_len x)) (x_tx x) @ [x_crc1 x, x_crc2 x]) (nat (x_tx_len x) + 2)"
proof -
  let ?n = "nat (x_tx_len x)"
  have len: "length (take ?n (x_tx x)) = ?n" using assms(4) by simp
  have "x_tx_len x = 0 \<Longrightarrow> x_crc1 x = 0"
    using assms(6) by (simp add: crc16_calc_def lo8_def)
  then have "data_bytes x = take ?n (x_tx x) @ [x_crc1 x, x_crc2 x]"
    using assms(3) by (auto simp: data_bytes_def)
  moreover have "crc16_calc (take ?n (x_tx x)) ?n = crc16_calc (x_tx x) ?n"
    by (simp add: crc16_calc_def)
  ultimately show ?thesis
    using datax_run [OF assms(1,2,4,5), of n bus] assms(3,6,7)
      crc16_codeword [of "take ?n (x_tx x)" "x_crc1 x" "x_crc2 x"]
    by (simp only: len max_def if_True)
qed

lemma datax_sent_witness:
  "ulpi_step_with 9 datax_send_step (xfer_zero\<lparr>x_type := DnDATA0\<rparr>) bus_zero listen [] =
    Some (Inr (1, xfer_zero, bus_released bus_zero, [0xC3, 0x00, 0x00])) \<and>
   crc16_check [0x00, 0x00] 2"
proof -
  have "crc16_calc a 0 = 0" for a by (simp add: crc16_calc_def)
  then show ?thesis
    using datax_sent [of "xfer_zero\<lparr>x_type := DnDATA0\<rparr>" 9 bus_zero]
    by (simp add: data_pid_def check_seq_def xfer_zero_def lo8_def hi8_def eval_nat_numeral)
qed

end
