(* ===== verification/Ulpi_Recv.thy ===== *)
theory Ulpi_Recv
  imports Ulpi_Packets
begin

text \<open>
  Receiving a data packet: \<open>datax_recv_step\<close>, run by \<open>ulpi_step_with\<close> against a link that
  transmits by the ULPI rules.
\<close>

subsection \<open>A transmitting link\<close>

text \<open>
  A link drives the first byte (the TX CMD) until it has sampled \<open>NXT\<close> high, then the next
  byte, and so on; after the last byte it asserts \<open>STP\<close> for one clock, and it leaves the bus
  alone while \<open>DIR\<close> is high. Its registers: whether \<open>NXT\<close> was high in the clock before, the
  bytes not yet taken, and whether \<open>STP\<close> has been sent.
\<close>

record link_t =
  l_nxt :: bool
  l_bytes :: "u8 list"
  l_stopped :: bool

definition link_put :: "u8 \<Rightarrow> bit_t \<Rightarrow> ulpi_bus_t \<Rightarrow> ulpi_bus_t" where
  "link_put a stp bus = set_b 0x00 (set_a a (bus\<lparr>u_stp := stp\<rparr>))"

definition link_send :: "link_t user_fn" where
  "link_send l inb out =
     (let bytes = (if l_nxt l then tl (l_bytes l) else l_bytes l);
          l' = l\<lparr>l_nxt := (u_nxt inb = SIG1), l_bytes := bytes\<rparr> in
      if u_dir inb = SIG1 then Inr (0, l', out\<lparr>u_stp := SIG0\<rparr>)
      else if bytes \<noteq> [] then Inr (0, l', link_put (hd bytes) SIG0 out)
      else Inr (0, l'\<lparr>l_stopped := True\<rparr>,
        link_put 0x00 (if l_stopped l then SIG0 else SIG1) out))"

definition link_start :: "u8 list \<Rightarrow> link_t" where
  "link_start bytes = \<lparr>l_nxt = False, l_bytes = bytes, l_stopped = False\<rparr>"

text \<open>The bus while the link drives \<open>d\<close> and the PHY \<open>NXT\<close>.\<close>

definition sent_bus :: "ulpi_bus_t \<Rightarrow> u8 \<Rightarrow> bit_t \<Rightarrow> bit_t \<Rightarrow> ulpi_bus_t" where
  "sent_bus bus d nxt stp = set_a d ((ulpi_bus_idle bus)\<lparr>u_nxt := nxt, u_stp := stp\<rparr>)"

lemma sent_bus_simps [simp]:
  "u_clock (sent_bus bus d n s) = SIG1" "u_rst_n (sent_bus bus d n s) = SIG1"
  "u_dir (sent_bus bus d n s) = SIG0" "u_stp (sent_bus bus d n s) = s"
  "u_nxt (sent_bus bus d n s) = n" "data_a (sent_bus bus d n s) = d"
  "data_b (sent_bus bus d n s) = 0x00"
  by (simp_all add: sent_bus_def)

lemma link_put_simps [simp]:
  "u_clock (link_put a s bus) = u_clock bus" "u_rst_n (link_put a s bus) = u_rst_n bus"
  "u_dir (link_put a s bus) = u_dir bus" "u_stp (link_put a s bus) = s"
  "u_nxt (link_put a s bus) = u_nxt bus" "data_a (link_put a s bus) = a"
  "data_b (link_put a s bus) = 0x00"
  by (simp_all add: link_put_def)

lemma sent_busI:
  "\<lbrakk>u_clock c = SIG1; u_rst_n c = SIG1; u_dir c = SIG0; u_stp c = s; u_nxt c = n;
    data_a c = d; data_b c = 0x00\<rbrakk> \<Longrightarrow> c = sent_bus bus d n s"
  by (rule bus_eqI) simp_all

definition receiving :: "transfer_t \<Rightarrow> u8 \<Rightarrow> bool" where
  "receiving x pid \<longleftrightarrow> x_type x \<in> {UpDATA0, UpDATA1} \<and> pid \<in> {ULPITX_DATA0, ULPITX_DATA1} \<and>
     check_seq x (pid AND 0x0F)"

lemmas recv_turn = turns_numeral turn_def datax_recv_step_def link_send_def Let_def

lemma recv_head:
  assumes "receiving x pid" and "bs \<noteq> []"
  shows "turns 4 datax_recv_step link_send
      (x\<lparr>x_stage := NoXfer\<rparr>, ulpi_bus_idle bus, out, link_start (pid # bs)) =
    Some (x\<lparr>x_stage := DATAxBody, x_rx_ptr := 0\<rparr>, sent_bus bus (hd bs) SIG1 SIG0,
      sent_bus bus (hd bs) SIG1 SIG0, \<lparr>l_nxt = True, l_bytes = bs, l_stopped = False\<rparr>)"
  using assms
  by (auto simp: recv_turn receiving_def check_seq_def link_start_def intro!: sent_busI)

lemma recv_body_turn:
  assumes "x_type x \<in> {UpDATA0, UpDATA1}" and "x_stage x = DATAxBody"
    and "x_rx_ptr x = int p" and "p < length (x_rx x)"
  shows "turn datax_recv_step link_send
      (x, sent_bus bus b SIG1 SIG0, sent_bus bus b SIG1 SIG0,
       \<lparr>l_nxt = True, l_bytes = b # b' # bs, l_stopped = False\<rparr>) =
    Some (x\<lparr>x_rx := (x_rx x)[p := b], x_rx_ptr := int (Suc p)\<rparr>,
       sent_bus bus b' SIG1 SIG0, sent_bus bus b' SIG1 SIG0,
       \<lparr>l_nxt = True, l_bytes = b' # bs, l_stopped = False\<rparr>)"
  using assms by (auto simp: recv_turn intro!: sent_busI)

lemma recv_last_turn:
  assumes "x_type x \<in> {UpDATA0, UpDATA1}" and "x_stage x = DATAxBody"
    and "x_rx_ptr x = int p" and "p < length (x_rx x)"
  shows "turn datax_recv_step link_send
      (x, sent_bus bus b SIG1 SIG0, sent_bus bus b SIG1 SIG0,
       \<lparr>l_nxt = True, l_bytes = [b], l_stopped = False\<rparr>) =
    Some (x\<lparr>x_rx := (x_rx x)[p := b], x_rx_ptr := int (Suc p)\<rparr>,
       sent_bus bus 0 SIG1 SIG1, sent_bus bus 0 SIG1 SIG1,
       \<lparr>l_nxt = True, l_bytes = [], l_stopped = True\<rparr>)"
  using assms by (auto simp: recv_turn intro!: sent_busI)

text \<open>Writing a list of bytes into an array from an index on.\<close>

definition put_at :: "nat \<Rightarrow> u8 list \<Rightarrow> u8 list \<Rightarrow> u8 list" where
  "put_at p bs a = take p a @ bs @ drop (p + length bs) a"

lemma put_at_Cons:
  "p < length a \<Longrightarrow> put_at (Suc p) bs (a[p := b]) = put_at p (b # bs) a"
  by (simp add: put_at_def take_Suc_conv_app_nth)

lemma put_at_Nil [simp]: "put_at p [] a = a"
  by (simp add: put_at_def)

lemma put_at_step:
  assumes "p < length bs" and "length bs \<le> length a"
  shows "(put_at 0 (take p bs) a)[p := bs ! p] = put_at 0 (take (Suc p) bs) a"
  using assms by (simp add: put_at_def take_Suc_conv_app_nth list_update_append
    Cons_nth_drop_Suc [symmetric])

lemma recv_body:
  assumes "bs \<noteq> []" and "x_type x \<in> {UpDATA0, UpDATA1}" and "x_stage x = DATAxBody"
    and "x_rx_ptr x = int p" and "p + length bs \<le> length (x_rx x)"
  shows "turns (length bs) datax_recv_step link_send
      (x, sent_bus bus (hd bs) SIG1 SIG0, sent_bus bus (hd bs) SIG1 SIG0,
       \<lparr>l_nxt = True, l_bytes = bs, l_stopped = False\<rparr>) =
    Some (x\<lparr>x_rx := put_at p bs (x_rx x), x_rx_ptr := int (p + length bs)\<rparr>,
       sent_bus bus 0 SIG1 SIG1, sent_bus bus 0 SIG1 SIG1,
       \<lparr>l_nxt = True, l_bytes = [], l_stopped = True\<rparr>)"
  using assms
proof (induction bs arbitrary: x p)
  case Nil
  then show ?case by simp
next
  case (Cons b bs)
  let ?y = "x\<lparr>x_rx := (x_rx x)[p := b], x_rx_ptr := int (Suc p)\<rparr>"
  show ?case
  proof (cases bs)
    case Nil
    then show ?thesis
      using Cons.prems recv_last_turn [of x p bus b] put_at_Cons [of p "x_rx x" "[]" b] by simp
  next
    case (Cons b' bs')
    have "turns (length bs) datax_recv_step link_send
        (?y, sent_bus bus (hd bs) SIG1 SIG0, sent_bus bus (hd bs) SIG1 SIG0,
         \<lparr>l_nxt = True, l_bytes = bs, l_stopped = False\<rparr>) =
      Some (?y\<lparr>x_rx := put_at (Suc p) bs (x_rx ?y), x_rx_ptr := int (Suc p + length bs)\<rparr>,
         sent_bus bus 0 SIG1 SIG1, sent_bus bus 0 SIG1 SIG1,
         \<lparr>l_nxt = True, l_bytes = [], l_stopped = True\<rparr>)"
      using Cons.IH [of ?y "Suc p"] Cons.prems Cons by simp
    then show ?thesis
      using Cons Cons.prems recv_body_turn [of x p bus b b' bs'] put_at_Cons [of p "x_rx x" bs b]
      by simp
  qed
qed

lemma crc16_calc_take: "crc16_calc (bs @ cs) (length bs) = crc16_calc bs (length bs)"
  by (simp add: crc16_calc_def)

lemma not_eq_iff: "NOT w = v \<longleftrightarrow> w = NOT v"
  for v w :: "'a::len word"
  by auto

lemma check_code:
  "crc16_calc (bs @ [c1, c2] @ cs) (length bs + 2) = 0x4FFE \<longleftrightarrow>
     c1 = lo8 (crc16_calc bs (length bs)) \<and> c2 = hi8 (crc16_calc bs (length bs))"
proof -
  have "crc16_calc (bs @ [c1, c2] @ cs) (length bs + 2) = crc16_calc (bs @ [c1, c2]) (length bs + 2)"
    using crc16_calc_take [of "bs @ [c1, c2]" cs] by simp
  moreover have "crc16_calc (bs @ [c1, c2]) (length bs + 2) = 0x4FFE \<longleftrightarrow>
      crc16_check (bs @ [c1, c2]) (length bs + 2)"
  proof -
    have n: "NOT (0xB001 :: u16) = 0x4FFE" by simp
    show ?thesis by (simp only: crc16_check_def not_eq_iff n)
  qed
  ultimately show ?thesis by (simp only: crc16_codeword)
qed

definition crc_right :: "u8 list \<Rightarrow> u8 \<Rightarrow> u8 \<Rightarrow> bool" where
  "crc_right ps c1 c2 \<longleftrightarrow>
     c1 = lo8 (crc16_calc ps (length ps)) \<and> c2 = hi8 (crc16_calc ps (length ps))"

text \<open>The transfer once the packet \<open>ps\<close> with the CRC bytes \<open>c1\<close>, \<open>c2\<close> has arrived.\<close>

definition received :: "transfer_t \<Rightarrow> u8 list \<Rightarrow> u8 \<Rightarrow> u8 \<Rightarrow> transfer_t" where
  "received x ps c1 c2 =
     (let n = length ps; crc = crc16_calc ps n;
          y = x\<lparr>x_stage := DATAxStop, x_rx := ps @ [c1, c2] @ drop (n + 2) (x_rx x),
                x_rx_ptr := int (n + 2), x_rx_len := int n\<rparr> in
      if ps = [] then y else y\<lparr>x_crc1 := lo8 crc, x_crc2 := hi8 crc\<rparr>)"

lemma crc_empty: "crc16_calc [] 0 = 0"
  by (simp add: crc16_calc_def)

lemma check_received:
  assumes "length ps + 2 \<le> length (x_rx x)"
  shows "check_rx_crc16 (x\<lparr>x_rx := ps @ [c1, c2] @ drop (length ps + 2) (x_rx x),
      x_rx_ptr := int (length ps + 2), x_stage := DATAxStop, x_rx_len := int (length ps)\<rparr>) =
    Inr (crc_right ps c1 c2, received x ps c1 c2)"
proof (cases "ps = []")
  case True
  then show ?thesis
    using crc_empty
    by (simp add: check_rx_crc16_def received_def crc_right_def lo8_def hi8_def)
next
  case False
  let ?rx = "ps @ [c1, c2] @ drop (length ps + 2) (x_rx x)"
  let ?n = "length ps"
  have "crc16_calc ?rx ?n = crc16_calc ps ?n" by (rule crc16_calc_take)
  moreover have "crc16_calc ?rx (?n + 2) = 0x4FFE \<longleftrightarrow> crc_right ps c1 c2"
    unfolding crc_right_def by (rule check_code)
  moreover have "?rx ! ?n = c1" "?rx ! Suc ?n = c2" by (simp_all add: nth_append)
  ultimately show ?thesis
    using False assms
    by (auto simp: check_rx_crc16_def received_def crc_right_def crc16_of_def Let_def aget_def
      nat_add_distrib simp del: append.simps)
qed

subsection \<open>Whole packets\<close>

lemma put_at_0: "put_at 0 bs a = bs @ drop (length bs) a"
  by (simp add: put_at_def)

lemma recv_eop_turns:
  assumes "x_type x \<in> {UpDATA0, UpDATA1}" and "x_stage x = DATAxStop" and "u_nxt b = SIG0"
    and "u_clock b = SIG1" and "u_rst_n b = SIG1" and "u_dir b = SIG1" and "l_stopped l" and "l_bytes l = []"
  shows "turns 3 datax_recv_step link_send (x, b, b, l) =
    Some (x\<lparr>x_stage := LineIdle\<rparr>, sent_bus bus 0 SIG0 SIG0, sent_bus bus 0 SIG0 SIG0,
      \<lparr>l_nxt = False, l_bytes = [], l_stopped = True\<rparr>)"
  using assms by (auto simp: recv_turn drive_eop_def intro!: sent_busI)

lemma recv_stop_step:
  assumes "receiving x pid" and "length ps + 2 \<le> length (x_rx x)"
  shows "datax_recv_step
      (x\<lparr>x_stage := DATAxBody, x_rx := put_at 0 (ps @ [c1, c2]) (x_rx x),
        x_rx_ptr := int (length ps + 2)\<rparr>)
      (sent_bus bus 0 SIG1 SIG1) (sent_bus bus 0 SIG1 SIG1) =
    Inr (if crc_right ps c1 c2 then 0 else -1, received x ps c1 c2,
      set_b 0xFF ((sent_bus bus 0 SIG0 SIG1)\<lparr>u_dir := SIG1\<rparr>))"
proof -
  let ?y = "x\<lparr>x_rx := ps @ [c1, c2] @ drop (length ps + 2) (x_rx x),
      x_rx_ptr := int (length ps + 2), x_stage := DATAxStop, x_rx_len := int (length ps)\<rparr>"
  have "datax_recv_step
      (x\<lparr>x_stage := DATAxBody, x_rx := put_at 0 (ps @ [c1, c2]) (x_rx x),
        x_rx_ptr := int (length ps + 2)\<rparr>)
      (sent_bus bus 0 SIG1 SIG1) (sent_bus bus 0 SIG1 SIG1) =
    bind_c (check_rx_crc16 ?y) (\<lambda>(ok, xfer).
      Inr (if ok then 0 else -1, xfer,
        set_b 0xFF ((sent_bus bus 0 SIG0 SIG1)\<lparr>u_dir := SIG1\<rparr>)))"
    using assms(1)
    by (auto simp: datax_recv_step_def receiving_def Let_def put_at_0 set_a_def set_b_def
        sent_bus_def intro!: arg_cong2 [of _ _ _ _ bind_c] ext)
  then show ?thesis by (simp only: check_received [OF assms(2)]) simp
qed

definition eop_done :: "transfer_t \<Rightarrow> transfer_t" where
  "eop_done x = x\<lparr>x_type := XferIdle, x_stage := NoXfer\<rparr>"

lemma received_simps [simp]:
  "x_type (received x ps c1 c2) = x_type x"
  "x_stage (received x ps c1 c2) = DATAxStop"
  by (simp_all add: received_def Let_def)

lemma recv_upto_stop:
  assumes x: "receiving x pid" and room: "length ps + 2 \<le> length (x_rx x)"
  shows "turns (4 + (length ps + 2)) datax_recv_step link_send
      (x\<lparr>x_stage := NoXfer\<rparr>, ulpi_bus_idle bus, out, link_start (pid # ps @ [c1, c2])) =
    Some (x\<lparr>x_stage := DATAxBody, x_rx := put_at 0 (ps @ [c1, c2]) (x_rx x),
        x_rx_ptr := int (length ps + 2)\<rparr>,
      sent_bus bus 0 SIG1 SIG1, sent_bus bus 0 SIG1 SIG1,
      \<lparr>l_nxt = True, l_bytes = [], l_stopped = True\<rparr>)"
proof -
  let ?bs = "ps @ [c1, c2]"
  have "turns (length ?bs) datax_recv_step link_send
      (x\<lparr>x_stage := DATAxBody, x_rx_ptr := 0\<rparr>, sent_bus bus (hd ?bs) SIG1 SIG0,
       sent_bus bus (hd ?bs) SIG1 SIG0, \<lparr>l_nxt = True, l_bytes = ?bs, l_stopped = False\<rparr>) =
    Some (x\<lparr>x_stage := DATAxBody, x_rx := put_at 0 ?bs (x_rx x),
        x_rx_ptr := int (length ?bs)\<rparr>,
      sent_bus bus 0 SIG1 SIG1, sent_bus bus 0 SIG1 SIG1,
      \<lparr>l_nxt = True, l_bytes = [], l_stopped = True\<rparr>)"
    using recv_body [of ?bs "x\<lparr>x_stage := DATAxBody, x_rx_ptr := 0\<rparr>" 0 bus] x room
    by (simp add: receiving_def)
  with recv_head [OF x, of ?bs bus] have "turns (4 + length ?bs) datax_recv_step link_send
      (x\<lparr>x_stage := NoXfer\<rparr>, ulpi_bus_idle bus, out, link_start (pid # ?bs)) =
    Some (x\<lparr>x_stage := DATAxBody, x_rx := put_at 0 ?bs (x_rx x),
        x_rx_ptr := int (length ?bs)\<rparr>,
      sent_bus bus 0 SIG1 SIG1, sent_bus bus 0 SIG1 SIG1,
      \<lparr>l_nxt = True, l_bytes = [], l_stopped = True\<rparr>)"
    by (intro turns_trans) simp_all
  then show ?thesis by simp
qed

lemma loop_Suc_fail:
  assumes "step x bus out = Inr (r, x', out')" and "r < 0"
  shows "ulpi_step_loop (Suc n) step user x bus out u = Some (Inr (r, x', out', u))"
  using assms by simp

text \<open>A packet with a right CRC, but for its last turn.\<close>

abbreviation link_done :: link_t where
  "link_done \<equiv> \<lparr>l_nxt = False, l_bytes = [], l_stopped = True\<rparr>"

lemma recv_turns:
  assumes "receiving x pid" and "length ps + 2 \<le> length (x_rx x)" and "crc_right ps c1 c2"
  shows "turns (4 + (length ps + 2) + 1 + 3) datax_recv_step link_send
      (x\<lparr>x_stage := NoXfer\<rparr>, ulpi_bus_idle bus, out, link_start (pid # ps @ [c1, c2])) =
    Some ((received x ps c1 c2)\<lparr>x_stage := LineIdle\<rparr>, sent_bus bus 0 SIG0 SIG0, sent_bus bus 0 SIG0 SIG0, link_done)"
proof -
  let ?l = "\<lparr>l_nxt = True, l_bytes = [], l_stopped = True\<rparr>"
  define b2 where "b2 = (set_b 0xFF ((sent_bus bus 0 SIG0 SIG1)\<lparr>u_dir := SIG1\<rparr>))\<lparr>u_stp := SIG0\<rparr>"
  note upto = recv_upto_stop [OF assms(1,2), of bus out c1 c2]
  have "turns 1 datax_recv_step link_send
      (x\<lparr>x_stage := DATAxBody, x_rx := put_at 0 (ps @ [c1, c2]) (x_rx x),
        x_rx_ptr := int (length ps + 2)\<rparr>, sent_bus bus 0 SIG1 SIG1, sent_bus bus 0 SIG1 SIG1, ?l) =
    Some (received x ps c1 c2, b2, b2, link_done)"
    using recv_stop_step [OF assms(1,2), of c1 c2 bus] assms(3) by (simp add: turn_def link_send_def b2_def)
  moreover have "turns 3 datax_recv_step link_send (received x ps c1 c2, b2, b2, link_done) =
    Some ((received x ps c1 c2)\<lparr>x_stage := LineIdle\<rparr>, sent_bus bus 0 SIG0 SIG0, sent_bus bus 0 SIG0 SIG0, link_done)"
    by (rule recv_eop_turns) (use assms(1) in \<open>auto simp: b2_def receiving_def\<close>)
  ultimately show ?thesis by (rule turns_trans [OF turns_trans [OF upto]])
qed

lemma recv_last:
  assumes "receiving x pid"
  shows "datax_recv_step ((received x ps c1 c2)\<lparr>x_stage := LineIdle\<rparr>) (sent_bus bus 0 SIG0 SIG0) (sent_bus bus 0 SIG0 SIG0) =
    Inr (1, (received x ps c1 c2)\<lparr>x_type := XferIdle, x_stage := NoXfer\<rparr>, sent_bus bus 0 SIG0 SIG0)"
  using assms by (auto simp: datax_recv_step_def drive_eop_def receiving_def)

lemma link_done_step: "link_send link_done (sent_bus bus 0 SIG0 SIG0) (sent_bus bus 0 SIG0 SIG0) =
    Inr (0, link_done, sent_bus bus 0 SIG0 SIG0)"
  by (simp add: link_send_def bus_eqI)

text \<open>
  (C1) A data packet of up to 510 bytes, sent by a link that keeps the ULPI rules, is received
  into \<open>rx\<close> byte for byte, and \<open>datax_recv_step\<close> accepts it exactly when its two CRC bytes
  are right: with a right CRC the transfer ends with result 1 after the end-of-packet sequence,
  with a wrong one the step after \<open>STP\<close> fails with -1. The number of turns is exact.
\<close>

theorem datax_received:
  assumes "x_type x \<in> {UpDATA0, UpDATA1}" and "pid \<in> {ULPITX_DATA0, ULPITX_DATA1}"
    and "check_seq x (pid AND 0x0F)" and "arrays_ok x" and "length ps \<le> 510"
  shows "ulpi_step_with n datax_recv_step x bus link_send (link_start (pid # ps @ [c1, c2])) =
    (let ok = (c1 = lo8 (crc16_calc ps (length ps)) \<and> c2 = hi8 (crc16_calc ps (length ps)));
         y = received x ps c1 c2 in
     if n < length ps + (if ok then 11 else 7) then None
     else if ok then Some (Inr (1, y\<lparr>x_type := XferIdle, x_stage := NoXfer\<rparr>,
       sent_bus bus 0 SIG0 SIG0, \<lparr>l_nxt = False, l_bytes = [], l_stopped = True\<rparr>))
     else Some (Inr (-1, y, set_b 0xFF ((sent_bus bus 0 SIG0 SIG1)\<lparr>u_dir := SIG1\<rparr>),
       \<lparr>l_nxt = True, l_bytes = [], l_stopped = True\<rparr>)))"
proof -
  have x: "receiving x pid" using assms(1-3) by (simp add: receiving_def)
  have room: "length ps + 2 \<le> length (x_rx x)" using assms(4,5) by (simp add: arrays_ok_def)
  let ?y = "received x ps c1 c2"
  let ?b = "set_b 0xFF ((sent_bus bus 0 SIG0 SIG1)\<lparr>u_dir := SIG1\<rparr>)"
  let ?l = "\<lparr>l_nxt = True, l_bytes = [], l_stopped = True\<rparr>"
  let ?i = "sent_bus bus 0 SIG0 SIG0"
  note upto = recv_upto_stop [OF x room, of bus bus_zero c1 c2]
  note stop = recv_stop_step [OF x room, of c1 c2 bus]
  show ?thesis
  proof (cases "crc_right ps c1 c2")
    case False
    have "ulpi_step_with n datax_recv_step x bus link_send (link_start (pid # ps @ [c1, c2])) =
      (if n < length ps + 7 then None else Some (Inr (-1, ?y, ?b, ?l)))"
      unfolding ulpi_step_with_def turns_loop [OF upto]
      using stop False loop_Suc_fail [of datax_recv_step _ ?i ?i "-1"]
      by (cases "n - (4 + (length ps + 2))") auto
    then show ?thesis using False unfolding crc_right_def [symmetric] by (simp add: Let_def)
  next
    case True
    note turns_loop_done [OF recv_turns [OF x room True] recv_last [OF x] link_done_step]
    then have "ulpi_step_with n datax_recv_step x bus link_send
        (link_start (pid # ps @ [c1, c2])) =
      (if n < length ps + 11 then None
       else Some (Inr (1, ?y\<lparr>x_type := XferIdle, x_stage := NoXfer\<rparr>, ?i, link_done)))"
      unfolding ulpi_step_with_def by simp
    then show ?thesis using True unfolding crc_right_def [symmetric] by (simp add: Let_def)
  qed
qed

lemma datax_received_witness:
  "ulpi_step_with 20 datax_recv_step (xfer_zero\<lparr>x_type := UpDATA0\<rparr>) bus_zero link_send
      (link_start (0x43 # [0x12, 0x01] @ [0x33, 0x2F])) =
    Some (Inr (1, (received (xfer_zero\<lparr>x_type := UpDATA0\<rparr>) [0x12, 0x01] 0x33 0x2F)
        \<lparr>x_type := XferIdle, x_stage := NoXfer\<rparr>,
      sent_bus bus_zero 0 SIG0 SIG0, \<lparr>l_nxt = False, l_bytes = [], l_stopped = True\<rparr>))"
proof -
  let ?x = "xfer_zero\<lparr>x_type := UpDATA0\<rparr>"
  have crc: "crc16_calc [0x12, 0x01] (Suc (Suc 0)) = 0x2F33"
    by (simp add: crc16_calc_def crc16_byte_def funpow_numeral crc16_bit_def)
  have "check_seq ?x (0x43 AND 0x0F)" "arrays_ok ?x"
    by (simp_all add: check_seq_def xfer_zero_def arrays_ok_def)
  then show ?thesis
    using datax_received [where x = ?x and pid = "0x43" and ps = "[0x12, 0x01]" and n = 20
      and bus = bus_zero and ?c1.0 = "0x33" and ?c2.0 = "0x2F"]
    by (simp add: crc lo8_def hi8_def Let_def)
qed

subsection \<open>Overlong packets\<close>

lemma recv_prefix:
  assumes "rest \<noteq> []" and "x_type x \<in> {UpDATA0, UpDATA1}" and "x_stage x = DATAxBody"
    and "x_rx_ptr x = int p" and "p + length bs \<le> length (x_rx x)"
  shows "turns (length bs) datax_recv_step link_send
      (x, sent_bus bus (hd (bs @ rest)) SIG1 SIG0, sent_bus bus (hd (bs @ rest)) SIG1 SIG0,
       \<lparr>l_nxt = True, l_bytes = bs @ rest, l_stopped = False\<rparr>) =
    Some (x\<lparr>x_rx := put_at p bs (x_rx x), x_rx_ptr := int (p + length bs)\<rparr>,
       sent_bus bus (hd rest) SIG1 SIG0, sent_bus bus (hd rest) SIG1 SIG0,
       \<lparr>l_nxt = True, l_bytes = rest, l_stopped = False\<rparr>)"
  using assms
proof (induction bs arbitrary: x p)
  case Nil
  then show ?case by simp
next
  case (Cons b bs)
  let ?y = "x\<lparr>x_rx := (x_rx x)[p := b], x_rx_ptr := int (Suc p)\<rparr>"
  obtain b' bs' where next_byte: "bs @ rest = b' # bs'"
    using Cons.prems(1) by (cases "bs @ rest") auto
  have "turns (length bs) datax_recv_step link_send
      (?y, sent_bus bus (hd (bs @ rest)) SIG1 SIG0, sent_bus bus (hd (bs @ rest)) SIG1 SIG0,
       \<lparr>l_nxt = True, l_bytes = bs @ rest, l_stopped = False\<rparr>) =
    Some (?y\<lparr>x_rx := put_at (Suc p) bs (x_rx ?y), x_rx_ptr := int (Suc p + length bs)\<rparr>,
       sent_bus bus (hd rest) SIG1 SIG0, sent_bus bus (hd rest) SIG1 SIG0,
       \<lparr>l_nxt = True, l_bytes = rest, l_stopped = False\<rparr>)"
    using Cons.IH [of ?y "Suc p"] Cons.prems by simp
  then show ?case
    using Cons.prems recv_body_turn [of x p bus b b' bs'] put_at_Cons [of p "x_rx x" bs b]
    by (simp add: next_byte)
qed

text \<open>
  (C31) The receive buffer has 512 bytes, and the two CRC bytes are stored in it too: a packet of
  which more than 512 bytes follow the PID, such as a full-size one of 511 or 512 data bytes,
  makes \<open>datax_recv_step\<close> write outside the buffer.
\<close>

theorem datax_recv_overflow:
  assumes "x_type x \<in> {UpDATA0, UpDATA1}" and "pid \<in> {ULPITX_DATA0, ULPITX_DATA1}"
    and "check_seq x (pid AND 0x0F)" and "arrays_ok x" and "length bs > 512" and "n > 516"
  shows "ulpi_step_with n datax_recv_step x bus link_send (link_start (pid # bs)) =
    Some (Inl Out_Of_Bounds)"
proof -
  have x: "receiving x pid" using assms(1-3) by (simp add: receiving_def)
  let ?hd = "take 512 bs" and ?tl = "drop 512 bs"
  have len: "length (x_rx x) = 512" "length ?hd = 512" "?tl \<noteq> []" "bs \<noteq> []" "?hd \<noteq> []"
    using assms(4,5) by (auto simp: arrays_ok_def)
  let ?x2 = "x\<lparr>x_stage := DATAxBody, x_rx := put_at 0 ?hd (x_rx x), x_rx_ptr := 512\<rparr>"
  let ?b2 = "sent_bus bus (hd ?tl) SIG1 SIG0"
  let ?l2 = "\<lparr>l_nxt = True, l_bytes = ?tl, l_stopped = False\<rparr>"
  have "turns 512 datax_recv_step link_send
      (x\<lparr>x_stage := DATAxBody, x_rx_ptr := 0\<rparr>, sent_bus bus (hd bs) SIG1 SIG0,
       sent_bus bus (hd bs) SIG1 SIG0, \<lparr>l_nxt = True, l_bytes = bs, l_stopped = False\<rparr>) =
    Some (?x2, ?b2, ?b2, ?l2)"
    using recv_prefix [of ?tl "x\<lparr>x_stage := DATAxBody, x_rx_ptr := 0\<rparr>" 0 ?hd bus] x len
    by (simp add: receiving_def)
  with recv_head [OF x len(4), of bus] have "turns (4 + 512) datax_recv_step link_send
      (x\<lparr>x_stage := NoXfer\<rparr>, ulpi_bus_idle bus, bus_zero, link_start (pid # bs)) =
    Some (?x2, ?b2, ?b2, ?l2)"
    by (rule turns_trans)
  then have "turns 516 datax_recv_step link_send
      (x\<lparr>x_stage := NoXfer\<rparr>, ulpi_bus_idle bus, bus_zero, link_start (pid # bs)) =
    Some (?x2, ?b2, ?b2, ?l2)"
    by simp
  moreover have "datax_recv_step ?x2 ?b2 ?b2 = Inl Out_Of_Bounds"
    using x len by (auto simp: datax_recv_step_def receiving_def aput_def put_at_0)
  ultimately show ?thesis
    unfolding ulpi_step_with_def using assms(6)
    by (simp only: turns_loop) (cases "n - 516", auto)
qed

lemma datax_recv_overflow_witness:
  "ulpi_step_with 600 datax_recv_step (xfer_zero\<lparr>x_type := UpDATA0\<rparr>) bus_zero link_send
      (link_start (0x43 # replicate 514 0xAA)) = Some (Inl Out_Of_Bounds)"
  by (rule datax_recv_overflow) (simp_all add: check_seq_def xfer_zero_def arrays_ok_def)

end
