(* ===== verification/Host.thy ===== *)
theory Host
  imports Ulpi_Steps
begin

text \<open>
  The state of the simulated USB host of \<open>src/vpi/usb/usbhost.h\<close>, shared by the standard
  requests (\<open>Stdreq\<close>) and the host's step-function (\<open>Usbhost\<close>). The build is the default
  one: neither \<open>__short_timers\<close> nor \<open>__long_timers\<close>. A pointer is its 64-bit address.
\<close>

abbreviation RESET_TICKS :: u32 where "RESET_TICKS \<equiv> 6000"
abbreviation SOF_N_TICKS :: u64 where "SOF_N_TICKS \<equiv> 1500"

datatype host_op =
  HostError | HostReset | HostSuspend | HostResume | HostIdle | HostSOF | HostSETUP
  | HostBulkOUT | HostBulkIN

primrec host_op_val :: "host_op \<Rightarrow> int" where
  "host_op_val HostError = -1"
| "host_op_val HostReset = 0"
| "host_op_val HostSuspend = 1"
| "host_op_val HostResume = 2"
| "host_op_val HostIdle = 3"
| "host_op_val HostSOF = 4"
| "host_op_val HostSETUP = 5"
| "host_op_val HostBulkOUT = 6"
| "host_op_val HostBulkIN = 7"

lemma host_op_val_inject: "host_op_val s = host_op_val t \<Longrightarrow> s = t"
  by (cases s; cases t) simp_all

instantiation host_op :: linorder
begin
definition less_eq_host_op :: "host_op \<Rightarrow> host_op \<Rightarrow> bool" where
  "less_eq_host_op s t \<longleftrightarrow> host_op_val s \<le> host_op_val t"
definition less_host_op :: "host_op \<Rightarrow> host_op \<Rightarrow> bool" where
  "less_host_op s t \<longleftrightarrow> host_op_val s < host_op_val t"
instance
  by standard (auto simp: less_eq_host_op_def less_host_op_def intro: host_op_val_inject)
end

lemmas host_order = less_eq_host_op_def less_host_op_def

record usb_host_t =
  h_cycle :: u64
  h_op :: host_op
  h_step :: u32
  h_prev :: ulpi_bus_t
  h_xfer :: transfer_t
  h_sof :: u16
  h_turnaround :: u16
  h_addr :: u8
  h_error_count :: u8
  h_len :: u16
  h_buf :: u64
  h_guard :: u64

text \<open>\<open>host->xfer\<close> is updated in place through the pointer \<open>xfer\<close> of the C routines.\<close>

definition with_xfer :: "usb_host_t \<Rightarrow> transfer_t \<Rightarrow> usb_host_t" where
  "with_xfer host xfer = host\<lparr>h_xfer := xfer\<rparr>"

lemma with_xfer_simps [simp]:
  "h_cycle (with_xfer h x) = h_cycle h" "h_op (with_xfer h x) = h_op h"
  "h_step (with_xfer h x) = h_step h" "h_prev (with_xfer h x) = h_prev h"
  "h_xfer (with_xfer h x) = x" "h_sof (with_xfer h x) = h_sof h"
  "h_turnaround (with_xfer h x) = h_turnaround h" "h_addr (with_xfer h x) = h_addr h"
  "h_error_count (with_xfer h x) = h_error_count h" "h_len (with_xfer h x) = h_len h"
  "h_buf (with_xfer h x) = h_buf h" "h_guard (with_xfer h x) = h_guard h"
  "with_xfer (with_xfer h x) y = with_xfer h y"
  by (simp_all add: with_xfer_def)

type_synonym host_result = "(int \<times> usb_host_t \<times> ulpi_bus_t) outcome"

text \<open>
  Running a transaction step-function on the transfer of the host, as in
  \<open>result = token_send_step(&host->xfer, in, out)\<close>.
\<close>

definition on_xfer :: "step_fn \<Rightarrow> usb_host_t \<Rightarrow> ulpi_bus_t \<Rightarrow> ulpi_bus_t \<Rightarrow> host_result" where
  "on_xfer step host inb out =
     bind_c (step (h_xfer host) inb out) (\<lambda>(result, xfer, out).
       Inr (result, with_xfer host xfer, out))"

text \<open>
  What no step of the host may change: the buffer, its length and the guard word behind the
  structure; and the transfer arrays keep their lengths.
\<close>

definition host_frame :: "usb_host_t \<Rightarrow> usb_host_t \<Rightarrow> bool" where
  "host_frame h h' \<longleftrightarrow> h_buf h' = h_buf h \<and> h_len h' = h_len h \<and> h_guard h' = h_guard h \<and>
     (arrays_ok (h_xfer h) \<longrightarrow> arrays_ok (h_xfer h'))"

lemma host_frame_refl [simp]: "host_frame h h"
  by (simp add: host_frame_def)

lemma host_frame_trans: "host_frame h h1 \<Longrightarrow> host_frame h1 h2 \<Longrightarrow> host_frame h h2"
  by (simp add: host_frame_def)

text \<open>The members of the host that its transfer step-functions cannot reach.\<close>

definition same_host :: "usb_host_t \<Rightarrow> usb_host_t \<Rightarrow> bool" where
  "same_host h h' \<longleftrightarrow>
     h_cycle h' = h_cycle h \<and> h_op h' = h_op h \<and> h_step h' = h_step h \<and> h_prev h' = h_prev h \<and>
     h_sof h' = h_sof h \<and> h_turnaround h' = h_turnaround h \<and> h_addr h' = h_addr h \<and>
     h_error_count h' = h_error_count h"

lemma same_host_with_xfer [simp]: "same_host h (with_xfer h x)"
  by (simp add: same_host_def)

definition host_post :: "usb_host_t \<Rightarrow> int \<times> usb_host_t \<times> ulpi_bus_t \<Rightarrow> bool" where
  "host_post h = (\<lambda>(r, h', out). -3 \<le> r \<and> r \<le> 1 \<and> host_frame h h' \<and> same_host h h')"

context step_contract
begin

lemma step_returns: "returns (\<lambda>(r, x', out'). -3 \<le> r \<and> r \<le> 1 \<and> (arrays_ok x \<longrightarrow> arrays_ok x'))
    (step x inb out)"
  using result_range keeps_arrays by (fastforce simp: returns_def split: sum.split)

lemma on_xfer_post: "returns (host_post h) (on_xfer step h inb out)"
  using step_returns [of "h_xfer h" inb out]
  by (cases "step (h_xfer h) inb out")
    (auto simp: on_xfer_def host_post_def host_frame_def)

end

end
