(* ===== verification/Stdreq.thy ===== *)
theory Stdreq
  imports Host
begin

text \<open>
  The standard requests of \<open>src/vpi/usb/stdreq.h\<close> and \<open>src/vpi/usb/stdreq.c\<close>: building a
  request, queueing it on the host, and stepping through its nine packets. \<open>stdreq_start\<close>
  copies the C structure into the transmit buffer byte by byte, so the structure is given its
  memory image (little-endian, 64-bit pointers, 16 bytes).
\<close>

subsection \<open>Requests\<close>

abbreviation STDREQ_GET_STATUS :: u8 where "STDREQ_GET_STATUS \<equiv> 0"
abbreviation STDREQ_SET_ADDRESS :: u8 where "STDREQ_SET_ADDRESS \<equiv> 5"
abbreviation STDREQ_GET_DESCRIPTOR :: u8 where "STDREQ_GET_DESCRIPTOR \<equiv> 6"
abbreviation STDREQ_SET_CONFIGURATION :: u8 where "STDREQ_SET_CONFIGURATION \<equiv> 9"
abbreviation DESC_DEVICE :: u16 where "DESC_DEVICE \<equiv> 1"
abbreviation DESC_CONFIGURATION :: u16 where "DESC_CONFIGURATION \<equiv> 2"

record usb_stdreq_t =
  bmRequestType :: u8
  bRequest :: u8
  wValue :: u16
  wIndex :: u16
  wLength :: u16
  req_data :: u64

record usb_desc_t =
  dtype :: u8
  desc_value :: u64

definition le16 :: "u16 \<Rightarrow> u8 list" where
  "le16 w = [lo8 w, hi8 w]"

definition le64 :: "u64 \<Rightarrow> u8 list" where
  "le64 w = map (\<lambda>k. ucast (drop_bit (8 * k) w)) [0..<8]"

definition stdreq_bytes :: "usb_stdreq_t \<Rightarrow> u8 list" where
  "stdreq_bytes req = [bmRequestType req, bRequest req] @ le16 (wValue req) @ le16 (wIndex req) @
     le16 (wLength req) @ le64 (req_data req)"

text \<open>\<open>memcpy(dst, src, n)\<close> to the start of an array.\<close>

definition copy_front :: "'a list \<Rightarrow> 'a list \<Rightarrow> 'a list outcome" where
  "copy_front src dst =
     (if length src \<le> length dst then Inr (src @ drop (length src) dst) else Inl Out_Of_Bounds)"

definition stdreq_start :: "usb_host_t \<Rightarrow> usb_stdreq_t \<Rightarrow> (int \<times> usb_host_t) outcome" where
  "stdreq_start host req =
     (let xfer = h_xfer host;
          tok = crc5_calc (ucast (h_addr host) AND 0x7F) in
      bind_c (crc16_of (stdreq_bytes req) 8) (\<lambda>crc.
      bind_c (aput (x_ep_seq xfer) 0 SIG0) (\<lambda>ep_seq.
      bind_c (copy_front (stdreq_bytes req) (x_tx xfer)) (\<lambda>tx.
        let xfer = xfer\<lparr>x_address := h_addr host, x_endpoint := 0, x_ep_seq := ep_seq,
              x_tok1 := lo8 tok, x_tok2 := hi8 tok, x_type := SETUP, x_stage := NoXfer,
              x_tx_len := 8, x_tx_ptr := 0, x_crc1 := lo8 crc, x_crc2 := hi8 crc, x_tx := tx,
              x_rx_len := uint (h_len host), x_rx_ptr := 0\<rparr> in
        Inr (1, (with_xfer host xfer)\<lparr>h_op := HostSETUP, h_step := 0\<rparr>)))))"

definition get_descriptor ::
  "usb_stdreq_t \<Rightarrow> u16 \<Rightarrow> u16 \<Rightarrow> u16 \<Rightarrow> u64 \<Rightarrow> int \<times> usb_stdreq_t" where
  "get_descriptor req ty lang len desc =
     (1, req\<lparr>bmRequestType := 0x80, bRequest := STDREQ_GET_DESCRIPTOR, wValue := ty,
        wIndex := lang, wLength := len, req_data := desc\<rparr>)"

text \<open>
  The uninitialised \<open>usb_stdreq_t req\<close> of the callers: every field is assigned before it is
  read, so the zero request stands for it.
\<close>

definition req_zero :: usb_stdreq_t where
  "req_zero = \<lparr>bmRequestType = 0, bRequest = 0, wValue = 0, wIndex = 0, wLength = 0, req_data = 0\<rparr>"

text \<open>
  \<open>addr\<close> is the address \<open>malloc\<close> returned for the descriptor; what is stored there is
  not read again.
\<close>

definition stdreq_get_descriptor ::
  "u64 \<Rightarrow> usb_host_t \<Rightarrow> u16 \<Rightarrow> (int \<times> usb_host_t) outcome" where
  "stdreq_get_descriptor addr host num =
     (if h_op host \<noteq> HostIdle then Inr (-1, host)
      else (let (r, req) = get_descriptor req_zero num 0 (of_nat MAX_CONFIG_SIZE) addr in
        if r < 0 then Inr (-1, host) else stdreq_start host req))"

definition stdreq_get_status :: "usb_host_t \<Rightarrow> (int \<times> usb_host_t) outcome" where
  "stdreq_get_status host =
     (if h_op host \<noteq> HostIdle then Inr (-1, host)
      else stdreq_start host
        \<lparr>bmRequestType = 0x80, bRequest = STDREQ_GET_STATUS, wValue = 0, wIndex = 0,
          wLength = 2, req_data = 0\<rparr>)"

definition stdreq_get_desc_device :: "usb_host_t \<Rightarrow> (int \<times> usb_host_t) outcome" where
  "stdreq_get_desc_device host =
     (if h_op host \<noteq> HostIdle then Inr (-1, host)
      else stdreq_start host
        \<lparr>bmRequestType = 0x80, bRequest = STDREQ_GET_DESCRIPTOR,
          wValue = push_bit 8 DESC_DEVICE, wIndex = 0, wLength = of_nat MAX_CONFIG_SIZE,
          req_data = 0\<rparr>)"

definition stdreq_get_desc_config :: "usb_host_t \<Rightarrow> u16 \<Rightarrow> (int \<times> usb_host_t) outcome" where
  "stdreq_get_desc_config host len =
     (if h_op host \<noteq> HostIdle then Inr (-1, host)
      else (let len = (if len > of_nat MAX_CONFIG_SIZE \<or> len = 0 then of_nat MAX_CONFIG_SIZE
                       else len) in
        stdreq_start host
          \<lparr>bmRequestType = 0x80, bRequest = STDREQ_GET_DESCRIPTOR,
            wValue = push_bit 8 DESC_CONFIGURATION, wIndex = 0, wLength = len, req_data = 0\<rparr>))"

definition stdreq_set_address :: "usb_host_t \<Rightarrow> u8 \<Rightarrow> (int \<times> usb_host_t) outcome" where
  "stdreq_set_address host addr =
     stdreq_start host
       \<lparr>bmRequestType = 0x00, bRequest = STDREQ_SET_ADDRESS, wValue = ucast addr, wIndex = 0,
         wLength = 0, req_data = 0\<rparr>"

definition stdreq_set_config :: "usb_host_t \<Rightarrow> u8 \<Rightarrow> (int \<times> usb_host_t) outcome" where
  "stdreq_set_config host conf =
     stdreq_start host
       \<lparr>bmRequestType = 0x00, bRequest = STDREQ_SET_CONFIGURATION, wValue = ucast conf,
         wIndex = 0, wLength = 0, req_data = 0\<rparr>"

text \<open>The entry points that are not implemented.\<close>

definition usbh_set_address :: "transfer_t \<Rightarrow> u8 \<Rightarrow> int" where
  "usbh_set_address xfer addr = -1"

definition usbh_set_config :: "transfer_t \<Rightarrow> u8 \<Rightarrow> int" where
  "usbh_set_config xfer num = -1"

definition set_configuration :: "usb_stdreq_t \<Rightarrow> u16 \<Rightarrow> int" where
  "set_configuration req v = -1"

subsection \<open>Stepping a request\<close>

text \<open>
  The prologue \<open>if (xfer->type != ty) { xfer->type = ty; xfer->stage = NoXfer; ... }\<close> of the
  steps; \<open>init\<close> is the rest of that block.
\<close>

definition enter_packet ::
  "xfer_type \<Rightarrow> (transfer_t \<Rightarrow> transfer_t) \<Rightarrow> usb_host_t \<Rightarrow> usb_host_t" where
  "enter_packet ty init host =
     (if x_type (h_xfer host) \<noteq> ty
      then with_xfer host (init ((h_xfer host)\<lparr>x_type := ty, x_stage := NoXfer\<rparr>))
      else host)"

definition stdreq_packet :: "usb_host_t \<Rightarrow> ulpi_bus_t \<Rightarrow> ulpi_bus_t \<Rightarrow> host_result" where
  "stdreq_packet host inb out =
     (if h_step host = 0 then
        (if x_type (h_xfer host) \<noteq> SETUP then Inr (-1, host, out)
         else on_xfer token_send_step host inb out)
      else if h_step host = 1 then
        assert_c (x_type (h_xfer host) = DnDATA0 \<or> x_tx_len (h_xfer host) \<ge> 8)
          (on_xfer datax_send_step (enter_packet DnDATA0 id host) inb out)
      else if h_step host = 2 then on_xfer ack_recv_step (enter_packet UpACK id host) inb out
      else if h_step host = 3 then on_xfer token_send_step (enter_packet IN id host) inb out
      else if h_step host = 4 then
        on_xfer datax_recv_step
          (enter_packet UpDATA1
            (\<lambda>xfer. xfer\<lparr>x_rx_len := int MAX_PACKET_SIZE, x_rx_ptr := 0\<rparr>) host) inb out
      else if h_step host = 5 then on_xfer ack_send_step (enter_packet DnACK id host) inb out
      else if h_step host = 6 then on_xfer token_send_step (enter_packet OUT id host) inb out
      else if h_step host = 7 then
        on_xfer datax_send_step
          (enter_packet DnDATA1 (\<lambda>xfer. xfer\<lparr>x_tx_len := 0\<rparr>) host) inb out
      else if h_step host = 8 then on_xfer ack_recv_step (enter_packet UpACK id host) inb out
      else Inr (-1, host, out))"

definition stdreq_step :: "usb_host_t \<Rightarrow> ulpi_bus_t \<Rightarrow> ulpi_bus_t \<Rightarrow> host_result" where
  "stdreq_step host inb out =
     bind_c (stdreq_packet host inb out) (\<lambda>(result, host, out).
       if result > 1 then
         Inr (0, (with_xfer host ((h_xfer host)\<lparr>x_type := XferIdle\<rparr>))
                   \<lparr>h_step := h_step host + 1\<rparr>, out)
       else Inr (result, host, out))"

subsection \<open>The built-in test\<close>

definition user_func_step :: "unit user_fn" where
  "user_func_step user_data inb out = Inr (-1, user_data, out)"

text \<open>
  \<open>assert(ulpi_step_with(step, &xfer, &bus, user_func_step, NULL) == 1)\<close>, then the rest of
  the test; \<open>None\<close> is a loop that has not ended within the fuel.
\<close>

definition assert_step_with ::
  "nat \<Rightarrow> step_fn \<Rightarrow> transfer_t \<Rightarrow> ulpi_bus_t \<Rightarrow>
     (transfer_t \<Rightarrow> ulpi_bus_t \<Rightarrow> 'a outcome option) \<Rightarrow> 'a outcome option" where
  "assert_step_with fuel step xfer bus k =
     (case ulpi_step_with fuel step xfer bus user_func_step () of
        None \<Rightarrow> None
      | Some (Inl e) \<Rightarrow> Some (Inl e)
      | Some (Inr (r, xfer, bus, _)) \<Rightarrow>
          if r = 1 then k xfer bus else Some (Inl Assert_Failed))"

definition set_seq0 :: "bit_t \<Rightarrow> transfer_t \<Rightarrow> transfer_t" where
  "set_seq0 s xfer = xfer\<lparr>x_ep_seq := (x_ep_seq xfer)[0 := s]\<rparr>"

definition test_stdreq_get_desc :: "nat \<Rightarrow> u16 \<Rightarrow> unit outcome option" where
  "test_stdreq_get_desc fuel num =
     assert_step_with fuel token_send_step (xfer_zero\<lparr>x_type := SETUP\<rparr>) bus_zero (\<lambda>xfer bus.
     assert_step_with fuel datax_send_step (xfer\<lparr>x_type := DnDATA0\<rparr>) bus (\<lambda>xfer bus.
     assert_step_with fuel token_send_step (transfer_in (set_seq0 SIG1 xfer) 0 0) bus (\<lambda>xfer bus.
     assert_step_with fuel datax_recv_step (xfer\<lparr>x_type := UpDATA1\<rparr>) bus (\<lambda>xfer bus.
     assert_step_with fuel token_send_step
       (set_seq0 SIG1 (transfer_out (set_seq0 SIG0 xfer) 0 0)) bus (\<lambda>xfer bus.
     assert_step_with fuel datax_send_step (xfer\<lparr>x_type := DnDATA1, x_tx_len := 0\<rparr>) bus
       (\<lambda>xfer bus. Some (Inr ())))))))"

end
