(* ===== verification/Usbhost.thy ===== *)
theory Usbhost
  imports Stdreq
begin

text \<open>
  The step-function of the simulated USB host, \<open>src/vpi/usb/usbhost.c\<close>: reset, start-of-frame
  scheduling, the bulk transactions, and the dispatch on the current operation. The value that
  \<open>rand()\<close> would return in this step is the argument \<open>rnd\<close> (a step calls it at most once).
  The copy \<open>memcpy(out, in)\<close> at the entry of \<open>usbh_step\<close> makes its \<open>out\<close> parameter
  write-only.
\<close>

abbreviation HOST_BUF_LEN :: u16 where "HOST_BUF_LEN \<equiv> 16384"
abbreviation TURNAROUND_TIMER :: u64 where "TURNAROUND_TIMER \<equiv> 40"
abbreviation NXT_MASK :: u32 where "NXT_MASK \<equiv> 0xF"
abbreviation GUARDIAN :: u64 where "GUARDIAN \<equiv> 0xA5B43C690F87E12D"

subsection \<open>Taking the bus\<close>

definition is_ulpi_phy_idle :: "ulpi_bus_t \<Rightarrow> bool" where
  "is_ulpi_phy_idle inb \<longleftrightarrow> u_dir inb = SIG0 \<and> u_nxt inb = SIG0 \<and> data_a inb = 0x00"

definition is_ulpi_phy_turn :: "ulpi_bus_t \<Rightarrow> bool" where
  "is_ulpi_phy_turn inb \<longleftrightarrow>
     u_dir inb = SIG1 \<and> u_nxt inb = SIG1 \<and> data_a inb = 0x00 \<and> data_b inb = 0xFF"

definition start_host_to_func :: "usb_host_t \<Rightarrow> ulpi_bus_t \<Rightarrow> ulpi_bus_t
    \<Rightarrow> int \<times> usb_host_t \<times> ulpi_bus_t" where
  "start_host_to_func host inb out =
     (let xfer = h_xfer host in
      if x_stage xfer > AssertDir then (-1, host, out)
      else if x_stage xfer = NoXfer \<and> is_ulpi_phy_idle inb then
        (0, with_xfer host (xfer\<lparr>x_stage := AssertDir\<rparr>),
          set_b 0xFF (set_a 0x00 (out\<lparr>u_dir := SIG1, u_nxt := SIG1\<rparr>)))
      else if x_stage xfer = AssertDir \<and> is_ulpi_phy_turn inb then
        (0, with_xfer host (xfer\<lparr>x_stage := InitRXCMD\<rparr>),
          set_b 0x00 (set_a 0x5D (out\<lparr>u_nxt := SIG0\<rparr>)))
      else (-1, host, set_b 0xFF (set_a 0xFF (out\<lparr>u_dir := SIGX, u_nxt := SIGX\<rparr>))))"

subsection \<open>Bulk transactions\<close>

text \<open>
  A deadline is \<open>host->cycle + TURNAROUND_TIMER\<close> stored in the 32-bit \<open>xfer->cycle\<close>, and
  compared with the 64-bit cycle counter.
\<close>

definition deadline :: "usb_host_t \<Rightarrow> u32" where
  "deadline host = ucast (h_cycle host + TURNAROUND_TIMER)"

definition timed_out :: "usb_host_t \<Rightarrow> transfer_t \<Rightarrow> bool" where
  "timed_out host xfer \<longleftrightarrow> h_cycle host \<ge> ucast (x_cycle xfer)"

definition bulk_out_step :: "u32 \<Rightarrow> usb_host_t \<Rightarrow> ulpi_bus_t \<Rightarrow> ulpi_bus_t \<Rightarrow> host_result" where
  "bulk_out_step rnd host inb out =
     (let xfer = h_xfer host in
      if x_type xfer = OUT then
        bind_c (token_send_step xfer inb out) (\<lambda>(result, xfer, out).
          if result < 0 then Inr (result, with_xfer host xfer, out)
          else if result > 0 then
            bind_c (aget (x_ep_seq xfer) (uint (x_endpoint xfer))) (\<lambda>seq.
              Inr (0, with_xfer host
                (xfer\<lparr>x_type := (if seq = SIG0 then DnDATA0 else DnDATA1), x_stage := NoXfer\<rparr>),
                out))
          else Inr (0, with_xfer host xfer, out))
      else if x_type xfer \<in> {DnDATA0, DnDATA1} then
        (if x_tx_ptr xfer < x_tx_len xfer \<and> u_nxt inb = SIG1 \<and> rnd AND NXT_MASK = NXT_MASK then
           Inr (0, host, set_a 0x5D (out\<lparr>u_nxt := SIG0\<rparr>))
         else
           bind_c (datax_send_step xfer inb out) (\<lambda>(result, xfer, out).
             if result < 0 then Inr (result, with_xfer host xfer, out)
             else if result > 0 then
               Inr (0, with_xfer host
                 (xfer\<lparr>x_type := UpACK, x_stage := NoXfer, x_cycle := deadline host\<rparr>), out)
             else Inr (0, with_xfer host xfer, out)))
      else if x_type xfer = UpACK then
        (if timed_out host xfer then
           Inr (1, with_xfer host (xfer\<lparr>x_type := XferIdle, x_stage := NoXfer\<rparr>), out)
         else
           bind_c (ack_recv_step xfer inb out) (\<lambda>(result, xfer, out).
             Inr (result, with_xfer host
               (if result > 0 then xfer\<lparr>x_type := XferIdle, x_stage := NoXfer\<rparr> else xfer), out)))
      else Inr (-1, host, out))"

definition bulk_in_data :: "u32 \<Rightarrow> usb_host_t \<Rightarrow> ulpi_bus_t \<Rightarrow> ulpi_bus_t \<Rightarrow> host_result" where
  "bulk_in_data rnd host inb out =
     bind_c (datax_recv_step (h_xfer host) inb out) (\<lambda>(result, xfer, out).
       if x_rx_ptr xfer = 0 \<and> timed_out host xfer then
         Inr (0, with_xfer host (xfer\<lparr>x_type := TimeOut\<rparr>), out)
       else if result < -2 then
         Inr (0, with_xfer host (xfer\<lparr>x_type := TimeOut, x_cycle := deadline host\<rparr>), out)
       else if result < 0 then Inr (result, with_xfer host xfer, out)
       else if result > 0 then
         Inr (0, with_xfer host (xfer\<lparr>x_type := DnACK, x_stage := NoXfer\<rparr>), out)
       else Inr (0, with_xfer host xfer,
         if x_rx_ptr xfer > 0 \<and> u_nxt out = SIG1 \<and> rnd AND NXT_MASK = NXT_MASK
         then out\<lparr>u_nxt := SIG0\<rparr> else out))"

definition bulk_in_timeout :: "usb_host_t \<Rightarrow> ulpi_bus_t \<Rightarrow> ulpi_bus_t \<Rightarrow> host_result" where
  "bulk_in_timeout host inb out =
     (let xfer = h_xfer host in
      if timed_out host xfer then
        Inr (1, with_xfer host (xfer\<lparr>x_type := XferIdle, x_stage := NoXfer\<rparr>), out)
      else if x_stage xfer = DATAxBody then
        assert_c (u_dir inb = SIG0 \<and> data_b inb = 0x00)
          (if u_stp inb = SIG1 then
             (let out = set_b 0xFF (set_a 0x00 (out\<lparr>u_nxt := SIG0, u_dir := SIG1\<rparr>));
                  xfer = xfer\<lparr>x_stage := DATAxStop, x_rx_len := x_rx_ptr xfer - 2\<rparr> in
              bind_c (check_rx_crc16 xfer) (\<lambda>(ok, xfer).
                if \<not> ok then Inr (-1, with_xfer host xfer, out)
                else Inr (0, with_xfer host (xfer\<lparr>x_type := TimeOut\<rparr>), out)))
           else if u_nxt inb = SIG1 then
             bind_c (aput (x_rx xfer) (x_rx_ptr xfer) (data_a inb)) (\<lambda>rx.
               Inr (0, with_xfer host
                 (xfer\<lparr>x_rx := rx, x_rx_ptr := x_rx_ptr xfer + 1, x_type := TimeOut\<rparr>), out))
           else Inr (0, with_xfer host (xfer\<lparr>x_type := TimeOut\<rparr>), out\<lparr>u_nxt := SIG1\<rparr>))
      else
        bind_c (drive_eop xfer inb out) (\<lambda>(result, xfer, out).
          if result < 0 then Inr (-1, with_xfer host xfer, out)
          else Inr (0, with_xfer host (xfer\<lparr>x_type := TimeOut\<rparr>), out)))"

definition bulk_in_step :: "u32 \<Rightarrow> usb_host_t \<Rightarrow> ulpi_bus_t \<Rightarrow> ulpi_bus_t \<Rightarrow> host_result" where
  "bulk_in_step rnd host inb out =
     (let xfer = h_xfer host in
      if x_type xfer = IN then
        bind_c (token_send_step xfer inb out) (\<lambda>(result, xfer, out).
          if result < 0 then Inr (result, with_xfer host xfer, out)
          else if result > 0 then
            bind_c (aget (x_ep_seq xfer) (uint (x_endpoint xfer))) (\<lambda>seq.
              Inr (0, with_xfer host
                (xfer\<lparr>x_type := (if seq = SIG0 then UpDATA0 else UpDATA1), x_stage := NoXfer,
                  x_cycle := deadline host\<rparr>), out))
          else Inr (0, with_xfer host xfer, out))
      else if x_type xfer \<in> {UpDATA0, UpDATA1} then bulk_in_data rnd host inb out
      else if x_type xfer = DnACK then
        bind_c (ack_send_step xfer inb out) (\<lambda>(result, xfer, out).
          if result > 0 then
            bind_c (transfer_ack xfer) (\<lambda>xfer.
              Inr (result, with_xfer host (xfer\<lparr>x_type := XferIdle, x_stage := NoXfer\<rparr>), out))
          else Inr (result, with_xfer host xfer, out))
      else if x_type xfer = TimeOut then bulk_in_timeout host inb out
      else if x_type xfer = XferIdle then Inr (1, host, out)
      else Inr (-1, host, out))"

subsection \<open>Reset and initialisation\<close>

definition usbh_reset :: "usb_host_t \<Rightarrow> usb_host_t" where
  "usbh_reset host =
     host\<lparr>h_op := HostReset, h_step := 0, h_turnaround := 0, h_addr := 0, h_error_count := 0,
       h_xfer := xfer_zero\<rparr>"

text \<open>\<open>addr\<close> is the address \<open>malloc\<close> returned for the buffer.\<close>

definition usbh_init :: "u64 \<Rightarrow> usb_host_t \<Rightarrow> usb_host_t" where
  "usbh_init addr host =
     (usbh_reset host)\<lparr>h_cycle := 0, h_sof := 0, h_buf := addr, h_len := HOST_BUF_LEN,
       h_guard := GUARDIAN\<rparr>"

definition usbh_busy :: "usb_host_t \<Rightarrow> bool" where
  "usbh_busy host \<longleftrightarrow> h_op host \<noteq> HostIdle"

definition usbh_reset_device :: "usb_host_t \<Rightarrow> u8 \<Rightarrow> int" where
  "usbh_reset_device host addr = -1"

definition usbh_bulk_out :: "usb_host_t \<Rightarrow> u8 list \<Rightarrow> u16 \<Rightarrow> int" where
  "usbh_bulk_out host dat len = -1"

definition usbh_bulk_in :: "usb_host_t \<Rightarrow> u8 list \<Rightarrow> u16 \<Rightarrow> int" where
  "usbh_bulk_in host dat len = -1"

subsection \<open>One clock of the host\<close>

text \<open>The first half of \<open>usbh_step\<close>: a reset, or a start-of-frame when one is due.\<close>

definition usbh_frame :: "u64 \<Rightarrow> usb_host_t \<Rightarrow> ulpi_bus_t \<Rightarrow> usb_host_t \<times> ulpi_bus_t" where
  "usbh_frame cycle host inb =
     (if u_rst_n inb = SIG0 then
        (if u_rst_n (h_prev host) \<noteq> SIG0 then usbh_reset host else host,
         inb\<lparr>u_dir := SIG0, u_nxt := SIG0\<rparr>)
      else if cycle mod SOF_N_TICKS = 0 then
        (if h_op host > HostIdle then (host, inb)
         else if h_op host < HostIdle then (host, inb)
         else
           (let sof = drop_bit 3 (h_sof host);
                crc = crc5_calc sof in
            ((with_xfer host
                ((h_xfer host)\<lparr>x_type := SOF, x_tok1 := lo8 crc, x_tok2 := hi8 crc\<rparr>))
               \<lparr>h_sof := h_sof host + 1, h_op := HostSOF, h_step := 0\<rparr>, inb)))
      else (host, inb))"

definition usbh_tail :: "ulpi_bus_t \<Rightarrow> int \<Rightarrow> usb_host_t \<Rightarrow> ulpi_bus_t \<Rightarrow> host_result" where
  "usbh_tail inb result host out =
     (let host = host\<lparr>h_prev := inb\<rparr> in
      Inr (if h_guard host \<noteq> GUARDIAN then -1 else result, host, out))"

text \<open>The \<open>switch (host->op)\<close>, with what follows it.\<close>

definition usbh_dispatch :: "u32 \<Rightarrow> usb_host_t \<Rightarrow> ulpi_bus_t \<Rightarrow> ulpi_bus_t \<Rightarrow> host_result" where
  "usbh_dispatch rnd host inb out =
     (case h_op host of
        HostError \<Rightarrow> usbh_tail inb (-1) (host\<lparr>h_step := h_step host + 1\<rparr>) out
      | HostReset \<Rightarrow>
          (let step = h_step host + 1;
               host = host\<lparr>h_step := step\<rparr>;
               host = (if step < 2 then host
                       else if step \<ge> RESET_TICKS then host\<lparr>h_op := HostIdle, h_step := 0\<rparr>
                       else host) in
           usbh_tail inb 0 host out)
      | HostSuspend \<Rightarrow> usbh_tail inb 0 (host\<lparr>h_step := h_step host + 1\<rparr>) out
      | HostResume \<Rightarrow> usbh_tail inb 0 (host\<lparr>h_step := h_step host + 1\<rparr>) out
      | HostIdle \<Rightarrow> usbh_tail inb 0 (host\<lparr>h_step := h_step host + 1\<rparr>) out
      | HostSOF \<Rightarrow>
          bind_c (on_xfer token_send_step host inb out) (\<lambda>(result, host, out).
            usbh_tail inb result (if result = 1 then host\<lparr>h_op := HostIdle\<rparr> else host) out)
      | HostSETUP \<Rightarrow> stdreq_step host inb out
      | HostBulkOUT \<Rightarrow> bulk_out_step rnd host inb out
      | HostBulkIN \<Rightarrow> bulk_in_step rnd host inb out)"

definition usbh_step :: "u32 \<Rightarrow> usb_host_t \<Rightarrow> ulpi_bus_t \<Rightarrow> host_result" where
  "usbh_step rnd host inb =
     (let (host', out) = usbh_frame (h_cycle host) (host\<lparr>h_cycle := h_cycle host + 1\<rparr>) inb in
      usbh_dispatch rnd host' inb out)"

end
