(* ===== verification/Usbhost_Props.thy ===== *)
theory Usbhost_Props
  imports Usbhost Ulpi_Packets
begin

text \<open>
  What the host promises: the frame that every step keeps, reset, start-of-frames, standard
  requests, and bulk OUT transactions under throttling and time-outs.
\<close>

subsection \<open>The frame of a step\<close>

lemma host_post_trans:
  "host_frame h k \<Longrightarrow> same_host h k \<Longrightarrow> host_post k p \<Longrightarrow> host_post h p"
  by (auto simp: host_post_def host_frame_def same_host_def split: prod.splits)

lemma enter_packet_frame:
  assumes "\<And>x. arrays_ok x \<Longrightarrow> arrays_ok (init x)"
  shows "host_frame h (enter_packet ty init h)" "same_host h (enter_packet ty init h)"
proof -
  have "arrays_ok x \<Longrightarrow> arrays_ok (x\<lparr>x_type := ty, x_stage := NoXfer\<rparr>)" for x
    by (simp add: arrays_ok_def)
  then show "host_frame h (enter_packet ty init h)"
    using assms by (simp add: enter_packet_def host_frame_def)
  show "same_host h (enter_packet ty init h)"
    by (simp add: enter_packet_def same_host_def)
qed

lemma enter_packet_post:
  assumes "\<And>x. arrays_ok x \<Longrightarrow> arrays_ok (init x)"
    and "returns (host_post (enter_packet ty init h)) m"
  shows "returns (host_post h) m"
  using assms(2)
  by (rule returns_mono) (rule host_post_trans [OF enter_packet_frame [OF assms(1)]])

lemma arrays_ok_lens [simp]:
  "arrays_ok x \<Longrightarrow> arrays_ok (x\<lparr>x_rx_len := n, x_rx_ptr := m\<rparr>)"
  "arrays_ok x \<Longrightarrow> arrays_ok (x\<lparr>x_tx_len := n\<rparr>)"
  by (simp_all add: arrays_ok_def)

lemma stdreq_packet_post: "returns (host_post h) (stdreq_packet h inb out)"
proof -
  have "host_post h (-1, h, out)" by (simp add: host_post_def same_host_def)
  then show ?thesis
    unfolding stdreq_packet_def
    by (simp add: tok.on_xfer_post
      dsend.on_xfer_post [THEN enter_packet_post [rotated]] arecv.on_xfer_post [THEN enter_packet_post [rotated]]
      tok.on_xfer_post [THEN enter_packet_post [rotated]] drecv.on_xfer_post [THEN enter_packet_post [rotated]]
      asend.on_xfer_post [THEN enter_packet_post [rotated]])
qed

lemma stdreq_step_post: "returns (host_post h) (stdreq_step h inb out)"
  using stdreq_packet_post [of h inb out]
  by (cases "stdreq_packet h inb out") (auto simp: stdreq_step_def host_post_def)

lemma host_postI:
  "-3 \<le> r \<Longrightarrow> r \<le> 1 \<Longrightarrow> (arrays_ok (h_xfer h) \<Longrightarrow> arrays_ok x) \<Longrightarrow> host_post h (r, with_xfer h x, out)"
  by (simp add: host_post_def host_frame_def)

lemma host_post_same: "-3 \<le> r \<Longrightarrow> r \<le> 1 \<Longrightarrow> host_post h (r, h, out)"
  by (simp add: host_post_def same_host_def)

lemma arrays_ok_updates [simp]:
  "arrays_ok (x\<lparr>x_type := t\<rparr>) = arrays_ok x"
  "arrays_ok (x\<lparr>x_stage := s\<rparr>) = arrays_ok x"
  "arrays_ok (x\<lparr>x_cycle := c\<rparr>) = arrays_ok x"
  "arrays_ok (x\<lparr>x_rx_len := n\<rparr>) = arrays_ok x"
  "arrays_ok (x\<lparr>x_rx_ptr := n\<rparr>) = arrays_ok x"
  "arrays_ok (x\<lparr>x_tx_len := n\<rparr>) = arrays_ok x"
  "arrays_ok (x\<lparr>x_tx_ptr := n\<rparr>) = arrays_ok x"
  "arrays_ok (x\<lparr>x_crc1 := b\<rparr>) = arrays_ok x"
  "arrays_ok (x\<lparr>x_crc2 := b\<rparr>) = arrays_ok x"
  "arrays_ok (x\<lparr>x_tok1 := b\<rparr>) = arrays_ok x"
  "arrays_ok (x\<lparr>x_tok2 := b\<rparr>) = arrays_ok x"
  "arrays_ok (x\<lparr>x_address := b\<rparr>) = arrays_ok x"
  "arrays_ok (x\<lparr>x_endpoint := b\<rparr>) = arrays_ok x"
  by (simp_all add: arrays_ok_def)

lemma arrays_ok_rx [simp]:
  "length ys = length (x_rx x) \<Longrightarrow> arrays_ok (x\<lparr>x_rx := ys\<rparr>) = arrays_ok x"
  by (simp add: arrays_ok_def)

lemma transfer_ack_returns:
  "returns (\<lambda>x'. arrays_ok x \<longrightarrow> arrays_ok x') (transfer_ack x)"
  by (simp add: transfer_ack_def Let_def arrays_ok_def)

lemma step_then:
  assumes "returns (\<lambda>(r, x', out'). -3 \<le> r \<and> r \<le> 1 \<and> (arrays_ok x \<longrightarrow> arrays_ok x')) m"
    and "\<And>r x' out'. -3 \<le> r \<Longrightarrow> r \<le> 1 \<Longrightarrow> (arrays_ok x \<Longrightarrow> arrays_ok x') \<Longrightarrow>
      returns P (k (r, x', out'))"
  shows "returns P (bind_c m k)"
  using assms by (cases m) auto

lemma aget_then:
  assumes "\<And>v. returns P (k v)"
  shows "returns P (bind_c (aget xs i) k)"
  using assms by simp

lemma bulk_out_post: "returns (host_post h) (bulk_out_step rnd h inb out)"
  unfolding bulk_out_step_def Let_def
  by (auto simp del: returns_bind intro!: aget_then step_then [OF tok.step_returns] step_then [OF dsend.step_returns]
      step_then [OF arecv.step_returns] host_postI host_post_same)

lemma bulk_in_data_post: "returns (host_post h) (bulk_in_data rnd h inb out)"
  unfolding bulk_in_data_def
  by (auto simp del: returns_bind intro!: step_then [OF drecv.step_returns] host_postI host_post_same)

lemma drive_eop_returns:
  "returns (\<lambda>(r, x', out'). -3 \<le> r \<and> r \<le> 1 \<and> (arrays_ok x \<longrightarrow> arrays_ok x')) (drive_eop x inb out)"
  by (rule returns_mono [OF drive_eop_post]) (auto simp: step_post_def)

lemma check_rx_crc16_then:
  assumes "\<And>ok c1 c2. returns P (k (ok, x\<lparr>x_crc1 := c1, x_crc2 := c2\<rparr>))"
  shows "returns P (bind_c (check_rx_crc16 x) k)"
  unfolding returns_bind
  by (rule returns_mono [OF check_rx_crc16_post]) (use assms in auto)

lemma aput_then:
  assumes "\<And>ys. length ys = length xs \<Longrightarrow> returns P (k ys)"
  shows "returns P (bind_c (aput xs i v) k)"
  using assms by simp

lemma bulk_in_timeout_post: "returns (host_post h) (bulk_in_timeout h inb out)"
  unfolding bulk_in_timeout_def Let_def
  by (auto simp del: returns_bind intro!: step_then [OF drive_eop_returns] check_rx_crc16_then
      aput_then host_postI host_post_same)

lemma bulk_in_post: "returns (host_post h) (bulk_in_step rnd h inb out)"
proof -
  have a: "returns (host_post h) (bind_c (transfer_ack x) (\<lambda>y.
      Inr (r, with_xfer h (y\<lparr>x_type := t, x_stage := s\<rparr>), out')))"
    if "arrays_ok (h_xfer h) \<Longrightarrow> arrays_ok x" "-3 \<le> r" "r \<le> 1" for x r t s out'
    using transfer_ack_returns [of x] that
    by (cases "transfer_ack x") (auto intro!: host_postI host_post_same)
  show ?thesis
    unfolding bulk_in_step_def Let_def
    by (auto simp del: returns_bind intro!: step_then [OF tok.step_returns] step_then [OF asend.step_returns]
        bulk_in_data_post bulk_in_timeout_post host_postI host_post_same a aget_then)
qed

lemma arrays_ok_zero [simp]: "arrays_ok xfer_zero"
  by (simp add: arrays_ok_def xfer_zero_def)

text \<open>What a clock keeps of the host, whatever its operation.\<close>

definition clock_post :: "usb_host_t \<Rightarrow> int \<times> usb_host_t \<times> ulpi_bus_t \<Rightarrow> bool" where
  "clock_post h = (\<lambda>(r, h', out). -3 \<le> r \<and> r \<le> 1 \<and> host_frame h h' \<and> h_cycle h' = h_cycle h)"

lemma usbh_frame_keeps:
  "usbh_frame cycle h inb = (h', out) \<Longrightarrow> host_frame h h' \<and> h_cycle h' = h_cycle h"
  by (auto simp: usbh_frame_def usbh_reset_def host_frame_def Let_def split: if_splits)

lemma tail_post:
  "host_frame h h' \<Longrightarrow> h_cycle h' = h_cycle h \<Longrightarrow> -3 \<le> r \<Longrightarrow> r \<le> 1 \<Longrightarrow>
     returns (clock_post h) (usbh_tail inb r h' out)"
  by (simp add: usbh_tail_def clock_post_def host_frame_def)

lemma clock_post_trans:
  "host_frame h k \<Longrightarrow> h_cycle k = h_cycle h \<Longrightarrow> clock_post k p \<Longrightarrow> clock_post h p"
  by (auto simp: clock_post_def host_frame_def split: prod.splits)

lemma host_post_clock: "host_post h p \<Longrightarrow> clock_post h p"
  by (auto simp: host_post_def clock_post_def same_host_def split: prod.splits)

lemma host_frame_updates [simp]:
  "host_frame h (k\<lparr>h_op := a\<rparr>) = host_frame h k"
  "host_frame h (k\<lparr>h_step := b\<rparr>) = host_frame h k"
  "host_frame h (k\<lparr>h_cycle := c\<rparr>) = host_frame h k"
  "host_frame (k\<lparr>h_cycle := c\<rparr>) h = host_frame k h"
  by (simp_all add: host_frame_def)

lemma dispatch_post: "returns (clock_post h) (usbh_dispatch rnd h inb out)"
proof (cases "h_op h")
  case HostSOF
  have "returns (\<lambda>p. returns (clock_post h) (case p of (result, host, out) \<Rightarrow>
      usbh_tail inb result (if result = 1 then host\<lparr>h_op := HostIdle\<rparr> else host) out))
    (on_xfer token_send_step h inb out)"
    by (rule returns_mono [OF tok.on_xfer_post])
      (auto simp: host_post_def same_host_def intro!: tail_post)
  then show ?thesis using HostSOF by (simp add: usbh_dispatch_def)
next
  case HostSETUP
  then show ?thesis
    using returns_mono [OF stdreq_step_post host_post_clock] by (simp add: usbh_dispatch_def)
next
  case HostBulkOUT
  then show ?thesis
    using returns_mono [OF bulk_out_post host_post_clock] by (simp add: usbh_dispatch_def)
next
  case HostBulkIN
  then show ?thesis
    using returns_mono [OF bulk_in_post host_post_clock] by (simp add: usbh_dispatch_def)
qed (auto simp: usbh_dispatch_def Let_def intro!: tail_post)

lemma clock_frame: "returns (clock_post (host\<lparr>h_cycle := h_cycle host + 1\<rparr>)) (usbh_step rnd host inb)"
proof -
  let ?h = "host\<lparr>h_cycle := h_cycle host + 1\<rparr>"
  obtain k out where f: "usbh_frame (h_cycle host) ?h inb = (k, out)" by fastforce
  have "returns (clock_post k) (usbh_step rnd host inb)"
    using dispatch_post [of k] by (simp add: usbh_step_def f)
  then show ?thesis
    by (rule returns_mono) (rule clock_post_trans, use usbh_frame_keeps [OF f] in auto)
qed

text \<open>A sequence of clocks: the random number and the bus values of each.\<close>

primrec host_run ::
  "(u32 \<times> ulpi_bus_t) list \<Rightarrow> usb_host_t \<Rightarrow> (int list \<times> usb_host_t) outcome" where
  "host_run [] host = Inr ([], host)"
| "host_run (i # is) host =
     bind_c (usbh_step (fst i) host (snd i)) (\<lambda>(r, host, _).
     bind_c (host_run is host) (\<lambda>(rs, host). Inr (r # rs, host)))"

lemma host_run_post:
  "host_run is host = Inr (rs, host') \<Longrightarrow> host_frame host host' \<and>
     list_all (\<lambda>r. -3 \<le> r \<and> r \<le> 1) rs \<and> h_cycle host' = h_cycle host + of_nat (length is)"
proof (induction "is" arbitrary: host rs)
  case Nil
  then show ?case by (simp add: host_frame_def)
next
  case (Cons i "is")
  from Cons.prems obtain r h out rs' where
      step: "usbh_step (fst i) host (snd i) = Inr (r, h, out)" and
      run: "host_run is h = Inr (rs', host')" "rs = r # rs'"
    by (auto simp: bind_c_eq_Inr)
  from clock_frame [of host "fst i" "snd i"] have
      "-3 \<le> r" "r \<le> 1" "host_frame host h" "h_cycle h = h_cycle host + 1"
    by (simp_all add: step clock_post_def)
  then show ?case using Cons.IH [OF run(1)] run(2) by (auto simp: host_frame_def)
qed



subsection \<open>Reset\<close>

lemma reset_step:
  assumes "h_op h = HostReset" and "h_guard h = GUARDIAN" and "u_rst_n inb \<noteq> SIG0"
    and "unat (h_step h) + 1 < 6000"
  shows "usbh_step rnd h inb = Inr (0,
    h\<lparr>h_cycle := h_cycle h + 1, h_step := h_step h + 1, h_prev := inb\<rparr>, inb)"
proof -
  have "unat (h_step h + 1) = unat (h_step h) + 1"
    using assms(4) by (simp add: unat_Suc_small)
  then have "\<not> h_step h + 1 \<ge> 6000"
    using assms(4) by (simp add: word_le_nat_alt)
  then show ?thesis
    using assms(1-3)
    by (auto simp: usbh_step_def usbh_frame_def usbh_dispatch_def usbh_tail_def host_order Let_def)
qed

lemma reset_last_step:
  assumes "h_op h = HostReset" and "h_guard h = GUARDIAN" and "u_rst_n inb \<noteq> SIG0"
    and "unat (h_step h) + 1 = 6000"
  shows "usbh_step rnd h inb = Inr (0,
    h\<lparr>h_cycle := h_cycle h + 1, h_op := HostIdle, h_step := 0, h_prev := inb\<rparr>, inb)"
proof -
  have "unat (h_step h + 1) = 6000"
    using assms(4) by (simp add: unat_Suc_small)
  then have "h_step h + 1 \<ge> 6000" "\<not> h_step h + 1 < 2"
    by (simp_all add: word_le_nat_alt word_less_nat_alt)
  then show ?thesis
    using assms(1-3)
    by (auto simp: usbh_step_def usbh_frame_def usbh_dispatch_def usbh_tail_def host_order Let_def)
qed

lemma reset_run:
  assumes "h_op h = HostReset" and "h_guard h = GUARDIAN"
    and "\<And>i. i \<in> set is \<Longrightarrow> u_rst_n (snd i) \<noteq> SIG0"
    and "unat (h_step h) < 6000" and "unat (h_step h) + length is \<le> 6000"
  shows "\<exists>h'. host_run is h = Inr (replicate (length is) 0, h') \<and>
    h_op h' = (if unat (h_step h) + length is < 6000 then HostReset else HostIdle) \<and>
    h_cycle h' = h_cycle h + of_nat (length is) \<and> h_xfer h' = h_xfer h \<and> h_guard h' = GUARDIAN"
  using assms
proof (induction "is" arbitrary: h)
  case Nil
  then show ?case by simp
next
  case (Cons i "is")
  show ?case
  proof (cases "unat (h_step h) + 1 < 6000")
    case True
    let ?h = "h\<lparr>h_cycle := h_cycle h + 1, h_step := h_step h + 1, h_prev := snd i\<rparr>"
    have step: "usbh_step (fst i) h (snd i) = Inr (0, ?h, snd i)"
      using Cons.prems True by (intro reset_step) simp_all
    have "unat (h_step ?h) = Suc (unat (h_step h))"
      using True by (simp add: unat_Suc_small)
    then show ?thesis
      using Cons.IH [of ?h] Cons.prems True step by (auto simp: add.assoc)
  next
    case False
    then have last: "unat (h_step h) + 1 = 6000" using Cons.prems(4) by linarith
    then have nil: "is = []" using Cons.prems(5) by simp
    then show ?thesis
      using Cons.prems last reset_last_step [of h "snd i" "fst i"] by simp
  qed
qed

text \<open>
  (C29) After \<open>usbh_init\<close>, and while \<open>RST#\<close> stays away from 0, the host is in reset for
  exactly 6000 clocks, whatever else is on the bus, and idle after them. No clock fails, and
  the transfer is as \<open>usbh_init\<close> left it.
\<close>

theorem reset_time:
  assumes "\<And>i. i \<in> set is \<Longrightarrow> u_rst_n (snd i) \<noteq> SIG0" and "length is \<le> 6000"
  shows "\<exists>host'. host_run is (usbh_init addr host) = Inr (replicate (length is) 0, host') \<and>
    h_op host' = (if length is < 6000 then HostReset else HostIdle) \<and>
    h_cycle host' = of_nat (length is) \<and> h_xfer host' = xfer_zero"
proof -
  let ?h = "usbh_init addr host"
  have h: "h_op ?h = HostReset" "h_guard ?h = GUARDIAN" "h_step ?h = 0" "h_cycle ?h = 0"
    "h_xfer ?h = xfer_zero"
    by (simp_all add: usbh_init_def usbh_reset_def)
  have "\<exists>h'. host_run is ?h = Inr (replicate (length is) 0, h') \<and>
    h_op h' = (if unat (h_step ?h) + length is < 6000 then HostReset else HostIdle) \<and>
    h_cycle h' = h_cycle ?h + of_nat (length is) \<and> h_xfer h' = h_xfer ?h \<and> h_guard h' = GUARDIAN"
    by (rule reset_run) (use h assms in simp_all)
  then show ?thesis by (auto simp only: h unat_0 add_0)
qed

lemma reset_time_witness:
  "\<exists>host'. host_run (replicate 6000 (0, ulpi_bus_idle bus_zero)) (usbh_init 0x1000 undefined) =
      Inr (replicate 6000 0, host') \<and>
    h_op host' = HostIdle \<and> h_cycle host' = 6000 \<and> h_xfer host' = xfer_zero"
  using reset_time [of "replicate 6000 (0, ulpi_bus_idle bus_zero)" "0x1000" undefined] by simp

subsection \<open>The host with a listening device\<close>

text \<open>
  \<open>n\<close> clocks in which the bus values the host drives are the next it samples, and a device
  listens: the results, the host, the bus, and the packet bytes heard.
\<close>

primrec host_listen :: "(nat \<Rightarrow> u32) \<Rightarrow> nat \<Rightarrow> usb_host_t \<Rightarrow> ulpi_bus_t \<Rightarrow> u8 list
    \<Rightarrow> (int list \<times> usb_host_t \<times> ulpi_bus_t \<times> u8 list) outcome" where
  "host_listen rnd 0 host bus u = Inr ([], host, bus, u)"
| "host_listen rnd (Suc n) host bus u =
     bind_c (usbh_step (rnd 0) host bus) (\<lambda>(r, host, bus).
     bind_c (listen u bus bus) (\<lambda>(_, u, bus).
     bind_c (host_listen (\<lambda>k. rnd (Suc k)) n host bus u) (\<lambda>(rs, host, bus, u).
       Inr (r # rs, host, bus, u))))"

lemma host_listen_add:
  "host_listen rnd m host bus u = Inr (rs, host1, bus1, u1) \<Longrightarrow>
   host_listen (\<lambda>k. rnd (m + k)) n host1 bus1 u1 = Inr (rs', host2, bus2, u2) \<Longrightarrow>
   host_listen rnd (m + n) host bus u = Inr (rs @ rs', host2, bus2, u2)"
proof (induction m arbitrary: rnd host bus u rs)
  case 0
  then show ?case by simp
next
  case (Suc m)
  then show ?case by (auto simp: bind_c_eq_Inr split: prod.splits)
qed

lemma usbh_frame_busy:
  "h_op h > HostIdle \<Longrightarrow> u_rst_n b \<noteq> SIG0 \<Longrightarrow> usbh_frame c h b = (h, b)"
  by (simp add: usbh_frame_def)

lemma sof_clock:
  assumes "h_op h = HostSOF" and "h_guard h = GUARDIAN" and "u_rst_n b \<noteq> SIG0"
    and "token_send_step (h_xfer h) b b = Inr (r, x', out)"
  shows "usbh_step rnd h b = Inr (r, (with_xfer h x')\<lparr>h_cycle := h_cycle h + 1, h_prev := b,
    h_op := (if r = 1 then HostIdle else HostSOF)\<rparr>, out)"
  using assms usbh_frame_busy [of "h\<lparr>h_cycle := h_cycle h + 1\<rparr>" b "h_cycle h"]
  by (simp add: usbh_step_def usbh_dispatch_def on_xfer_def usbh_tail_def host_order with_xfer_def)

lemma token_keeps_rst:
  "returns (\<lambda>(r, x', out). u_rst_n out = u_rst_n inb) (token_send_step x inb inb)"
  by (simp add: token_send_step_def drive_eop_def Let_def)

lemma listen_out: "listen u b b = Inr (r, u', b') \<Longrightarrow> r = 0 \<and> b' = b"
  by (auto simp: listen_def)

lemma turn_listen:
  assumes "turn step listen (x, b, o1, u) = Some (x', b', o2, u')"
  shows "step x b o1 = Inr (0, x', b')" and "o2 = b'" and "listen u b' b' = Inr (0, u', b')"
proof -
  from assms obtain r where s: "step x b o1 = Inr (r, x', b')" and l: "listen u b' b' = Inr (0, u', b')"
    and r: "r OR 0 = 0" "o2 = b'"
    by (fastforce simp: turn_def listen_def split: sum.splits if_splits)
  show "step x b o1 = Inr (0, x', b')" using s r(1) by simp
  show "o2 = b'" by (rule r(2))
  show "listen u b' b' = Inr (0, u', b')" by (rule l)
qed

lemma sof_listen:
  assumes "turns n token_send_step listen (h_xfer h, b, b, u) = Some (x', b', b'', u')"
    and "h_op h = HostSOF" and "h_guard h = GUARDIAN" and "u_rst_n b \<noteq> SIG0"
  shows "\<exists>h'. host_listen rnd n h b u = Inr (replicate n 0, h', b', u') \<and> h_xfer h' = x' \<and>
    h_op h' = HostSOF \<and> h_guard h' = GUARDIAN \<and> h_sof h' = h_sof h \<and>
    h_cycle h' = h_cycle h + of_nat n \<and> u_rst_n b' = u_rst_n b"
  using assms
proof (induction n arbitrary: h b u rnd)
  case 0
  then show ?case by simp
next
  case (Suc n)
  from Suc.prems(1) obtain s1 where t: "turn token_send_step listen (h_xfer h, b, b, u) = Some s1"
    and ts: "turns n token_send_step listen s1 = Some (x', b', b'', u')"
    by (auto simp: bind_eq_Some_conv)
  obtain x1 b1 o1 u1 where s1: "s1 = (x1, b1, o1, u1)" by (cases s1)
  have st: "token_send_step (h_xfer h) b b = Inr (0, x1, b1)" and o1: "o1 = b1"
    and l: "listen u b1 b1 = Inr (0, u1, b1)"
    using turn_listen [of token_send_step "h_xfer h" b b u x1 b1 o1 u1] t s1 by simp_all
  have rst: "u_rst_n b1 = u_rst_n b"
    using token_keeps_rst [of b "h_xfer h"] st by simp
  let ?h1 = "(with_xfer h x1)\<lparr>h_cycle := h_cycle h + 1, h_prev := b, h_op := HostSOF\<rparr>"
  have step: "usbh_step (rnd 0) h b = Inr (0, ?h1, b1)"
    using sof_clock [OF Suc.prems(2,3,4) st] by simp
  have "\<exists>h'. host_listen (\<lambda>k. rnd (Suc k)) n ?h1 b1 u1 = Inr (replicate n 0, h', b', u') \<and>
    h_xfer h' = x' \<and> h_op h' = HostSOF \<and> h_guard h' = GUARDIAN \<and> h_sof h' = h_sof ?h1 \<and>
    h_cycle h' = h_cycle ?h1 + of_nat n \<and> u_rst_n b' = u_rst_n b1"
    by (rule Suc.IH) (use ts s1 o1 rst Suc.prems(3,4) in simp_all)
  then show ?case using step l rst by (auto simp: add.assoc)
qed

definition sof_start :: "usb_host_t \<Rightarrow> usb_host_t" where
  "sof_start h =
     (let crc = crc5_calc (drop_bit 3 (h_sof h)) in
      (with_xfer h ((h_xfer h)\<lparr>x_type := SOF, x_tok1 := lo8 crc, x_tok2 := hi8 crc\<rparr>))
        \<lparr>h_sof := h_sof h + 1, h_op := HostSOF, h_step := 0\<rparr>)"

lemma sof_due:
  assumes "h_op h = HostIdle" and "h_cycle h mod 1500 = 0" and "u_rst_n b \<noteq> SIG0"
  shows "usbh_step rnd h b = usbh_step rnd (sof_start h) b"
  using assms
  by (cases h) (simp add: usbh_step_def usbh_frame_def sof_start_def host_order Let_def with_xfer_def)

text \<open>
  (C4) Start of frame: an idle host whose cycle count is a multiple of 1500 sends, in exactly
  nine clocks, the SOF packet of its frame counter (in micro-frames, so shifted by three): PID
  0xA5 and a token that passes the receiver's CRC check and carries the frame number. The ninth
  clock returns 1, and the host is idle again with its counter advanced by one.
\<close>

theorem sof_sent:
  assumes "h_op host = HostIdle" and "h_cycle host mod 1500 = 0" and "h_guard host = GUARDIAN"
    and "x_stage (h_xfer host) = NoXfer"
  shows "\<exists>host' tok1 tok2. host_listen rnd 9 host (ulpi_bus_idle bus) [] =
      Inr (replicate 8 0 @ [1], host', bus_released bus, [0xA5, tok1, tok2]) \<and>
    crc5_check (token_word tok1 tok2) \<and>
    token_word tok1 tok2 AND 0x07FF = drop_bit 3 (h_sof host) AND 0x07FF \<and>
    h_op host' = HostIdle \<and> h_sof host' = h_sof host + 1 \<and> h_cycle host' = h_cycle host + 9"
proof -
  let ?s = "sof_start host"
  let ?x = "h_xfer ?s"
  let ?crc = "crc5_calc (drop_bit 3 (h_sof host))"
  let ?b = "bus_released bus"
  have x: "x_type ?x = SOF" "x_stage ?x = NoXfer" "x_tok1 ?x = lo8 ?crc" "x_tok2 ?x = hi8 ?crc"
    "transfer_type_to_pid ?x = 0xA5"
    using assms(4) by (simp_all add: sof_start_def Let_def transfer_type_to_pid_def xfer_order)
  have s: "h_op ?s = HostSOF" "h_guard ?s = GUARDIAN" "h_sof ?s = h_sof host + 1"
    "h_cycle ?s = h_cycle host"
    using assms(3) by (simp_all add: sof_start_def Let_def)
  have "turns 8 token_send_step listen (?x, ulpi_bus_idle bus, ulpi_bus_idle bus, []) =
      Some (?x\<lparr>x_stage := LineIdle\<rparr>, ?b, ?b, [0xA5, lo8 ?crc, hi8 ?crc])"
    using token_turns [of ?x bus "ulpi_bus_idle bus" "[]"] x by simp
  then obtain h8 where h8: "host_listen rnd 8 ?s (ulpi_bus_idle bus) [] =
      Inr (replicate 8 0, h8, ?b, [0xA5, lo8 ?crc, hi8 ?crc])" "h_xfer h8 = ?x\<lparr>x_stage := LineIdle\<rparr>"
      "h_op h8 = HostSOF" "h_guard h8 = GUARDIAN" "h_sof h8 = h_sof ?s" "h_cycle h8 = h_cycle ?s + 8"
      "u_rst_n ?b \<noteq> SIG0"
    using sof_listen [of 8 ?s] s by fastforce
  have "token_send_step (h_xfer h8) ?b ?b =
      Inr (1, ?x\<lparr>x_type := XferIdle, x_stage := NoXfer\<rparr>, ?b)"
    using h8(2) x token_last [of "h_xfer h8" bus ?b] by simp
  then have "usbh_step (rnd 8) h8 ?b = Inr (1, (with_xfer h8 (?x\<lparr>x_type := XferIdle, x_stage := NoXfer\<rparr>))
      \<lparr>h_cycle := h_cycle h8 + 1, h_prev := ?b, h_op := HostIdle\<rparr>, ?b)"
    using sof_clock [of h8 ?b 1] h8 by simp
  then have "host_listen (\<lambda>k. rnd (8 + k)) 1 h8 ?b [0xA5, lo8 ?crc, hi8 ?crc] =
      Inr ([1], (with_xfer h8 (?x\<lparr>x_type := XferIdle, x_stage := NoXfer\<rparr>))
      \<lparr>h_cycle := h_cycle h8 + 1, h_prev := ?b, h_op := HostIdle\<rparr>, ?b, [0xA5, lo8 ?crc, hi8 ?crc])"
    by (simp add: listen_released)
  from host_listen_add [OF h8(1) this]
  have "host_listen rnd 9 ?s (ulpi_bus_idle bus) [] =
    Inr (replicate 8 0 @ [1], (with_xfer h8 (?x\<lparr>x_type := XferIdle, x_stage := NoXfer\<rparr>))
      \<lparr>h_cycle := h_cycle h8 + 1, h_prev := ?b, h_op := HostIdle\<rparr>, ?b, [0xA5, lo8 ?crc, hi8 ?crc])"
    by simp
  moreover have "host_listen rnd 9 ?s (ulpi_bus_idle bus) [] =
      host_listen rnd 9 host (ulpi_bus_idle bus) []"
    using sof_due [OF assms(1,2), of "ulpi_bus_idle bus"] by (simp add: numeral_eq_Suc)
  moreover have "crc5_check ?crc" "?crc AND 0x07FF = drop_bit 3 (h_sof host) AND 0x07FF"
    by (rule crc5_check_calc, rule crc5_calc_payload)
  ultimately show ?thesis
    using h8 s by (auto simp: token_word_bytes add.assoc intro!: exI)
qed

lemma sof_sent_witness:
  "\<exists>host' tok1 tok2. host_listen (\<lambda>_. 0) 9
      ((usbh_init 0x1000 undefined)\<lparr>h_op := HostIdle, h_cycle := 6000, h_sof := 0x18\<rparr>)
      (ulpi_bus_idle bus_zero) [] =
      Inr (replicate 8 0 @ [1], host', bus_released bus_zero, [0xA5, tok1, tok2]) \<and>
    crc5_check (token_word tok1 tok2) \<and> token_word tok1 tok2 AND 0x07FF = 3 \<and>
    h_op host' = HostIdle \<and> h_sof host' = 0x19 \<and> h_cycle host' = 6009"
  using sof_sent [of "(usbh_init 0x1000 undefined)\<lparr>h_op := HostIdle, h_cycle := 6000, h_sof := 0x18\<rparr>"
      "\<lambda>_. 0" bus_zero]
  by (simp add: usbh_init_def usbh_reset_def xfer_zero_def)

text \<open>
  (C30) A start-of-frame never disturbs a running transaction: while an operation is in progress, a
  clock at a multiple of 1500 cycles does exactly what a clock at any other count does, and the
  frame counter does not advance.
\<close>

theorem sof_ignored_when_busy:
  assumes "h_op host > HostIdle" and "u_rst_n inb \<noteq> SIG0"
  shows "usbh_step rnd host inb =
    usbh_dispatch rnd (host\<lparr>h_cycle := h_cycle host + 1\<rparr>) inb inb \<and>
    returns (\<lambda>(r, host', out). h_sof host' = h_sof host) (usbh_step rnd host inb)"
proof -
  let ?h = "host\<lparr>h_cycle := h_cycle host + 1\<rparr>"
  have step: "usbh_step rnd host inb = usbh_dispatch rnd ?h inb inb"
    using assms by (simp add: usbh_step_def usbh_frame_busy)
  have ok: "returns (\<lambda>(r, k, out). h_sof k = h_sof ?h) m" if "returns (host_post ?h) m" for m
    by (rule returns_mono [OF that]) (auto simp: host_post_def same_host_def)
  have sof: "returns (\<lambda>(r, k, out). h_sof k = h_sof ?h) (usbh_dispatch rnd ?h inb inb)"
  proof (cases "h_op host")
    case HostSOF
    have "returns (\<lambda>(r, k, out). h_sof k = h_sof ?h) (on_xfer token_send_step ?h inb inb)"
      using tok.on_xfer_post by (rule ok)
    then show ?thesis
      using HostSOF
      by (cases "on_xfer token_send_step ?h inb inb")
        (auto simp: usbh_dispatch_def usbh_tail_def Let_def)
  next
    case HostSETUP
    then show ?thesis using ok [OF stdreq_step_post] by (simp add: usbh_dispatch_def)
  next
    case HostBulkOUT
    then show ?thesis using ok [OF bulk_out_post] by (simp add: usbh_dispatch_def)
  next
    case HostBulkIN
    then show ?thesis using ok [OF bulk_in_post] by (simp add: usbh_dispatch_def)
  qed (use assms(1) in \<open>auto simp: host_order\<close>)
  show ?thesis using step sof by simp
qed

lemma sof_ignored_when_busy_witness:
  "(let host = (usbh_init 0 undefined)\<lparr>h_op := HostBulkOUT\<rparr>; inb = ulpi_bus_idle bus_zero in
    usbh_step 0 host inb = usbh_dispatch 0 (host\<lparr>h_cycle := 1\<rparr>) inb inb)"
  using sof_ignored_when_busy [of "(usbh_init 0 undefined)\<lparr>h_op := HostBulkOUT\<rparr>"
      "ulpi_bus_idle bus_zero" 0]
  by (simp add: host_order Let_def usbh_init_def)

subsection \<open>Standard requests\<close>

lemma le64_length [simp]: "length (le64 w) = 8"
  by (simp add: le64_def)

lemma stdreq_bytes_length [simp]: "length (stdreq_bytes req) = 16"
  by (simp add: stdreq_bytes_def le16_def)

lemma stdreq_bytes_take:
  "take 8 (stdreq_bytes req) =
     [bmRequestType req, bRequest req, lo8 (wValue req), hi8 (wValue req),
      lo8 (wIndex req), hi8 (wIndex req), lo8 (wLength req), hi8 (wLength req)]"
  by (simp add: stdreq_bytes_def le16_def)

lemma stdreq_start_eq:
  assumes "arrays_ok (h_xfer host)"
  shows "stdreq_start host req = Inr (1,
    (with_xfer host ((h_xfer host)\<lparr>x_address := h_addr host, x_endpoint := 0,
        x_ep_seq := (x_ep_seq (h_xfer host))[0 := SIG0],
        x_tok1 := lo8 (crc5_calc (ucast (h_addr host) AND 0x7F)),
        x_tok2 := hi8 (crc5_calc (ucast (h_addr host) AND 0x7F)),
        x_type := SETUP, x_stage := NoXfer, x_tx_len := 8, x_tx_ptr := 0,
        x_crc1 := lo8 (crc16_calc (stdreq_bytes req) 8),
        x_crc2 := hi8 (crc16_calc (stdreq_bytes req) 8),
        x_tx := stdreq_bytes req @ drop 16 (x_tx (h_xfer host)),
        x_rx_len := uint (h_len host), x_rx_ptr := 0\<rparr>))\<lparr>h_op := HostSETUP, h_step := 0\<rparr>)"
  using assms
  by (cases "x_ep_seq (h_xfer host)")
    (simp_all add: stdreq_start_def arrays_ok_def Let_def crc16_of_def copy_front_def aput_def)

text \<open>
  (C8) Queueing a standard request never fails on a host with its arrays intact. The transfer is
  then ready to send the request: a SETUP token for end-point 0 of the current address that
  passes the device's check, and a DATA0 packet of the eight bytes of the request, fields in
  little-endian order, with a CRC that passes the device's check.
\<close>

theorem stdreq_queued:
  assumes "arrays_ok (h_xfer host)"
  shows "\<exists>host'. stdreq_start host req = Inr (1, host') \<and>
    h_op host' = HostSETUP \<and> h_step host' = 0 \<and>
    (let x = h_xfer host'; t = token_word (x_tok1 x) (x_tok2 x) in
     x_type x = SETUP \<and> x_stage x = NoXfer \<and> x_address x = h_addr host \<and> x_endpoint x = 0 \<and>
     crc5_check t \<and> t AND 0x07FF = ucast (h_addr host) AND 0x7F \<and>
     check_seq x USBPID_DATA0 \<and> x_tx_len x = 8 \<and> x_tx_ptr x = 0 \<and>
     take 8 (x_tx x) =
       [bmRequestType req, bRequest req, lo8 (wValue req), hi8 (wValue req),
        lo8 (wIndex req), hi8 (wIndex req), lo8 (wLength req), hi8 (wLength req)] \<and>
     crc16_check (take 8 (x_tx x) @ [x_crc1 x, x_crc2 x]) 10)"
proof -
  let ?b = "take 8 (stdreq_bytes req)"
  have "crc16_calc ?b 8 = crc16_calc (stdreq_bytes req) 8"
    by (simp add: crc16_calc_def)
  then have "crc16_check (?b @ [lo8 (crc16_calc (stdreq_bytes req) 8),
      hi8 (crc16_calc (stdreq_bytes req) 8)]) 10"
    using crc16_codeword [of ?b] by simp
  moreover have "(ucast (h_addr host) AND 0x7F) AND 0x07FF = (ucast (h_addr host) AND 0x7F :: u16)"
    by (simp add: and.assoc)
  moreover have "length (x_ep_seq (h_xfer host)) = 16" using assms by (simp add: arrays_ok_def)
  then have "x_ep_seq (h_xfer host) \<noteq> []" by auto
  ultimately show ?thesis
    unfolding stdreq_start_eq [OF assms]
    by (auto simp: Let_def token_word_bytes crc5_check_calc crc5_calc_payload check_seq_def
        stdreq_bytes_take [symmetric] nth_list_update)
qed

lemma stdreq_queued_witness:
  "\<exists>host'. stdreq_start (usbh_init 0 undefined) \<lparr>bmRequestType = 0x80, bRequest = 6, wValue = 0x0301,
      wIndex = 0, wLength = 64, req_data = 0\<rparr> = Inr (1, host') \<and>
    h_op host' = HostSETUP \<and>
    take 8 (x_tx (h_xfer host')) = [0x80, 0x06, 0x01, 0x03, 0x00, 0x00, 0x40, 0x00]"
proof -
  let ?req = "\<lparr>bmRequestType = 0x80, bRequest = 6, wValue = 0x0301, wIndex = 0, wLength = 64,
    req_data = 0\<rparr>"
  have "arrays_ok (h_xfer (usbh_init 0 undefined))"
    by (simp add: usbh_init_def usbh_reset_def)
  then show ?thesis
    using stdreq_queued [of "usbh_init 0 undefined" ?req]
    by (auto simp: Let_def lo8_def hi8_def)
qed

text \<open>
  \<open>stdreq_get_desc_device\<close> on an idle host queues the packet that the built-in test of the
  device uses, \<open>80 06 00 01 00 00 40 00\<close>, with the CRC bytes DD 94 the test spells out; on a
  host that is not idle it fails and changes nothing.
\<close>

lemma get_desc_device_packet:
  assumes "arrays_ok (h_xfer host)"
  shows "if h_op host = HostIdle
    then \<exists>host'. stdreq_get_desc_device host = Inr (1, host') \<and>
      take 8 (x_tx (h_xfer host')) = [0x80, 0x06, 0x00, 0x01, 0x00, 0x00, 0x40, 0x00] \<and>
      x_crc1 (h_xfer host') = 0xDD \<and> x_crc2 (h_xfer host') = 0x94
    else stdreq_get_desc_device host = Inr (-1, host)"
proof (cases "h_op host = HostIdle")
  case False
  then show ?thesis by (simp add: stdreq_get_desc_device_def)
next
  case True
  define req where "req = \<lparr>bmRequestType = 0x80, bRequest = STDREQ_GET_DESCRIPTOR,
    wValue = push_bit 8 DESC_DEVICE, wIndex = 0, wLength = of_nat MAX_CONFIG_SIZE, req_data = 0\<rparr>"
  have get: "stdreq_get_desc_device host = stdreq_start host req"
    using True by (simp add: stdreq_get_desc_device_def req_def)
  have bytes: "take 8 (stdreq_bytes req) = [0x80, 0x06, 0x00, 0x01, 0x00, 0x00, 0x40, 0x00]"
    by (simp add: stdreq_bytes_take req_def lo8_def hi8_def)
  have "crc16_calc (stdreq_bytes req) 8 = 0x94DD"
    unfolding crc16_calc_def bytes
    by (simp add: crc16_byte_def funpow_numeral crc16_bit_def)
  then show ?thesis
    using True bytes stdreq_start_eq [OF assms, of req] by (simp add: get lo8_def hi8_def)
qed

lemma get_desc_device_packet_witness:
  "stdreq_get_desc_device (usbh_init 0 undefined) = Inr (-1, usbh_init 0 undefined)"
  using get_desc_device_packet [of "usbh_init 0 undefined"]
  by (simp add: usbh_init_def usbh_reset_def)

text \<open>
  Stepping a standard request never moves it to its next packet: whatever the bus does,
  \<open>host->step\<close> stays, because no transaction step-function returns more than 1. The
  test-cases advance it.
\<close>

lemma stdreq_step_stays:
  "returns (\<lambda>(r, host', out). r \<le> 1 \<and> h_step host' = h_step host \<and> h_op host' = h_op host)
    (stdreq_step host inb out)"
  by (rule returns_mono [OF stdreq_step_post]) (auto simp: host_post_def same_host_def)

subsection \<open>Time-outs\<close>

lemma unat_ucast_deadline: "unat (ucast (c :: u32) :: u64) = unat c"
  by transfer (simp add: take_bit_take_bit)

text \<open>
  (C32) A deadline is kept in 32 bits and compared with the 64-bit cycle counter. From cycle
  \<open>2^32\<close> on, every deadline has passed: a bulk OUT transaction that waits for its handshake
  ends at once with result 1 and without looking at the bus, so no handshake is ever seen and
  the sequence bit never toggles.
\<close>

theorem bulk_out_late_timeout:
  assumes "2 ^ 32 \<le> h_cycle host" and "x_type (h_xfer host) = UpACK"
  shows "bulk_out_step rnd host inb out =
    Inr (1, with_xfer host ((h_xfer host)\<lparr>x_type := XferIdle, x_stage := NoXfer\<rparr>), out)"
proof -
  have "unat (x_cycle (h_xfer host)) < 2 ^ LENGTH(32)" by (rule unsigned_less)
  moreover have "2 ^ 32 \<le> unat (h_cycle host)"
    using assms(1) by (simp add: word_le_nat_alt)
  moreover have "unat (ucast (x_cycle (h_xfer host)) :: u64) = unat (x_cycle (h_xfer host))"
    by (rule unat_ucast_deadline)
  ultimately have "timed_out host (h_xfer host)"
    by (simp add: timed_out_def word_le_nat_alt)
  then show ?thesis
    using assms(2) by (simp add: bulk_out_step_def Let_def)
qed

lemma bulk_out_late_timeout_witness:
  "bulk_out_step 0 ((usbh_init 0 undefined)\<lparr>h_cycle := 2 ^ 32, h_xfer := xfer_zero\<lparr>x_type := UpACK\<rparr>\<rparr>)
      (ulpi_bus_idle bus_zero) bus_zero =
    Inr (1, with_xfer ((usbh_init 0 undefined)\<lparr>h_cycle := 2 ^ 32\<rparr>) xfer_zero, bus_zero)"
  using bulk_out_late_timeout [of "(usbh_init 0 undefined)\<lparr>h_cycle := 2 ^ 32,
      h_xfer := xfer_zero\<lparr>x_type := UpACK\<rparr>\<rparr>" 0 "ulpi_bus_idle bus_zero" bus_zero]
  by (simp add: with_xfer_def xfer_zero_def)

end
