(* ===== verification/Bulk_Out.thy ===== *)
theory Bulk_Out
  imports Usbhost_Props
begin

text \<open>
  A whole bulk OUT transaction of \<open>bulk_out_step\<close> in \<open>src/vpi/usb/usbhost.c\<close>, clock by clock
  through \<open>usbh_step\<close>: the token, the data packet with the random pauses of \<open>NXT\<close>, and the
  handshake with its deadline.
\<close>

text \<open>A host in a transaction, but for its transfer and its cycle counter.\<close>

definition busy :: "usb_host_t \<Rightarrow> transfer_t \<Rightarrow> u64 \<Rightarrow> usb_host_t" where
  "busy h x c = (with_xfer h x)\<lparr>h_cycle := c\<rparr>"

lemma busy_simps [simp]:
  "h_op (busy h x c) = h_op h" "h_xfer (busy h x c) = x" "h_cycle (busy h x c) = c"
  "with_xfer (busy h x c) y = busy h y c" "(busy h x c)\<lparr>h_cycle := d\<rparr> = busy h x d"
  "h_guard (busy h x c) = h_guard h"
  by (simp_all add: busy_def with_xfer_def)

lemma busy_self: "busy h (h_xfer h) (h_cycle h) = h"
  by (simp add: busy_def with_xfer_def)

lemma bulk_clock:
  "h_op h = HostBulkOUT \<Longrightarrow> u_rst_n b \<noteq> SIG0 \<Longrightarrow>
     usbh_step rnd (busy h x c) b = bulk_out_step rnd (busy h x (c + 1)) b b"
  by (simp add: usbh_step_def usbh_frame_busy host_order usbh_dispatch_def)

text \<open>
  The host clocked on the bus it drives itself, with a link that only listens, until it awaits a
  handshake, a step returns something else than 0, or the fuel is used up.
\<close>

primrec out_phase :: "(nat \<Rightarrow> u32) \<Rightarrow> nat \<Rightarrow> usb_host_t \<Rightarrow> ulpi_bus_t \<Rightarrow> u8 list
    \<Rightarrow> (int \<times> usb_host_t \<times> ulpi_bus_t \<times> u8 list) outcome" where
  "out_phase rnd 0 host bus u = Inr (0, host, bus, u)"
| "out_phase rnd (Suc n) host bus u =
     (if x_type (h_xfer host) = UpACK then Inr (0, host, bus, u)
      else
        bind_c (usbh_step (rnd 0) host bus) (\<lambda>(r, host, bus).
        bind_c (listen u bus bus) (\<lambda>(_, u, bus).
          if r \<noteq> 0 then Inr (r, host, bus, u)
          else out_phase (\<lambda>k. rnd (Suc k)) n host bus u)))"

lemma out_phase_done: "x_type (h_xfer host) = UpACK \<Longrightarrow> out_phase rnd n host bus u = Inr (0, host, bus, u)"
  by (cases n) simp_all

text \<open>
  \<open>sends h m n s s'\<close>: whatever the random numbers and the cycle counter are, the host gets from
  transfer, bus and heard bytes \<open>s\<close> to \<open>s'\<close> in at least \<open>m\<close> and at most \<open>n\<close> clocks
  that return 0.
\<close>

definition sends :: "usb_host_t \<Rightarrow> nat \<Rightarrow> nat \<Rightarrow> transfer_t \<times> ulpi_bus_t \<times> u8 list
    \<Rightarrow> transfer_t \<times> ulpi_bus_t \<times> u8 list \<Rightarrow> bool" where
  "sends h m n = (\<lambda>(x, b, u) (x', b', u'). \<forall>rnd c. \<exists>k. m \<le> k \<and> k \<le> n \<and>
     (\<forall>l. out_phase rnd (k + l) (busy h x c) b u =
        out_phase (\<lambda>i. rnd (k + i)) l (busy h x' (c + of_nat k)) b' u'))"

lemma sends_refl: "sends h 0 0 s s"
  by (auto simp: sends_def split: prod.splits)

lemma sends_trans:
  assumes "sends h m n s s1" and "sends h m' n' s1 s2"
  shows "sends h (m + m') (n + n') s s2"
proof -
  obtain x b u x1 b1 u1 x2 b2 u2 where s: "s = (x, b, u)" "s1 = (x1, b1, u1)" "s2 = (x2, b2, u2)"
    by (cases s; cases s1; cases s2)
  show ?thesis
    unfolding s sends_def prod.case
  proof (intro allI)
    fix rnd c
    obtain k where k: "m \<le> k" "k \<le> n" and
      1: "\<And>l. out_phase rnd (k + l) (busy h x c) b u =
        out_phase (\<lambda>i. rnd (k + i)) l (busy h x1 (c + of_nat k)) b1 u1"
      using assms(1) unfolding s sends_def prod.case by blast
    obtain k' where k': "m' \<le> k'" "k' \<le> n'" and
      2: "\<And>l. out_phase (\<lambda>i. rnd (k + i)) (k' + l) (busy h x1 (c + of_nat k)) b1 u1 =
        out_phase (\<lambda>i. rnd (k + (k' + i))) l (busy h x2 (c + of_nat k + of_nat k')) b2 u2"
      using assms(2) unfolding s sends_def prod.case by blast
    have "out_phase rnd (k + k' + l) (busy h x c) b u =
        out_phase (\<lambda>i. rnd (k + k' + i)) l (busy h x2 (c + of_nat (k + k'))) b2 u2" for l
      using 1 [of "k' + l"] 2 [of l] by (simp add: add.assoc)
    then show "\<exists>j. m + m' \<le> j \<and> j \<le> n + n' \<and> (\<forall>l. out_phase rnd (j + l) (busy h x c) b u =
        out_phase (\<lambda>i. rnd (j + i)) l (busy h x2 (c + of_nat j)) b2 u2)"
      using k k' by (intro exI [of _ "k + k'"]) simp
  qed
qed

lemma out_phase_clock:
  assumes "h_op h = HostBulkOUT" and "u_rst_n b \<noteq> SIG0" and "x_type x \<noteq> UpACK"
    and "bulk_out_step (rnd 0) (busy h x (c + 1)) b b = Inr (0, busy h x' (c + 1), b')"
    and "listen u b' b' = Inr (0, u', b')"
  shows "out_phase rnd (1 + l) (busy h x c) b u = out_phase (\<lambda>i. rnd (1 + i)) l (busy h x' (c + 1)) b' u'"
  using assms by (simp add: bulk_clock)

lemma sends_clock:
  assumes "h_op h = HostBulkOUT" and "u_rst_n b \<noteq> SIG0" and "x_type x \<noteq> UpACK"
    and "\<And>rnd c. bulk_out_step rnd (busy h x c) b b = Inr (0, busy h x' c, b')"
    and "listen u b' b' = Inr (0, u', b')"
  shows "sends h 1 1 (x, b, u) (x', b', u')"
  unfolding sends_def prod.case
  using out_phase_clock [OF assms(1-3) assms(4) assms(5)] by (intro allI exI [of _ 1]) simp

text \<open>A clock that may be preceded by a pause.\<close>

lemma sends_pause:
  assumes "h_op h = HostBulkOUT" and "u_rst_n b \<noteq> SIG0" and "u_rst_n p \<noteq> SIG0" and "x_type x \<noteq> UpACK"
    and "\<And>rnd c. bulk_out_step rnd (busy h x c) b b = Inr (0, busy h x c, p) \<or>
      bulk_out_step rnd (busy h x c) b b = Inr (0, busy h x' c, b')"
    and "\<And>rnd c. bulk_out_step rnd (busy h x c) p p = Inr (0, busy h x' c, b')"
    and "listen u b' b' = Inr (0, u', b')" and "listen u p p = Inr (0, u, p)"
  shows "sends h 1 2 (x, b, u) (x', b', u')"
  unfolding sends_def prod.case
proof (intro allI)
  fix rnd :: "nat \<Rightarrow> u32" and c
  note clock = out_phase_clock [OF assms(1) _ assms(4)]
  show "\<exists>k. 1 \<le> k \<and> k \<le> 2 \<and> (\<forall>l. out_phase rnd (k + l) (busy h x c) b u =
      out_phase (\<lambda>i. rnd (k + i)) l (busy h x' (c + of_nat k)) b' u')"
  proof (cases "bulk_out_step (rnd 0) (busy h x (c + 1)) b b = Inr (0, busy h x (c + 1), p)")
    case True
    have "out_phase rnd (2 + l) (busy h x c) b u =
        out_phase (\<lambda>i. rnd (2 + i)) l (busy h x' (c + 2)) b' u'" for l
      using clock [of b rnd c x p u u "1 + l"]
        clock [of p "\<lambda>i. rnd (1 + i)" "c + 1" x' b' u u' l] True assms(2,3,6-8)
      by (simp add: add.assoc)
    then show ?thesis by (intro exI [of _ 2]) simp
  next
    case False
    then have "bulk_out_step (rnd 0) (busy h x (c + 1)) b b = Inr (0, busy h x' (c + 1), b')"
      using assms(5) by blast
    then show ?thesis using clock [of b rnd c x' b' u u'] assms(2,7) by (intro exI [of _ 1]) simp
  qed
qed

subsection \<open>Turns of a step-function as clocks of the transaction\<close>

lemma token_type: "token_send_step x b out = Inr (0, x', out') \<Longrightarrow> x_type x' = x_type x"
  by (auto simp: token_send_step_def drive_eop_def Let_def split: if_splits)

lemma datax_type: "datax_send_step x b out = Inr (0, x', out') \<Longrightarrow> x_type x' = x_type x \<and> x_tx_len x' = x_tx_len x"
  by (auto simp: datax_send_step_def drive_eop_def Let_def bind_c_eq_Inr split: if_splits)

lemma datax_keeps_rst: "datax_send_step x b b = Inr (r, x', b') \<Longrightarrow> u_rst_n b' = u_rst_n b"
  by (auto simp: datax_send_step_def drive_eop_def Let_def bind_c_eq_Inr split: if_splits)

lemma token_turns_send:
  assumes "h_op h = HostBulkOUT"
  shows "turns n token_send_step listen (x, b, b, u) = Some (x', b', b'', u') \<Longrightarrow> x_type x = OUT \<Longrightarrow>
    u_rst_n b \<noteq> SIG0 \<Longrightarrow> sends h n n (x, b, u) (x', b', u')"
proof (induction n arbitrary: x b u)
  case 0
  then show ?case by (simp add: sends_refl)
next
  case (Suc n)
  from Suc.prems(1) obtain x1 b1 o1 u1 where t: "turn token_send_step listen (x, b, b, u) = Some (x1, b1, o1, u1)"
    and ts: "turns n token_send_step listen (x1, b1, o1, u1) = Some (x', b', b'', u')"
    by (auto simp: bind_eq_Some_conv)
  note step = turn_listen [OF t]
  have "sends h 1 1 (x, b, u) (x1, b1, u1)"
    by (rule sends_clock [OF assms Suc.prems(3) _ _ step(3)])
      (use step(1) Suc.prems(2) in \<open>simp_all add: bulk_out_step_def\<close>)
  moreover have "sends h n n (x1, b1, u1) (x', b', u')"
    using Suc.IH [of x1 b1 u1] ts step token_type [OF step(1)] token_keeps_rst [of b x] Suc.prems(2,3) by simp
  ultimately show ?case using sends_trans [of h 1 1 _ _ n n] by fastforce
qed

lemma datax_turn_send:
  assumes "h_op h = HostBulkOUT" and "turn datax_send_step listen (x, b, b, u) = Some (x', b', b'', u')"
    and "x_type x \<in> {DnDATA0, DnDATA1}" and "u_rst_n b \<noteq> SIG0"
    and "\<not> (x_tx_ptr x < x_tx_len x \<and> u_nxt b = SIG1)"
  shows "sends h 1 1 (x, b, u) (x', b', u')"
proof -
  note step = turn_listen [OF assms(2)]
  show ?thesis
    by (rule sends_clock [OF assms(1,4) _ _ step(3)]) (use step(1) assms(3,5) in \<open>auto simp: bulk_out_step_def\<close>)
qed

text \<open>The bus in a pause, which is also that of the RX CMD before a packet.\<close>

definition paused :: "ulpi_bus_t \<Rightarrow> u8 \<Rightarrow> ulpi_bus_t" where
  "paused bus z = set_b z (set_a 0x5D ((ulpi_bus_idle bus)\<lparr>u_dir := SIG1, u_nxt := SIG0\<rparr>))"

lemma paused_simps [simp]:
  "u_clock (paused bus z) = SIG1" "u_rst_n (paused bus z) = SIG1" "u_dir (paused bus z) = SIG1"
  "u_stp (paused bus z) = SIG0" "u_nxt (paused bus z) = SIG0" "data_a (paused bus z) = 0x5D"
  "data_b (paused bus z) = z"
  by (simp_all add: paused_def)

lemma released_rst [simp]: "u_rst_n (bus_released bus) = SIG1"
  by (simp add: bus_released_def)

lemma listen_paused: "listen u (paused bus z) (paused bus z) = Inr (0, u, paused bus z)"
  by (simp add: listen_def)

lemma listen_driven: "listen u (driven bus b) (driven bus b) = Inr (0, u @ [b], driven bus b)"
  by (simp add: listen_def)

lemma paused_eqI:
  "\<lbrakk>u_clock c = SIG1; u_rst_n c = SIG1; u_dir c = SIG1; u_stp c = SIG0; u_nxt c = SIG0;
    data_a c = 0x5D; data_b c = z\<rbrakk> \<Longrightarrow> c = paused bus z"
  by (rule bus_eqI) simp_all

text \<open>A clock that sends the next data byte.\<close>

lemma byte_send:
  assumes "h_op h = HostBulkOUT" and "sending x" and "x_tx_ptr x = int p" and "int p < x_tx_len x"
    and "s \<in> {DATAxPID, DATAxBody}"
  shows "sends h 1 2 (x\<lparr>x_stage := s\<rparr>, driven bus b, u)
    (x\<lparr>x_stage := DATAxBody, x_tx_ptr := int (Suc p)\<rparr>, driven bus (x_tx x ! p), u @ [x_tx x ! p])"
proof (rule sends_pause [where p = "paused bus 0x00"])
  let ?x' = "x\<lparr>x_stage := DATAxBody, x_tx_ptr := int (Suc p)\<rparr>" and ?b' = "driven bus (x_tx x ! p)"
  have data: "datax_send_step (x\<lparr>x_stage := s\<rparr>) c c = Inr (0, ?x', ?b')"
    if "c = driven bus b \<or> c = paused bus 0x00" for c
    using assms that
    by (auto simp: datax_send_step_def sending_def check_seq_def data_pid_def Let_def aget_def intro!: driven_eqI)
  have ty: "x_type x \<in> {DnDATA0, DnDATA1}" "x_tx_ptr x < x_tx_len x" using assms(2-4) by (simp_all add: sending_def)
  have pause: "set_a 0x5D ((driven bus b)\<lparr>u_nxt := SIG0\<rparr>) = paused bus 0x00" by (rule paused_eqI) simp_all
  show "bulk_out_step rnd (busy h (x\<lparr>x_stage := s\<rparr>) c) (driven bus b) (driven bus b) =
        Inr (0, busy h (x\<lparr>x_stage := s\<rparr>) c, paused bus 0x00) \<or>
      bulk_out_step rnd (busy h (x\<lparr>x_stage := s\<rparr>) c) (driven bus b) (driven bus b) =
        Inr (0, busy h ?x' c, ?b')" for rnd c
    using ty data [of "driven bus b"] pause by (auto simp: bulk_out_step_def Let_def)
  show "bulk_out_step rnd (busy h (x\<lparr>x_stage := s\<rparr>) c) (paused bus 0x00) (paused bus 0x00) =
      Inr (0, busy h ?x' c, ?b')" for rnd c
    using ty data [of "paused bus 0x00"] by (auto simp: bulk_out_step_def Let_def)
qed (use assms(2) in \<open>auto simp: sending_def assms(1) listen_paused listen_driven\<close>)

lemma bytes_send:
  assumes "h_op h = HostBulkOUT" and "sending x" and "x_tx_ptr x = int p" and "int (p + k) \<le> x_tx_len x"
  shows "\<exists>c. sends h k (2 * k) (x\<lparr>x_stage := DATAxBody\<rparr>, driven bus b, u)
    (x\<lparr>x_stage := DATAxBody, x_tx_ptr := int (p + k)\<rparr>, driven bus c, u @ take k (drop p (x_tx x)))"
  using assms(2-4)
proof (induction k arbitrary: x p b u)
  case 0
  then have "x\<lparr>x_stage := DATAxBody, x_tx_ptr := int p\<rparr> = x\<lparr>x_stage := DATAxBody\<rparr>" by (cases x) simp
  then show ?case using sends_refl [of h "(x\<lparr>x_stage := DATAxBody\<rparr>, driven bus b, u)"]
    by (intro exI [of _ b]) simp
next
  case (Suc k)
  let ?y = "x\<lparr>x_tx_ptr := int (Suc p)\<rparr>" and ?d = "x_tx x ! p"
  have y: "sending ?y" using Suc.prems by (simp add: sending_def check_seq_def data_pid_def)
  have p: "p < length (x_tx x)" using Suc.prems by (simp add: sending_def)
  have 1: "sends h 1 2 (x\<lparr>x_stage := DATAxBody\<rparr>, driven bus b, u)
      (?y\<lparr>x_stage := DATAxBody\<rparr>, driven bus ?d, u @ [?d])"
    using byte_send [OF assms(1) Suc.prems(1,2)] Suc.prems(3) by (simp add: ptr_stage_commute)
  obtain c where 2: "sends h k (2 * k) (?y\<lparr>x_stage := DATAxBody\<rparr>, driven bus ?d, u @ [?d])
      (?y\<lparr>x_stage := DATAxBody, x_tx_ptr := int (Suc p + k)\<rparr>, driven bus c,
       (u @ [?d]) @ take k (drop (Suc p) (x_tx x)))"
    using Suc.IH [OF y, of "Suc p" ?d "u @ [?d]"] Suc.prems by auto
  have "take (Suc k) (drop p (x_tx x)) = ?d # take k (drop (Suc p) (x_tx x))"
    using p by (simp add: Cons_nth_drop_Suc [symmetric])
  then show ?case using sends_trans [OF 1 2] by (intro exI [of _ c]) simp
qed

subsection \<open>The data packet\<close>

lemma data_start_send:
  assumes "h_op h = HostBulkOUT" and "sending x"
  shows "sends h 3 4 (x\<lparr>x_stage := NoXfer\<rparr>, bus_released bus, u)
    (x\<lparr>x_stage := DATAxPID\<rparr>, driven bus (data_pid x), u @ [data_pid x])"
proof -
  let ?b1 = "set_b 0xFF (set_a 0x00 ((ulpi_bus_idle bus)\<lparr>u_dir := SIG1, u_nxt := SIG1\<rparr>))"
  let ?x1 = "x\<lparr>x_stage := AssertDir\<rparr>" and ?x2 = "x\<lparr>x_stage := InitRXCMD\<rparr>"
  have ty: "x_type x \<in> {DnDATA0, DnDATA1}" using assms(2) by (simp add: sending_def)
  have a: "sends h 1 1 (x\<lparr>x_stage := NoXfer\<rparr>, bus_released bus, u) (?x1, ?b1, u)"
    by (rule datax_turn_send [OF assms(1)])
      (use assms(2) in \<open>auto simp: datax_turn\<close>)
  have b: "sends h 1 2 (?x1, ?b1, u) (?x2, paused bus 0x00, u)"
  proof (rule sends_pause [where p = "paused bus 0xFF"])
    have data: "datax_send_step ?x1 c c = Inr (0, ?x2, paused bus 0x00)" if "c = ?b1 \<or> c = paused bus 0xFF" for c
      using assms(2) that by (auto simp: datax_turn intro!: paused_eqI)
    have pause: "set_a 0x5D (?b1\<lparr>u_nxt := SIG0\<rparr>) = paused bus 0xFF" by (rule paused_eqI) simp_all
    show "bulk_out_step rnd (busy h ?x1 c) (paused bus 0xFF) (paused bus 0xFF) =
        Inr (0, busy h ?x2 c, paused bus 0x00)" for rnd c
      using ty data [of "paused bus 0xFF"] by (auto simp: bulk_out_step_def Let_def)
    show "bulk_out_step rnd (busy h ?x1 c) ?b1 ?b1 = Inr (0, busy h ?x1 c, paused bus 0xFF) \<or>
      bulk_out_step rnd (busy h ?x1 c) ?b1 ?b1 = Inr (0, busy h ?x2 c, paused bus 0x00)" for rnd c
      using ty data [of ?b1] pause by (auto simp: bulk_out_step_def Let_def)
  qed (use ty in \<open>auto simp: assms(1) listen_paused listen_def\<close>)
  have c: "sends h 1 1 (?x2, paused bus 0x00, u) (x\<lparr>x_stage := DATAxPID\<rparr>, driven bus (data_pid x), u @ [data_pid x])"
  proof (rule sends_clock [OF assms(1)])
    have "datax_send_step ?x2 (paused bus 0x00) (paused bus 0x00) =
        Inr (0, x\<lparr>x_stage := DATAxPID\<rparr>, driven bus (data_pid x))"
      using assms(2)
      by (auto simp: datax_send_step_def sending_def check_seq_def data_pid_def Let_def intro!: driven_eqI)
    then show "bulk_out_step rnd (busy h ?x2 c) (paused bus 0x00) (paused bus 0x00) =
        Inr (0, busy h (x\<lparr>x_stage := DATAxPID\<rparr>) c, driven bus (data_pid x))" for rnd c
      using ty by (auto simp: bulk_out_step_def Let_def)
  qed (use ty in \<open>auto simp: listen_driven\<close>)
  have n: "(3::nat) = 1 + (1 + 1)" "(4::nat) = 1 + (2 + 1)" by simp_all
  show ?thesis unfolding n by (rule sends_trans [OF a sends_trans [OF b c]])
qed

lemma datax_done: "datax_send_step x b out = Inr (0, x', out') \<Longrightarrow> x_tx_len x \<le> x_tx_ptr x \<Longrightarrow>
    x_tx_len x' \<le> x_tx_ptr x'"
  by (auto simp: datax_send_step_def drive_eop_def Let_def bind_c_eq_Inr split: if_splits)

lemma datax_turns_send:
  assumes "h_op h = HostBulkOUT"
  shows "turns n datax_send_step listen (x, b, b, u) = Some (x', b', b'', u') \<Longrightarrow> x_type x \<in> {DnDATA0, DnDATA1} \<Longrightarrow>
    x_tx_len x \<le> x_tx_ptr x \<Longrightarrow> u_rst_n b \<noteq> SIG0 \<Longrightarrow> sends h n n (x, b, u) (x', b', u')"
proof (induction n arbitrary: x b u)
  case 0
  then show ?case by (simp add: sends_refl)
next
  case (Suc n)
  from Suc.prems(1) obtain x1 b1 o1 u1 where t: "turn datax_send_step listen (x, b, b, u) = Some (x1, b1, o1, u1)"
    and ts: "turns n datax_send_step listen (x1, b1, o1, u1) = Some (x', b', b'', u')"
    by (auto simp: bind_eq_Some_conv)
  note step = turn_listen [OF t]
  have 1: "sends h 1 1 (x, b, u) (x1, b1, u1)"
    by (rule datax_turn_send [OF assms t Suc.prems(2,4)]) (use Suc.prems(3) in simp)
  have 2: "sends h n n (x1, b1, u1) (x', b', u')"
    using Suc.IH [of x1 b1 u1] ts step datax_type [OF step(1)] datax_keeps_rst [OF step(1)]
      datax_done [OF step(1)] Suc.prems(2-4) by simp
  show ?case using sends_trans [OF 1 2] by simp
qed

lemma data_body_send:
  assumes "h_op h = HostBulkOUT" and x: "sending x" and ptr: "x_tx_ptr x = 0" and len: "x_tx_len x = int n"
  shows "\<exists>c. sends h (n + 1) (2 * n + 1) (x\<lparr>x_stage := DATAxPID\<rparr>, driven bus b, u)
    (x\<lparr>x_stage := DATAxCRC1, x_tx_ptr := int n\<rparr>, driven bus c, u @ butlast (data_bytes x))"
proof (cases n)
  case 0
  have "x\<lparr>x_stage := DATAxCRC1, x_tx_ptr := int n\<rparr> = x\<lparr>x_stage := DATAxCRC1\<rparr>"
    using ptr 0 by (cases x) simp
  moreover have "sends h 1 1 (x\<lparr>x_stage := DATAxPID\<rparr>, driven bus b, u)
      (x\<lparr>x_stage := DATAxCRC1\<rparr>, driven bus 0x00, u @ [0x00])"
    by (rule datax_turns_send [OF assms(1) data_zero_turns [OF x]])
      (use x ptr len 0 in \<open>auto simp: sending_def\<close>)
  ultimately show ?thesis using 0 len by (auto simp: data_bytes_def)
next
  case (Suc k)
  let ?d = "x_tx x ! 0" and ?y = "x\<lparr>x_tx_ptr := int 1\<rparr>" and ?z = "x\<lparr>x_tx_ptr := int n\<rparr>"
  have y: "sending ?y" and z: "sending ?z" using x by (simp_all add: sending_def check_seq_def data_pid_def)
  have tx: "n \<le> length (x_tx x)" using x len by (simp add: sending_def)
  have 1: "sends h 1 2 (x\<lparr>x_stage := DATAxPID\<rparr>, driven bus b, u) (?y\<lparr>x_stage := DATAxBody\<rparr>, driven bus ?d, u @ [?d])"
    using byte_send [OF assms(1) x, of 0 DATAxPID bus b u] ptr len Suc by (simp add: ptr_stage_commute)
  obtain c where "sends h k (2 * k) (?y\<lparr>x_stage := DATAxBody\<rparr>, driven bus ?d, u @ [?d])
      (?y\<lparr>x_stage := DATAxBody, x_tx_ptr := int (1 + k)\<rparr>, driven bus c, (u @ [?d]) @ take k (drop 1 (x_tx x)))"
    using bytes_send [OF assms(1) y, of 1 k bus ?d "u @ [?d]"] len Suc by auto
  then have 2: "sends h k (2 * k) (?y\<lparr>x_stage := DATAxBody\<rparr>, driven bus ?d, u @ [?d])
      (?z\<lparr>x_stage := DATAxBody\<rparr>, driven bus c, u @ take n (x_tx x))"
    using tx Suc by (cases "x_tx x") (simp_all add: ptr_stage_commute)
  have "turn datax_send_step listen (?z\<lparr>x_stage := DATAxBody\<rparr>, driven bus c, driven bus c, u @ take n (x_tx x)) =
      Some (?z\<lparr>x_stage := DATAxCRC1\<rparr>, driven bus (x_crc1 x), driven bus (x_crc1 x), (u @ take n (x_tx x)) @ [x_crc1 x])"
    using data_crc1_turn [OF z, of bus c "u @ take n (x_tx x)"] len by simp
  then have 3: "sends h 1 1 (?z\<lparr>x_stage := DATAxBody\<rparr>, driven bus c, u @ take n (x_tx x))
      (?z\<lparr>x_stage := DATAxCRC1\<rparr>, driven bus (x_crc1 x), (u @ take n (x_tx x)) @ [x_crc1 x])"
    by (rule datax_turn_send [OF assms(1)]) (use x len in \<open>auto simp: sending_def\<close>)
  have "nat (x_tx_len x) = n" and "x_tx_len x > 0" using len Suc by simp_all
  then have "data_bytes x = take n (x_tx x) @ [x_crc1 x, x_crc2 x]" by (simp add: data_bytes_def)
  then show ?thesis
    using sends_trans [OF sends_trans [OF 1 2] 3] Suc
    by (intro exI [of _ "x_crc1 x"]) (simp add: butlast_append ptr_stage_commute)
qed

lemma data_phase:
  assumes "h_op h = HostBulkOUT" and x: "sending x" "x_tx_ptr x = 0" "x_tx_len x = int n" "x_stage x = NoXfer"
  shows "sends h (n + 8) (2 * n + 9) (x, bus_released bus, u)
    (x\<lparr>x_stage := LineIdle, x_tx_ptr := int n\<rparr>, bus_released bus, u @ data_pid x # data_bytes x)"
proof -
  let ?z = "x\<lparr>x_stage := DATAxCRC1, x_tx_ptr := int n\<rparr>" and ?u = "u @ [data_pid x]"
  have x0: "x\<lparr>x_stage := NoXfer\<rparr> = x" using x(4) by (cases x) simp
  have z: "sending ?z" using x(1) by (simp add: sending_def check_seq_def data_pid_def)
  have 1: "sends h 3 4 (x, bus_released bus, u) (x\<lparr>x_stage := DATAxPID\<rparr>, driven bus (data_pid x), ?u)"
    using data_start_send [OF assms(1) x(1)] x0 by simp
  obtain c where 2: "sends h (n + 1) (2 * n + 1) (x\<lparr>x_stage := DATAxPID\<rparr>, driven bus (data_pid x), ?u)
      (?z, driven bus c, ?u @ butlast (data_bytes x))"
    using data_body_send [OF assms(1) x(1-3)] by blast
  have "turns 4 datax_send_step listen (?z, driven bus c, driven bus c, ?u @ butlast (data_bytes x)) =
      Some (?z\<lparr>x_stage := LineIdle\<rparr>, bus_released bus, bus_released bus, (?u @ butlast (data_bytes x)) @ [x_crc2 x])"
    using data_tail_turns [OF z, of bus c] x(3) by simp
  then have 3: "sends h 4 4 (?z, driven bus c, ?u @ butlast (data_bytes x))
      (?z\<lparr>x_stage := LineIdle\<rparr>, bus_released bus, (?u @ butlast (data_bytes x)) @ [x_crc2 x])"
    by (rule datax_turns_send [OF assms(1)]) (use x in \<open>auto simp: sending_def\<close>)
  have "data_bytes x = butlast (data_bytes x) @ [x_crc2 x]" by (simp add: data_bytes_def butlast_append)
  then have u: "(?u @ butlast (data_bytes x)) @ [x_crc2 x] = u @ data_pid x # data_bytes x" by simp
  have "?z\<lparr>x_stage := LineIdle\<rparr> = x\<lparr>x_stage := LineIdle, x_tx_ptr := int n\<rparr>" by (cases x) simp
  moreover have "3 + (n + 1) + 4 = n + 8" "4 + (2 * n + 1) + 4 = 2 * n + 9" by simp_all
  ultimately show ?thesis using sends_trans [OF sends_trans [OF 1 2] 3] unfolding u by metis
qed

subsection \<open>The token\<close>

definition data_turn :: "transfer_t \<Rightarrow> transfer_t" where
  "data_turn x = x\<lparr>x_type := (if x_ep_seq x ! unat (x_endpoint x) = SIG0 then DnDATA0 else DnDATA1),
     x_stage := NoXfer\<rparr>"

lemma token_phase:
  assumes "h_op h = HostBulkOUT" and x: "x_type x = OUT" "x_stage x = NoXfer" "x_endpoint x < 16" "length (x_ep_seq x) = 16"
  shows "sends h 9 9 (x, ulpi_bus_idle bus, u) (data_turn x, bus_released bus, u @ [0xE1, x_tok1 x, x_tok2 x])"
proof -
  have ty: "x_type x \<in> {SETUP, OUT, IN, SOF}" using x(1) by simp
  have pid: "transfer_type_to_pid x = 0xE1" using x(1) by (simp add: transfer_type_to_pid_def xfer_order)
  have t: "turns 8 token_send_step listen (x, ulpi_bus_idle bus, ulpi_bus_idle bus, u) =
      Some (x\<lparr>x_stage := LineIdle\<rparr>, bus_released bus, bus_released bus, u @ [0xE1, x_tok1 x, x_tok2 x])"
    using token_turns [OF ty x(2)] pid by simp
  have 1: "sends h 8 8 (x, ulpi_bus_idle bus, u)
      (x\<lparr>x_stage := LineIdle\<rparr>, bus_released bus, u @ [0xE1, x_tok1 x, x_tok2 x])"
    by (rule token_turns_send [OF assms(1) t x(1)]) simp
  have e: "unat (x_endpoint x) < 16" using x(3) by (simp add: word_less_nat_alt)
  have 2: "sends h 1 1 (x\<lparr>x_stage := LineIdle\<rparr>, bus_released bus, v) (data_turn x, bus_released bus, v)" for v
  proof (rule sends_clock [OF assms(1)])
    show "bulk_out_step rnd (busy h (x\<lparr>x_stage := LineIdle\<rparr>) c) (bus_released bus) (bus_released bus) =
        Inr (0, busy h (data_turn x) c, bus_released bus)" for rnd c
      using token_last [of "x\<lparr>x_stage := LineIdle\<rparr>" bus "bus_released bus"] x e
      by (simp add: bulk_out_step_def aget_def data_turn_def xfer_order flip: unat_eq_nat_uint)
  qed (use x in \<open>simp_all add: listen_released\<close>)
  show ?thesis using sends_trans [OF 1 2] by simp
qed

subsection \<open>From the token to the wait for the handshake\<close>

text \<open>The host when its packet is out, \<open>n\<close> data bytes long, and it has counted \<open>c\<close> cycles.\<close>

definition await_handshake :: "usb_host_t \<Rightarrow> nat \<Rightarrow> u64 \<Rightarrow> usb_host_t" where
  "await_handshake h n c = busy h ((h_xfer h)\<lparr>x_type := UpACK, x_stage := NoXfer, x_tx_ptr := int n,
     x_cycle := ucast (c + TURNAROUND_TIMER)\<rparr>) c"

definition out_ready :: "nat \<Rightarrow> usb_host_t \<Rightarrow> bool" where
  "out_ready n h \<longleftrightarrow> (let x = h_xfer h in
     h_op h = HostBulkOUT \<and> x_type x = OUT \<and> x_stage x = NoXfer \<and> x_endpoint x < 16 \<and> arrays_ok x \<and>
     x_ep_seq x ! unat (x_endpoint x) \<in> {SIG0, SIG1} \<and> x_tx_ptr x = 0 \<and> x_tx_len x = int n \<and>
     n \<le> MAX_PACKET_SIZE)"

definition out_bytes :: "transfer_t \<Rightarrow> u8 list" where
  "out_bytes x = [0xE1, x_tok1 x, x_tok2 x,
     if x_ep_seq x ! unat (x_endpoint x) = SIG0 then 0xC3 else 0x4B] @ data_bytes x"

lemma data_turn_simps [simp]:
  "data_bytes (data_turn x) = data_bytes x" "x_tx_ptr (data_turn x) = x_tx_ptr x"
  "x_tx_len (data_turn x) = x_tx_len x" "x_stage (data_turn x) = NoXfer"
  "data_pid (data_turn x) = (if x_ep_seq x ! unat (x_endpoint x) = SIG0 then 0xC3 else 0x4B)"
  by (simp_all add: data_turn_def data_bytes_def data_pid_def)

lemma low_nibble: "(e :: u8) < 16 \<Longrightarrow> e AND 0x0F = e"
proof -
  assume "e < 16"
  then have "take_bit 4 (unat e) = unat e" by (simp add: word_less_nat_alt take_bit_nat_eq_self)
  then have "unat (take_bit 4 e) = unat e" by (simp add: unsigned_take_bit_eq)
  then have "take_bit 4 e = e" by (rule unsigned_word_eqI)
  then show ?thesis by (simp add: take_bit_eq_mask mask_eq_exp_minus_1)
qed

lemma sending_data_turn: "out_ready n h \<Longrightarrow> sending (data_turn (h_xfer h))"
proof -
  assume r: "out_ready n h"
  then have "x_endpoint (h_xfer h) AND 0x0F = x_endpoint (h_xfer h)"
    by (intro low_nibble) (simp add: out_ready_def Let_def)
  then show ?thesis using r
    by (auto simp: out_ready_def sending_def data_turn_def check_seq_def data_pid_def Let_def arrays_ok_def)
qed

lemma out_last:
  assumes "h_op h = HostBulkOUT" and "sending x" and "x_tx_ptr x = int n" and "x_tx_len x = int n"
    and "x_stage x = LineIdle"
  shows "out_phase rnd (Suc l) (busy h x c) (bus_released bus) u = Inr (0,
    busy h (x\<lparr>x_type := UpACK, x_stage := NoXfer, x_cycle := ucast (c + 1 + TURNAROUND_TIMER)\<rparr>) (c + 1),
    bus_released bus, u)"
proof -
  have "datax_send_step x (bus_released bus) (bus_released bus) =
      Inr (1, x\<lparr>x_type := XferIdle, x_stage := NoXfer\<rparr>, bus_released bus)"
    using assms(2,5) by (auto simp: datax_turn)
  then have "bulk_out_step r (busy h x c) (bus_released bus) (bus_released bus) = Inr (0,
      busy h (x\<lparr>x_type := UpACK, x_stage := NoXfer, x_cycle := ucast (c + TURNAROUND_TIMER)\<rparr>) c,
      bus_released bus)" for r c
    using assms(2-4) by (auto simp: bulk_out_step_def sending_def deadline_def)
  moreover have "x_type x \<noteq> UpACK" using assms(2) by (auto simp: sending_def)
  ultimately show ?thesis
    using out_phase_clock [OF assms(1), where l = l] assms(1)
    by (simp add: bulk_clock listen_released out_phase_done add.assoc)
qed

lemma out_phase_runs:
  assumes "out_ready n h" and "2 * n + 19 \<le> fuel"
  shows "\<exists>k \<ge> n + 18. k \<le> 2 * n + 19 \<and> out_phase rnd fuel h (ulpi_bus_idle bus) [] =
    Inr (0, await_handshake h n (h_cycle h + of_nat k), bus_released bus, out_bytes (h_xfer h))"
proof -
  let ?x = "h_xfer h"
  have op: "h_op h = HostBulkOUT" and x: "x_type ?x = OUT" "x_stage ?x = NoXfer" "x_endpoint ?x < 16"
      "length (x_ep_seq ?x) = 16" and p: "x_tx_ptr ?x = 0" "x_tx_len ?x = int n"
    using assms(1) by (simp_all add: out_ready_def Let_def arrays_ok_def)
  let ?y = "(data_turn ?x)\<lparr>x_stage := LineIdle, x_tx_ptr := int n\<rparr>"
  note sd = sending_data_turn [OF assms(1)]
  have y: "sending ?y" using sd by (simp add: sending_def check_seq_def data_pid_def)
  have "sends h (n + 17) (2 * n + 18) (?x, ulpi_bus_idle bus, []) (?y, bus_released bus, out_bytes ?x)"
    using sends_trans [OF token_phase [OF op x, of bus "[]"] data_phase [OF op sd, of n bus]] p
    by (simp add: out_bytes_def add.commute [of _ n] add.commute [of _ "2 * n"])
  then obtain k where k: "n + 17 \<le> k" "k \<le> 2 * n + 18" and
    run: "\<And>l. out_phase rnd (k + l) (busy h ?x (h_cycle h)) (ulpi_bus_idle bus) [] =
      out_phase (\<lambda>i. rnd (k + i)) l (busy h ?y (h_cycle h + of_nat k)) (bus_released bus) (out_bytes ?x)"
    unfolding sends_def prod.case by blast
  have "\<exists>l. fuel = k + Suc l" using k assms(2) by (intro exI [of _ "fuel - k - 1"]) simp
  then obtain l where l: "fuel = k + Suc l" ..
  have c: "h_cycle h + of_nat k + 1 = h_cycle h + of_nat (Suc k)" by simp
  have "?y\<lparr>x_type := UpACK, x_stage := NoXfer, x_cycle := z\<rparr> =
      ?x\<lparr>x_type := UpACK, x_stage := NoXfer, x_tx_ptr := int n, x_cycle := z\<rparr>" for z
    by (cases ?x) (simp add: data_turn_def)
  then have "out_phase (\<lambda>i. rnd (k + i)) (Suc l) (busy h ?y (h_cycle h + of_nat k)) (bus_released bus)
      (out_bytes ?x) =
    Inr (0, await_handshake h n (h_cycle h + of_nat (Suc k)), bus_released bus, out_bytes ?x)"
    using out_last [OF op y, where n = n] p unfolding await_handshake_def c [symmetric]
    by (simp del: out_phase.simps of_nat_Suc)
  then have "out_phase rnd fuel h (ulpi_bus_idle bus) [] =
      Inr (0, await_handshake h n (h_cycle h + of_nat (Suc k)), bus_released bus, out_bytes ?x)"
    using run [of "Suc l"] unfolding l busy_self by (rule trans [rotated])
  then show ?thesis using k by (intro exI [of _ "Suc k"]) simp
qed

end
