(* ===== verification/Testcase.thy ===== *)
theory Testcase
  imports Usbhost
begin

text \<open>
  What the test-cases \<open>src/vpi/tc_*.c\<close> share: the end-points of \<open>src/vpi/testcase.h\<close>, the
  setting-up of a token, the random contents of a packet, and the contract of a test-case with
  the test-bench that steps it. A routine that calls \<open>rand()\<close> takes the results of its calls,
  in order, as \<open>rnd 0\<close>, \<open>rnd 1\<close> and so on; a routine that allocates takes the address.
\<close>

abbreviation BULK_IN_EP :: u8 where "BULK_IN_EP \<equiv> 1"
abbreviation DDR3_IN_EP :: u8 where "DDR3_IN_EP \<equiv> 3"
abbreviation BULK_OUT_EP :: u8 where "BULK_OUT_EP \<equiv> 2"
abbreviation DDR3_OUT_EP :: u8 where "DDR3_OUT_EP \<equiv> 5"

type_synonym rand_t = "nat \<Rightarrow> u32"

type_synonym 'd tc_result = "(int \<times> usb_host_t \<times> 'd) outcome"

text \<open>
  The lines every bulk test-case starts with: operation, transfer type, addressing and token.
\<close>

definition start_bulk :: "host_op \<Rightarrow> xfer_type \<Rightarrow> u8 \<Rightarrow> usb_host_t \<Rightarrow> usb_host_t" where
  "start_bulk op ty ep host =
     (let tok = crc5_calc (token_payload (h_addr host) ep) in
      (with_xfer host
        ((h_xfer host)\<lparr>x_type := ty, x_stage := NoXfer, x_address := h_addr host,
           x_endpoint := ep, x_tok1 := lo8 tok, x_tok2 := hi8 tok\<rparr>))\<lparr>h_op := op\<rparr>)"

text \<open>\<open>xfer->crc1 = crc & 0xFF; xfer->crc2 = (crc >> 8) & 0xFF\<close> for \<open>crc16_calc(xfer->tx, len)\<close>.\<close>

definition set_tx_crc :: "int \<Rightarrow> transfer_t \<Rightarrow> transfer_t outcome" where
  "set_tx_crc len xfer =
     bind_c (crc16_of (x_tx xfer) len) (\<lambda>crc.
       Inr (xfer\<lparr>x_crc1 := lo8 crc, x_crc2 := hi8 crc\<rparr>))"

text \<open>
  \<open>for (int i=n; i--;) { a[i] = rand(); }\<close> on bytes: the first call fills the last byte.
\<close>

primrec fill_rand :: "rand_t \<Rightarrow> nat \<Rightarrow> u8 list \<Rightarrow> u8 list outcome" where
  "fill_rand rnd 0 a = Inr a"
| "fill_rand rnd (Suc n) a =
     bind_c (aput a (int n) (ucast (rnd 0))) (fill_rand (\<lambda>k. rnd (Suc k)) n)"

text \<open>\<open>++x\<close> on a member of the state and the idle transfer that ends a test.\<close>

definition host_idle :: "usb_host_t \<Rightarrow> usb_host_t" where
  "host_idle host =
     (with_xfer host ((h_xfer host)\<lparr>x_type := XferIdle, x_stage := NoXfer\<rparr>))\<lparr>h_op := HostIdle\<rparr>"

definition next_step :: "usb_host_t \<Rightarrow> usb_host_t" where
  "next_step host = host\<lparr>h_step := h_step host + 1\<rparr>"

definition set_seq :: "bit_t \<Rightarrow> usb_host_t \<Rightarrow> usb_host_t" where
  "set_seq s host = with_xfer host (set_seq0 s (h_xfer host))"

lemma fill_rand_length:
  "returns (\<lambda>b. length b = length a) (fill_rand rnd n a)"
proof (induction n arbitrary: a rnd)
  case 0
  show ?case by simp
next
  case (Suc n)
  show ?case
    using Suc.IH [of "a[n := ucast (rnd 0)]" "\<lambda>k. rnd (Suc k)"] by simp
qed

lemma fill_rand_returns: "n \<le> length a \<Longrightarrow> \<exists>b. fill_rand rnd n a = Inr b \<and> length b = length a"
proof (induction n arbitrary: a rnd)
  case 0
  show ?case by simp
next
  case (Suc n)
  then show ?case using Suc.IH [of "a[n := ucast (rnd 0)]" "\<lambda>k. rnd (Suc k)"] by simp
qed

lemma set_tx_crc_returns:
  "0 \<le> len \<Longrightarrow> nat len \<le> length (x_tx x) \<Longrightarrow>
     set_tx_crc len x = Inr (x\<lparr>x_crc1 := lo8 (crc16_calc (x_tx x) (nat len)),
       x_crc2 := hi8 (crc16_calc (x_tx x) (nat len))\<rparr>)"
  by (simp add: set_tx_crc_def crc16_of_def)

subsection \<open>The contract of a test-case\<close>

text \<open>
  The test-bench calls \<open>step\<close> each time the host has completed a packet or a transaction, until
  it returns 1. \<open>left d\<close> is the number of calls still to come, \<open>ok\<close> what the test-case
  keeps true of its state, and \<open>final\<close> what it leaves the host in. The first argument of
  \<open>step\<close> is what the call gets from \<open>rand\<close> or \<open>malloc\<close>. Between two calls the host may do
  anything that keeps it \<open>good\<close>.
\<close>

definition host_arrays :: "usb_host_t \<Rightarrow> bool" where
  "host_arrays host \<longleftrightarrow> arrays_ok (h_xfer host)"

text \<open>
  \<open>tc_run step calls host d\<close> calls \<open>step\<close>, before each call letting the host become what
  the function of the call says; it collects the results.
\<close>

primrec tc_run :: "('e \<Rightarrow> usb_host_t \<Rightarrow> 'd \<Rightarrow> 'd tc_result) \<Rightarrow>
    ('e \<times> (usb_host_t \<Rightarrow> usb_host_t)) list \<Rightarrow> usb_host_t \<Rightarrow> 'd
    \<Rightarrow> (int list \<times> usb_host_t \<times> 'd) outcome" where
  "tc_run step [] host d = Inr ([], host, d)"
| "tc_run step (c # cs) host d =
     bind_c (step (fst c) (snd c host) d) (\<lambda>(r, host, d).
     bind_c (tc_run step cs host d) (\<lambda>(rs, host, d). Inr (r # rs, host, d)))"

definition calls_ok :: "(usb_host_t \<Rightarrow> bool) \<Rightarrow> ('e \<times> (usb_host_t \<Rightarrow> usb_host_t)) list \<Rightarrow> bool" where
  "calls_ok good cs \<longleftrightarrow> (\<forall>c \<in> set cs. \<forall>k. good k \<longrightarrow> good (snd c k))"

locale testcase =
  fixes step :: "'e \<Rightarrow> usb_host_t \<Rightarrow> 'd \<Rightarrow> 'd tc_result"
    and left :: "'d \<Rightarrow> nat"
    and ok :: "'d \<Rightarrow> bool"
    and good :: "usb_host_t \<Rightarrow> bool"
    and final :: "usb_host_t \<Rightarrow> bool"
  assumes step_ok: "good host \<Longrightarrow> ok d \<Longrightarrow> 0 < left d \<Longrightarrow>
     \<exists>host' d'. step e host d = Inr (if left d = 1 then 1 else 0, host', d') \<and>
       good host' \<and> ok d' \<and> Suc (left d') = left d"
    and step_final: "good host \<Longrightarrow> ok d \<Longrightarrow> left d = 1 \<Longrightarrow>
     step e host d = Inr (r, host', d') \<Longrightarrow> final host'"
begin

lemma run_completes:
  assumes "good host" and "ok d" and "left d = length cs" and "cs \<noteq> []" and "calls_ok good cs"
  shows "\<exists>host' d'. tc_run step cs host d = Inr (replicate (length cs - 1) 0 @ [1], host', d') \<and>
    good host' \<and> ok d' \<and> left d' = 0 \<and> final host'"
  using assms
proof (induction cs arbitrary: host d)
  case Nil
  then show ?case by simp
next
  case (Cons c cs)
  have g: "good (snd c host)" using Cons.prems by (simp add: calls_ok_def)
  obtain host1 d1 where s: "step (fst c) (snd c host) d = Inr (if left d = 1 then 1 else 0, host1, d1)"
    and 1: "good host1" "ok d1" "Suc (left d1) = left d"
    using step_ok [OF g Cons.prems(2), of "fst c"] Cons.prems(3) by auto
  show ?case
  proof (cases cs)
    case Nil
    then have "left d = 1" using Cons.prems(3) by simp
    then show ?thesis using s 1 Nil step_final [OF g Cons.prems(2)] by simp
  next
    case (Cons c' cs')
    then have "calls_ok good cs" "left d1 = length cs" "cs \<noteq> []" "left d \<noteq> 1"
      using Cons.prems 1 by (auto simp: calls_ok_def)
    then show ?thesis using Cons.IH [OF 1(1,2)] s Cons by auto
  qed
qed

end

end
