(* ===== verification/Tc_Control.thy ===== *)
theory Tc_Control
  imports Testcase
begin

text \<open>
  The test-cases that run standard requests: \<open>tc_getdesc.c\<close>, \<open>tc_getconf.c\<close>,
  \<open>tc_getstrs.c\<close>, \<open>tc_setaddr.c\<close> and \<open>tc_setconf.c\<close>. Each is called when the host has
  completed a packet, and advances \<open>host->step\<close> to the next one. The five files declare the
  same packet states over again; here \<open>ctrl_step\<close> stands for them, with \<open>CtrlDone\<close> for
  \<open>DescDone\<close>, \<open>DoneSETUP\<close>, \<open>AddrDone\<close> and \<open>SetDone\<close>.
\<close>

datatype ctrl_step =
    SendSETUP | SendDATA0 | RecvACK0 | SendIN | RecvDATA1 | SendACK | SendOUT | SendZDP | RecvACK1
  | CtrlDone

text \<open>The number of packets a request has completed in a state.\<close>

primrec ctrl_num :: "ctrl_step \<Rightarrow> nat" where
  "ctrl_num SendSETUP = 0"
| "ctrl_num SendDATA0 = 1"
| "ctrl_num RecvACK0 = 2"
| "ctrl_num SendIN = 3"
| "ctrl_num RecvDATA1 = 4"
| "ctrl_num SendACK = 5"
| "ctrl_num SendOUT = 6"
| "ctrl_num SendZDP = 7"
| "ctrl_num RecvACK1 = 8"
| "ctrl_num CtrlDone = 9"

text \<open>
  The cases \<open>SendSETUP\<close> to \<open>SendZDP\<close> of the requests with a data stage, with the next
  state; they are the same lines in \<open>tc_getdesc_step\<close>, \<open>tc_getconf_step\<close> and
  \<open>tc_getstrs_step\<close>.
\<close>

fun ctrl_advance :: "ctrl_step \<Rightarrow> usb_host_t \<Rightarrow> ctrl_step \<times> usb_host_t" where
  "ctrl_advance SendSETUP host = (SendDATA0, next_step host)"
| "ctrl_advance SendDATA0 host = (RecvACK0, next_step host)"
| "ctrl_advance RecvACK0 host = (SendIN, set_seq SIG1 (next_step host))"
| "ctrl_advance SendIN host = (RecvDATA1, next_step host)"
| "ctrl_advance RecvDATA1 host = (SendACK, next_step host)"
| "ctrl_advance SendACK host = (SendOUT, next_step host)"
| "ctrl_advance SendOUT host =
     (SendZDP, with_xfer (next_step host)
       ((h_xfer host)\<lparr>x_tx_len := 0, x_type := DnDATA1, x_crc1 := 0x00, x_crc2 := 0x00\<rparr>))"
| "ctrl_advance SendZDP host = (RecvACK1, next_step host)"
| "ctrl_advance st host = (st, host)"

subsection \<open>\<open>tc_getdesc.c\<close>\<close>

definition tc_getdesc_init :: "u64 \<Rightarrow> usb_host_t \<Rightarrow> ctrl_step \<Rightarrow> ctrl_step tc_result" where
  "tc_getdesc_init addr host st =
     bind_c (stdreq_get_descriptor addr host 0x0301) (\<lambda>(result, host).
       Inr (if result < 0 then -1 else 0, host, SendSETUP))"

definition tc_getdesc_step :: "usb_host_t \<Rightarrow> ctrl_step \<Rightarrow> ctrl_step tc_result" where
  "tc_getdesc_step host st =
     (if st = RecvACK1 then Inr (1, (next_step host)\<lparr>h_op := HostIdle\<rparr>, CtrlDone)
      else if st = CtrlDone then Inr (1, host, st)
      else (let (st, host) = ctrl_advance st host in Inr (0, host, st)))"

subsection \<open>\<open>tc_getconf.c\<close> and \<open>tc_getstrs.c\<close>\<close>

text \<open>
  \<open>buf\<close> and \<open>len\<close> are assigned and never read. A \<open>stage\<close> without a \<open>case\<close> would leave
  \<open>result\<close> unset.
\<close>

record ctrl_state =
  c_buf :: u64
  c_len :: u32
  c_step :: ctrl_step
  c_stage :: u8

definition ctrl_reset :: "ctrl_state \<Rightarrow> ctrl_state" where
  "ctrl_reset st = st\<lparr>c_buf := 0, c_len := 0, c_step := SendSETUP\<rparr>"

text \<open>The end of both \<open>init\<close> routines.\<close>

definition init_result :: "ctrl_state \<Rightarrow> (int \<times> usb_host_t) outcome \<Rightarrow> ctrl_state tc_result" where
  "init_result st m =
     bind_c m (\<lambda>(result, host). Inr (if result < 0 then result else 0, host, st))"

definition tc_getconf_init :: "usb_host_t \<Rightarrow> ctrl_state \<Rightarrow> ctrl_state tc_result" where
  "tc_getconf_init host st =
     (let st = ctrl_reset st in
      if c_stage st = 0 then init_result st (stdreq_get_desc_device host)
      else if c_stage st = 1 then init_result st (stdreq_get_desc_config host 9)
      else if c_stage st = 2 then init_result st (stdreq_get_desc_config host 39)
      else if c_stage st = 3 then Inr (1, host, st)
      else Inl Uninitialised)"

definition tc_getconf_step :: "usb_host_t \<Rightarrow> ctrl_state \<Rightarrow> ctrl_state tc_result" where
  "tc_getconf_step host st =
     (if c_step st = RecvACK1 then
        (let host = (next_step host)\<lparr>h_op := HostIdle\<rparr>;
             st = st\<lparr>c_stage := c_stage st + 1\<rparr> in
         if c_stage st < 3 then
           bind_c (tc_getconf_init host st) (\<lambda>(_, host, st). Inr (0, host, st))
         else Inr (1, host, st\<lparr>c_step := CtrlDone\<rparr>))
      else if c_step st = CtrlDone then Inr (1, host, st)
      else (let (s, host) = ctrl_advance (c_step st) host in Inr (0, host, st\<lparr>c_step := s\<rparr>)))"

definition tc_getstrs_init :: "u64 \<Rightarrow> usb_host_t \<Rightarrow> ctrl_state \<Rightarrow> ctrl_state tc_result" where
  "tc_getstrs_init addr host st =
     (let st = ctrl_reset st in
      if c_stage st = 0 then init_result st (stdreq_get_descriptor addr host 0x0300)
      else if c_stage st = 1 then init_result st (stdreq_get_descriptor addr host 0x0301)
      else if c_stage st = 2 then init_result st (stdreq_get_descriptor addr host 0x0302)
      else if c_stage st = 3 then init_result st (stdreq_get_descriptor addr host 0x0303)
      else if c_stage st = 4 then init_result st (stdreq_get_status host)
      else if c_stage st = 5 then Inr (1, host, st)
      else Inl Uninitialised)"

definition tc_getstrs_step :: "u64 \<Rightarrow> usb_host_t \<Rightarrow> ctrl_state \<Rightarrow> ctrl_state tc_result" where
  "tc_getstrs_step addr host st =
     (if c_step st = RecvACK1 then
        (let host = (next_step host)\<lparr>h_op := HostIdle\<rparr>;
             st = st\<lparr>c_stage := c_stage st + 1\<rparr> in
         if c_stage st < 5 then
           bind_c (tc_getstrs_init addr host st) (\<lambda>(_, host, st). Inr (0, host, st))
         else Inr (1, host, st\<lparr>c_step := CtrlDone\<rparr>))
      else if c_step st = CtrlDone then Inr (1, host, st)
      else (let (s, host) = ctrl_advance (c_step st) host in Inr (0, host, st\<lparr>c_step := s\<rparr>)))"

text \<open>The states \<open>test_getconf\<close> and \<open>test_getstrs\<close> start from; \<open>addr\<close> is from \<open>malloc\<close>.\<close>

definition test_getconf :: "u64 \<Rightarrow> ctrl_state" where
  "test_getconf addr = \<lparr>c_buf = addr, c_len = 0, c_step = SendSETUP, c_stage = 0\<rparr>"

definition test_getstrs :: "u64 \<Rightarrow> ctrl_state" where
  "test_getstrs addr = \<lparr>c_buf = addr, c_len = 0, c_step = SendSETUP, c_stage = 0\<rparr>"

subsection \<open>\<open>tc_setaddr.c\<close> and \<open>tc_setconf.c\<close>\<close>

record setaddr_state =
  sa_stage :: ctrl_step
  sa_addr :: u8

definition test_setaddr :: "u8 \<Rightarrow> setaddr_state option" where
  "test_setaddr addr =
     (if addr AND 0x7F \<noteq> addr then None
      else Some \<lparr>sa_stage = SendSETUP, sa_addr = addr\<rparr>)"

definition tc_setaddr_init :: "usb_host_t \<Rightarrow> setaddr_state \<Rightarrow> setaddr_state tc_result" where
  "tc_setaddr_init host st =
     (let st = st\<lparr>sa_stage := SendSETUP\<rparr> in
      bind_c (stdreq_set_address host (sa_addr st)) (\<lambda>(result, host).
        Inr (if result < 0 then -1 else 0, host, st)))"

definition tc_setaddr_step :: "usb_host_t \<Rightarrow> setaddr_state \<Rightarrow> setaddr_state tc_result" where
  "tc_setaddr_step host st =
     (case sa_stage st of
        SendSETUP \<Rightarrow> Inr (0, next_step (set_seq SIG0 host), st\<lparr>sa_stage := SendDATA0\<rparr>)
      | SendDATA0 \<Rightarrow> Inr (0, next_step host, st\<lparr>sa_stage := RecvACK0\<rparr>)
      | RecvACK0 \<Rightarrow>
          Inr (0, next_step ((with_xfer host ((h_xfer host)\<lparr>x_address := sa_addr st\<rparr>))
             \<lparr>h_addr := sa_addr st\<rparr>), st\<lparr>sa_stage := SendIN\<rparr>)
      | SendIN \<Rightarrow> Inr (0, next_step (set_seq SIG1 host), st\<lparr>sa_stage := RecvDATA1\<rparr>)
      | RecvDATA1 \<Rightarrow> Inr (0, next_step host, st\<lparr>sa_stage := SendACK\<rparr>)
      | SendACK \<Rightarrow> Inr (1, (next_step host)\<lparr>h_op := HostIdle\<rparr>, st\<lparr>sa_stage := CtrlDone\<rparr>)
      | CtrlDone \<Rightarrow> Inr (1, host, st)
      | _ \<Rightarrow> Inr (-1, host, st))"

record setconf_t =
  sc_stage :: ctrl_step
  sc_conf :: u8

definition test_setconf :: "u8 \<Rightarrow> setconf_t option" where
  "test_setconf conf =
     (if conf \<noteq> 0x01 then None else Some \<lparr>sc_stage = SendSETUP, sc_conf = conf\<rparr>)"

definition tc_setconf_init :: "usb_host_t \<Rightarrow> setconf_t \<Rightarrow> setconf_t tc_result" where
  "tc_setconf_init host st =
     (let st = st\<lparr>sc_stage := SendSETUP\<rparr> in
      bind_c (stdreq_set_config host (sc_conf st)) (\<lambda>(result, host).
        Inr (if result < 0 then -1 else 0, host, st)))"

definition tc_setconf_step :: "usb_host_t \<Rightarrow> setconf_t \<Rightarrow> setconf_t tc_result" where
  "tc_setconf_step host st =
     (case sc_stage st of
        SendSETUP \<Rightarrow> Inr (0, next_step (set_seq SIG0 host), st\<lparr>sc_stage := SendDATA0\<rparr>)
      | SendDATA0 \<Rightarrow> Inr (0, next_step host, st\<lparr>sc_stage := RecvACK0\<rparr>)
      | RecvACK0 \<Rightarrow> Inr (0, next_step host, st\<lparr>sc_stage := SendIN\<rparr>)
      | SendIN \<Rightarrow> Inr (0, next_step (set_seq SIG1 host), st\<lparr>sc_stage := RecvDATA1\<rparr>)
      | RecvDATA1 \<Rightarrow> Inr (0, next_step host, st\<lparr>sc_stage := SendACK\<rparr>)
      | SendACK \<Rightarrow> Inr (1, (next_step host)\<lparr>h_op := HostIdle\<rparr>, st\<lparr>sc_stage := CtrlDone\<rparr>)
      | CtrlDone \<Rightarrow> Inr (1, host, st)
      | _ \<Rightarrow> Inr (-1, host, st))"

end
