(* ===== verification/Tc_Bulk.thy ===== *)
theory Tc_Bulk
  imports Testcase
begin

text \<open>
  The test-cases that run bulk transactions, and the wait for a start-of-frame:
  \<open>tc_bulkin.c\<close>, \<open>tc_bulkout.c\<close>, \<open>tc_ddr3in.c\<close>, \<open>tc_ddr3out.c\<close>, \<open>tc_parity.c\<close> and
  \<open>tc_waitsof.c\<close>.
\<close>

subsection \<open>\<open>tc_bulkin.c\<close>\<close>

datatype bulkin_step_t = BulkIN0 | BulkIN1 | BulkIN2 | BINDone

record bulkin_state_t =
  bi_step :: bulkin_step_t
  bi_stage :: u8
  bi_ep :: u8

text \<open>\<open>tc_bulkin_xfer\<close>, and the same lines of \<open>tc_ddr3in_dat\<close> and \<open>tc_ddr3out_res\<close>.\<close>

definition tc_bulkin_xfer :: "usb_host_t \<Rightarrow> u8 \<Rightarrow> usb_host_t" where
  "tc_bulkin_xfer host ep =
     (let host = start_bulk HostBulkIN IN ep host in
      with_xfer host ((h_xfer host)\<lparr>x_rx_ptr := 0\<rparr>))"

definition test_bulkin :: "u8 \<Rightarrow> bulkin_state_t" where
  "test_bulkin ep = \<lparr>bi_step = BulkIN0, bi_stage = 0, bi_ep = ep\<rparr>"

definition tc_bulkin_init :: "usb_host_t \<Rightarrow> bulkin_state_t \<Rightarrow> bulkin_state_t tc_result" where
  "tc_bulkin_init host st =
     Inr (0, (tc_bulkin_xfer host (bi_ep st))\<lparr>h_step := 0\<rparr>,
       st\<lparr>bi_step := BulkIN0, bi_stage := 0\<rparr>)"

definition tc_bulkin_step :: "usb_host_t \<Rightarrow> bulkin_state_t \<Rightarrow> bulkin_state_t tc_result" where
  "tc_bulkin_step host st =
     (case bi_step st of
        BulkIN0 \<Rightarrow> Inr (0, tc_bulkin_xfer host BULK_IN_EP, st\<lparr>bi_step := BulkIN1\<rparr>)
      | BulkIN1 \<Rightarrow> Inr (0, tc_bulkin_xfer host BULK_IN_EP, st\<lparr>bi_step := BulkIN2\<rparr>)
      | BulkIN2 \<Rightarrow> Inr (1, host_idle host, st\<lparr>bi_step := BINDone\<rparr>)
      | BINDone \<Rightarrow> Inr (1, host, st))"

subsection \<open>\<open>tc_bulkout.c\<close>\<close>

datatype bulkout_state_t =
  BulkOUT0 | BulkOUT1 | BulkOUT2 | BulkOUT3 | BulkOUT4 | BulkOUT5 | BulkOUT6 | BulkDone

definition tc_bulkout_xfer :: "rand_t \<Rightarrow> usb_host_t \<Rightarrow> nat \<Rightarrow> u8 \<Rightarrow> usb_host_t outcome" where
  "tc_bulkout_xfer rnd host n ep =
     (let host = start_bulk HostBulkOUT OUT ep host;
          xfer = (h_xfer host)\<lparr>x_tx_len := int n, x_tx_ptr := 0\<rparr> in
      bind_c (fill_rand rnd n (x_tx xfer)) (\<lambda>tx.
      bind_c (set_tx_crc (int n) (xfer\<lparr>x_tx := tx\<rparr>)) (\<lambda>xfer.
        Inr (with_xfer host xfer))))"

definition tc_bulkout_init ::
  "rand_t \<Rightarrow> usb_host_t \<Rightarrow> bulkout_state_t \<Rightarrow> bulkout_state_t tc_result" where
  "tc_bulkout_init rnd host st =
     bind_c (tc_bulkout_xfer rnd host 16 BULK_OUT_EP) (\<lambda>host.
       Inr (0, host\<lparr>h_step := 0\<rparr>, BulkOUT0))"

text \<open>The next transfer of the sequence: its length, and the next state.\<close>

primrec bulkout_next :: "bulkout_state_t \<Rightarrow> (nat \<times> bulkout_state_t) option" where
  "bulkout_next BulkOUT0 = Some (37, BulkOUT1)"
| "bulkout_next BulkOUT1 = Some (0, BulkOUT2)"
| "bulkout_next BulkOUT2 = Some (1, BulkOUT3)"
| "bulkout_next BulkOUT3 = Some (2, BulkOUT4)"
| "bulkout_next BulkOUT4 = Some (3, BulkOUT5)"
| "bulkout_next BulkOUT5 = Some (4, BulkOUT6)"
| "bulkout_next BulkOUT6 = None"
| "bulkout_next BulkDone = None"

definition tc_bulkout_step ::
  "rand_t \<Rightarrow> usb_host_t \<Rightarrow> bulkout_state_t \<Rightarrow> bulkout_state_t tc_result" where
  "tc_bulkout_step rnd host st =
     (case bulkout_next st of
        Some (n, st') \<Rightarrow>
          bind_c (tc_bulkout_xfer rnd host n BULK_OUT_EP) (\<lambda>host. Inr (0, host, st'))
      | None \<Rightarrow>
          if st = BulkOUT6 then Inr (1, host_idle host, BulkDone) else Inr (1, host, st))"

subsection \<open>\<open>tc_ddr3in.c\<close>\<close>

datatype ddr3in_step_t = DDR3Cmd | DDR3Dat | DDR3InEnd

record ddr3in_state_t =
  di_addr :: u32
  di_step :: ddr3in_step_t
  di_iter :: u8
  di_out :: u8
  di_in :: u8
  di_id :: u8

definition ddr3in_lengths :: "int list" where
  "ddr3in_lengths = [4, 8, 16, 20, 12, 24]"

text \<open>
  The six bytes of a command for the memory: the operation, the length field
  \<open>(uint8_t)(n - 1) | 0x03u\<close>, the 28-bit address and the identifier.
\<close>

definition ddr3_command :: "u8 \<Rightarrow> int \<Rightarrow> u32 \<Rightarrow> u8 \<Rightarrow> u8 list" where
  "ddr3_command op n addr ident =
     [op, word_of_int (n - 1) OR 0x03,
      ucast (addr AND 0xFF), ucast (drop_bit 8 addr AND 0xFF), ucast (drop_bit 16 addr AND 0xFF),
      (ucast (drop_bit 24 addr) AND 0x0F) OR push_bit 4 (ident AND 0x0F)]"

definition tc_ddr3in_cmd :: "usb_host_t \<Rightarrow> int \<Rightarrow> ddr3in_state_t \<Rightarrow> usb_host_t outcome" where
  "tc_ddr3in_cmd host n st =
     (let host = start_bulk HostBulkOUT OUT (di_out st) host;
          xfer = (h_xfer host)\<lparr>x_tx_len := 6, x_tx_ptr := 0\<rparr> in
      bind_c (copy_front (ddr3_command 0x80 n (di_addr st) (di_id st)) (x_tx xfer)) (\<lambda>tx.
      bind_c (set_tx_crc (x_tx_len xfer) (xfer\<lparr>x_tx := tx\<rparr>)) (\<lambda>xfer.
        Inr (with_xfer host xfer))))"

definition tc_ddr3in_dat :: "usb_host_t \<Rightarrow> ddr3in_state_t \<Rightarrow> usb_host_t" where
  "tc_ddr3in_dat host st = tc_bulkin_xfer host (di_in st)"

definition tc_ddr3in_init :: "usb_host_t \<Rightarrow> ddr3in_state_t \<Rightarrow> ddr3in_state_t tc_result" where
  "tc_ddr3in_init host st =
     (let st = st\<lparr>di_step := DDR3Cmd, di_out := DDR3_OUT_EP, di_in := DDR3_IN_EP\<rparr> in
      bind_c (aget ddr3in_lengths (uint (di_iter st))) (\<lambda>n.
      bind_c (tc_ddr3in_cmd host n st) (\<lambda>host. Inr (0, host\<lparr>h_step := 0\<rparr>, st))))"

definition tc_ddr3in_step :: "usb_host_t \<Rightarrow> ddr3in_state_t \<Rightarrow> ddr3in_state_t tc_result" where
  "tc_ddr3in_step host st =
     (case di_step st of
        DDR3Cmd \<Rightarrow>
          (let st = st\<lparr>di_iter := di_iter st + 1\<rparr> in
           if di_iter st < 6 then
             bind_c (aget ddr3in_lengths (uint (di_iter st))) (\<lambda>n.
             bind_c (tc_ddr3in_cmd host n st) (\<lambda>host. Inr (0, host, st\<lparr>di_step := DDR3Cmd\<rparr>)))
           else Inr (0, tc_ddr3in_dat host st, st\<lparr>di_iter := 0, di_step := DDR3Dat\<rparr>))
      | DDR3Dat \<Rightarrow>
          (let host = with_xfer host ((h_xfer host)\<lparr>x_stage := NoXfer\<rparr>);
               st = st\<lparr>di_iter := di_iter st + 1\<rparr> in
           if di_iter st \<ge> 6 then
             Inr (1, (with_xfer host ((h_xfer host)\<lparr>x_type := XferIdle\<rparr>))\<lparr>h_op := HostIdle\<rparr>,
               st\<lparr>di_step := DDR3InEnd\<rparr>)
           else Inr (0, tc_ddr3in_dat host st, st\<lparr>di_step := DDR3Dat\<rparr>))
      | DDR3InEnd \<Rightarrow> Inr (1, host, st))"

definition test_ddr3in :: "rand_t \<Rightarrow> u32 \<Rightarrow> ddr3in_state_t" where
  "test_ddr3in rnd addr =
     \<lparr>di_addr = addr, di_step = DDR3Cmd, di_iter = 0, di_out = DDR3_OUT_EP, di_in = DDR3_IN_EP,
      di_id = ucast (rnd 0 AND 0x0F)\<rparr>"

subsection \<open>\<open>tc_ddr3out.c\<close>\<close>

datatype ddr3out_step_t = DDR3Out | DDR3Res | DDR3OutEnd

record ddr3out_state_t =
  do_addr :: u32
  do_step :: ddr3out_step_t
  do_iter :: u8
  do_beat :: u8
  do_out :: u8
  do_in :: u8
  do_id :: u8

definition ddr3out_lengths :: "int list" where
  "ddr3out_lengths = [4, 4, 8, 16, 20, 12, 24, 0]"

text \<open>
  \<open>dst[i] = rand()\<close> for \<open>i\<close> from \<open>n-1\<close> down to 0, where \<open>dst\<close> is the transmit buffer
  from its seventh byte on as an array of little-endian 32-bit words.
\<close>

definition le32 :: "u32 \<Rightarrow> u8 list" where
  "le32 w = map (\<lambda>k. ucast (drop_bit (8 * k) w)) [0..<4]"

definition put_word :: "nat \<Rightarrow> u32 \<Rightarrow> u8 list \<Rightarrow> u8 list outcome" where
  "put_word at w a =
     (if at + 4 \<le> length a then Inr (take at a @ le32 w @ drop (at + 4) a) else Inl Out_Of_Bounds)"

primrec fill_words :: "rand_t \<Rightarrow> nat \<Rightarrow> u8 list \<Rightarrow> u8 list outcome" where
  "fill_words rnd 0 a = Inr a"
| "fill_words rnd (Suc n) a =
     bind_c (put_word (6 + 4 * n) (rnd 0) a) (fill_words (\<lambda>k. rnd (Suc k)) n)"

definition tc_ddr3out_cmd ::
  "rand_t \<Rightarrow> usb_host_t \<Rightarrow> int \<Rightarrow> ddr3out_state_t \<Rightarrow> usb_host_t outcome" where
  "tc_ddr3out_cmd rnd host n st =
     (let host = start_bulk HostBulkOUT OUT (do_out st) host;
          len = n * uint (do_beat st) + 6;
          xfer = (h_xfer host)\<lparr>x_tx_len := len, x_tx_ptr := 0\<rparr> in
      bind_c (copy_front (ddr3_command 0x01 n (do_addr st) (do_id st)) (x_tx xfer)) (\<lambda>tx.
      bind_c (fill_words rnd (nat n) tx) (\<lambda>tx.
      bind_c (set_tx_crc len (xfer\<lparr>x_tx := tx\<rparr>)) (\<lambda>xfer.
        Inr (with_xfer host xfer)))))"

definition tc_ddr3out_res :: "usb_host_t \<Rightarrow> ddr3out_state_t \<Rightarrow> usb_host_t" where
  "tc_ddr3out_res host st = tc_bulkin_xfer host (do_in st)"

definition tc_ddr3out_init ::
  "rand_t \<Rightarrow> usb_host_t \<Rightarrow> ddr3out_state_t \<Rightarrow> ddr3out_state_t tc_result" where
  "tc_ddr3out_init rnd host st =
     (let st = st\<lparr>do_step := DDR3Out, do_beat := 4, do_out := DDR3_OUT_EP, do_in := DDR3_IN_EP,
           do_id := ucast (rnd 0 AND 0x0F)\<rparr> in
      bind_c (aget ddr3out_lengths (uint (do_iter st))) (\<lambda>n.
      bind_c (tc_ddr3out_cmd (\<lambda>k. rnd (Suc k)) host n st) (\<lambda>host.
        Inr (0, host\<lparr>h_step := 0\<rparr>, st))))"

definition tc_ddr3out_step ::
  "rand_t \<Rightarrow> usb_host_t \<Rightarrow> ddr3out_state_t \<Rightarrow> ddr3out_state_t tc_result" where
  "tc_ddr3out_step rnd host st =
     (case do_step st of
        DDR3Out \<Rightarrow>
          (let st = st\<lparr>do_iter := do_iter st + 1\<rparr> in
           if do_iter st < 7 then
             bind_c (aget ddr3out_lengths (uint (do_iter st))) (\<lambda>n.
             bind_c (tc_ddr3out_cmd rnd host n st) (\<lambda>host.
               Inr (0, host, st\<lparr>do_step := DDR3Out\<rparr>)))
           else (let st = st\<lparr>do_iter := 0, do_step := DDR3Res\<rparr> in
             Inr (0, tc_ddr3out_res host st, st)))
      | DDR3Res \<Rightarrow>
          (let st = st\<lparr>do_iter := do_iter st + 1\<rparr> in
           if do_iter st < 7 then Inr (0, tc_ddr3out_res host st, st\<lparr>do_step := DDR3Res\<rparr>)
           else Inr (1, host_idle host, st\<lparr>do_step := DDR3OutEnd\<rparr>))
      | DDR3OutEnd \<Rightarrow> Inr (1, host, st))"

definition test_ddr3out :: "u32 \<Rightarrow> ddr3out_state_t" where
  "test_ddr3out addr =
     \<lparr>do_addr = addr, do_step = DDR3Out, do_iter = 0, do_beat = 4, do_out = DDR3_OUT_EP,
      do_in = DDR3_IN_EP, do_id = 0x01\<rparr>"

subsection \<open>\<open>tc_parity.c\<close>\<close>

datatype parity_step_t = ParIN0 | ParIN1 | ParOUT0 | ParOUT1 | DonePar

text \<open>The function pointer \<open>adjust\<close> is one of three routines.\<close>

datatype adjust_t = Adjust_Seq | Adjust_Crc | Adjust_Ept

record parity_state_t =
  pa_adjust :: adjust_t
  pa_step :: parity_step_t
  pa_stage :: u8

definition adjust_seq :: "transfer_t \<Rightarrow> transfer_t outcome" where
  "adjust_seq xfer = transfer_ack xfer"

definition adjust_crc :: "transfer_t \<Rightarrow> transfer_t outcome" where
  "adjust_crc xfer =
     (if x_endpoint xfer = BULK_IN_EP then Inr (xfer\<lparr>x_tok2 := x_tok2 xfer XOR 0x80\<rparr>)
      else Inr (xfer\<lparr>x_crc1 := x_crc1 xfer XOR 0xFF\<rparr>))"

definition adjust_ept :: "transfer_t \<Rightarrow> transfer_t outcome" where
  "adjust_ept xfer = Inr (transfer_tok (xfer\<lparr>x_endpoint := x_endpoint xfer XOR 0xF\<rparr>))"

primrec adjust :: "adjust_t \<Rightarrow> transfer_t \<Rightarrow> transfer_t outcome" where
  "adjust Adjust_Seq = adjust_seq"
| "adjust Adjust_Crc = adjust_crc"
| "adjust Adjust_Ept = adjust_ept"

definition adjust_host :: "adjust_t \<Rightarrow> usb_host_t \<Rightarrow> usb_host_t outcome" where
  "adjust_host f host = bind_c (adjust f (h_xfer host)) (\<lambda>xfer. Inr (with_xfer host xfer))"

definition tc_parity_xfer :: "rand_t \<Rightarrow> usb_host_t \<Rightarrow> u8 \<Rightarrow> usb_host_t outcome" where
  "tc_parity_xfer rnd host ep =
     (if ep = BULK_IN_EP then
        (let host = start_bulk HostBulkIN IN ep host in
         Inr (with_xfer host ((h_xfer host)\<lparr>x_rx_len := 0, x_rx_ptr := 0\<rparr>)))
      else
        (let n = unat (push_bit 1 (rnd 0 OR 0x01) AND 0x07);
             host = start_bulk HostBulkOUT OUT ep host;
             xfer = (h_xfer host)\<lparr>x_tx_len := int n, x_tx_ptr := 0\<rparr> in
         bind_c (fill_rand (\<lambda>k. rnd (Suc k)) n (x_tx xfer)) (\<lambda>tx.
         bind_c (set_tx_crc (int n) (xfer\<lparr>x_tx := tx\<rparr>)) (\<lambda>xfer.
           Inr (with_xfer host xfer)))))"

definition tc_parity_init ::
  "rand_t \<Rightarrow> usb_host_t \<Rightarrow> parity_state_t \<Rightarrow> parity_state_t tc_result" where
  "tc_parity_init rnd host st =
     (if pa_stage st = 3 then Inr (1, host, st)
      else
        (let f = (if pa_stage st = 0 then Adjust_Seq
                  else if pa_stage st = 1 then Adjust_Crc
                  else if pa_stage st = 2 then Adjust_Ept
                  else pa_adjust st);
             st = st\<lparr>pa_adjust := f\<rparr> in
         bind_c (tc_parity_xfer rnd host BULK_IN_EP) (\<lambda>host.
         bind_c (adjust_host f host) (\<lambda>host. Inr (0, host, st\<lparr>pa_step := ParIN0\<rparr>)))))"

definition tc_parity_step ::
  "rand_t \<Rightarrow> usb_host_t \<Rightarrow> parity_state_t \<Rightarrow> parity_state_t tc_result" where
  "tc_parity_step rnd host st =
     (case pa_step st of
        ParIN0 \<Rightarrow>
          bind_c (adjust_host (pa_adjust st) host) (\<lambda>host.
          bind_c (tc_parity_xfer rnd host BULK_IN_EP) (\<lambda>host.
            Inr (0, host, st\<lparr>pa_step := ParIN1\<rparr>)))
      | ParIN1 \<Rightarrow>
          bind_c (tc_parity_xfer rnd host BULK_OUT_EP) (\<lambda>host.
          bind_c (adjust_host (pa_adjust st) host) (\<lambda>host.
            Inr (0, host, st\<lparr>pa_step := ParOUT0\<rparr>)))
      | ParOUT0 \<Rightarrow>
          bind_c (adjust_host (pa_adjust st) host) (\<lambda>host.
          bind_c (tc_parity_xfer rnd host BULK_OUT_EP) (\<lambda>host.
            Inr (0, host, st\<lparr>pa_step := ParOUT1\<rparr>)))
      | ParOUT1 \<Rightarrow>
          (let host = host_idle host; st = st\<lparr>pa_stage := pa_stage st + 1\<rparr> in
           if pa_stage st < 3 then
             bind_c (tc_parity_init rnd host st) (\<lambda>(_, host, st). Inr (0, host, st))
           else Inr (1, host, st\<lparr>pa_step := DonePar\<rparr>))
      | DonePar \<Rightarrow> Inr (1, host, st))"

definition test_parity :: parity_state_t where
  "test_parity = \<lparr>pa_adjust = Adjust_Seq, pa_step = ParIN0, pa_stage = 0\<rparr>"

subsection \<open>\<open>tc_waitsof.c\<close>\<close>

datatype waitsof_state_t = WaitIdle | WaitDone

definition tc_waitsof_init :: "usb_host_t \<Rightarrow> waitsof_state_t \<Rightarrow> waitsof_state_t tc_result" where
  "tc_waitsof_init host st = Inr (0, host\<lparr>h_step := 0\<rparr>, WaitIdle)"

definition tc_waitsof_step :: "usb_host_t \<Rightarrow> waitsof_state_t \<Rightarrow> waitsof_state_t tc_result" where
  "tc_waitsof_step host st =
     (case st of WaitIdle \<Rightarrow> Inr (1, host, WaitDone) | WaitDone \<Rightarrow> Inr (1, host, st))"

end
