(* ===== verification/Tc_Props.thy ===== *)
theory Tc_Props
  imports Tc_Control Tc_Bulk Usbhost_Props
begin

text \<open>
  The test-cases \<open>src/vpi/tc_*.c\<close> against the contract of \<open>Testcase\<close>: each interpretation
  gives the number of calls a test-case takes from each of its states.
\<close>

lemma host_arrays_simps [simp]:
  "host_arrays (next_step h) = host_arrays h"
  "host_arrays (h\<lparr>h_op := a\<rparr>) = host_arrays h"
  "host_arrays (h\<lparr>h_addr := b\<rparr>) = host_arrays h"
  "host_arrays (h\<lparr>h_step := c\<rparr>) = host_arrays h"
  "host_arrays (with_xfer h x) = arrays_ok x"
  "host_arrays (set_seq s h) = host_arrays h"
  "host_arrays (host_idle h) = host_arrays h"
  "host_arrays (start_bulk op ty ep h) = host_arrays h"
  by (simp_all add: host_arrays_def next_step_def with_xfer_def set_seq_def set_seq0_def arrays_ok_def
      host_idle_def start_bulk_def Let_def)

lemma arrays_ok_fold [simp]: "arrays_ok (h_xfer h) = host_arrays h"
  by (simp add: host_arrays_def)

lemma arrays_ok_fields [simp]:
  "arrays_ok (x\<lparr>x_type := a\<rparr>) = arrays_ok x"
  "arrays_ok (x\<lparr>x_stage := b\<rparr>) = arrays_ok x"
  "arrays_ok (x\<lparr>x_address := c\<rparr>) = arrays_ok x"
  "arrays_ok (x\<lparr>x_tx_len := d\<rparr>) = arrays_ok x"
  "arrays_ok (x\<lparr>x_tx_ptr := d\<rparr>) = arrays_ok x"
  "arrays_ok (x\<lparr>x_rx_len := d\<rparr>) = arrays_ok x"
  "arrays_ok (x\<lparr>x_rx_ptr := d\<rparr>) = arrays_ok x"
  "arrays_ok (x\<lparr>x_crc1 := e\<rparr>) = arrays_ok x"
  "arrays_ok (x\<lparr>x_crc2 := e\<rparr>) = arrays_ok x"
  "arrays_ok (x\<lparr>x_tok1 := e\<rparr>) = arrays_ok x"
  "arrays_ok (x\<lparr>x_tok2 := e\<rparr>) = arrays_ok x"
  "arrays_ok (x\<lparr>x_endpoint := e\<rparr>) = arrays_ok x"
  by (simp_all add: arrays_ok_def)

lemma ctrl_advance_next:
  "st \<notin> {RecvACK1, CtrlDone} \<Longrightarrow> \<exists>st' host'. ctrl_advance st host = (st', host') \<and>
     ctrl_num st' = Suc (ctrl_num st) \<and> host_arrays host' = host_arrays host"
  by (cases st) simp_all

lemma ctrl_num_le: "ctrl_num st \<le> 9" "ctrl_num st = 9 \<longleftrightarrow> st = CtrlDone" "ctrl_num st = 8 \<longleftrightarrow> st = RecvACK1"
  by (cases st; simp)+

subsection \<open>Standard requests\<close>

interpretation getdesc: testcase "\<lambda>_ :: unit. tc_getdesc_step" "\<lambda>st. 9 - ctrl_num st" "\<lambda>_. True"
    host_arrays "\<lambda>h. h_op h = HostIdle"
proof unfold_locales
  fix host d and e :: unit
  assume h: "host_arrays host" and l: "0 < 9 - ctrl_num d"
  show "\<exists>host' d'. tc_getdesc_step host d = Inr (if 9 - ctrl_num d = 1 then 1 else 0, host', d') \<and>
      host_arrays host' \<and> True \<and> Suc (9 - ctrl_num d') = 9 - ctrl_num d"
  proof (cases "d = RecvACK1")
    case True
    then show ?thesis using h by (simp add: tc_getdesc_step_def)
  next
    case False
    then show ?thesis
      using h l ctrl_advance_next [of d host] ctrl_num_le [of d]
      by (auto simp: tc_getdesc_step_def)
  qed
next
  fix host d r host' d' and e :: unit
  assume "9 - ctrl_num d = 1" and "tc_getdesc_step host d = Inr (r, host', d')"
  then show "h_op host' = HostIdle"
    using ctrl_num_le [of d] by (auto simp: tc_getdesc_step_def)
qed

text \<open>The calls left of a request without a data stage.\<close>

primrec six_left :: "ctrl_step \<Rightarrow> nat" where
  "six_left SendSETUP = 6"
| "six_left SendDATA0 = 5"
| "six_left RecvACK0 = 4"
| "six_left SendIN = 3"
| "six_left RecvDATA1 = 2"
| "six_left SendACK = 1"
| "six_left SendOUT = 0"
| "six_left SendZDP = 0"
| "six_left RecvACK1 = 0"
| "six_left CtrlDone = 0"

interpretation setaddr: testcase "\<lambda>_ :: unit. tc_setaddr_step" "\<lambda>st. six_left (sa_stage st)"
    "\<lambda>_. True" host_arrays "\<lambda>h. h_op h = HostIdle"
  by unfold_locales (auto simp: tc_setaddr_step_def split: ctrl_step.splits)

interpretation setconf: testcase "\<lambda>_ :: unit. tc_setconf_step" "\<lambda>st. six_left (sc_stage st)"
    "\<lambda>_. True" host_arrays "\<lambda>h. h_op h = HostIdle"
  by unfold_locales (auto simp: tc_setconf_step_def split: ctrl_step.splits)

text \<open>The requests the test-cases start succeed on an idle host with its arrays.\<close>

lemma stdreq_start_ok:
  "host_arrays host \<Longrightarrow> \<exists>host'. stdreq_start host req = Inr (1, host') \<and> host_arrays host'"
  using stdreq_start_eq [of host req] by (auto simp: host_arrays_def arrays_ok_def)

lemma init_result_ok:
  "host_arrays host \<Longrightarrow> \<exists>host'. init_result st (stdreq_start host req) = Inr (0, host', st) \<and> host_arrays host'"
  using stdreq_start_ok [of host req] by (auto simp: init_result_def)

lemma getconf_init_ok:
  assumes "host_arrays host" and "h_op host = HostIdle" and "c_stage st < 3"
  shows "\<exists>host'. tc_getconf_init host st = Inr (0, host', ctrl_reset st) \<and> host_arrays host'"
proof -
  from assms(3) have "c_stage st = 0 \<or> c_stage st = 1 \<or> c_stage st = 2" by unat_arith
  then show ?thesis
    using assms(1,2)
    by (auto simp: tc_getconf_init_def ctrl_reset_def stdreq_get_desc_device_def
        stdreq_get_desc_config_def Let_def init_result_ok)
qed

lemma getstrs_init_ok:
  assumes "host_arrays host" and "h_op host = HostIdle" and "c_stage st < 5"
  shows "\<exists>host'. tc_getstrs_init addr host st = Inr (0, host', ctrl_reset st) \<and> host_arrays host'"
proof -
  from assms(3) have "c_stage st = 0 \<or> c_stage st = 1 \<or> c_stage st = 2 \<or> c_stage st = 3 \<or> c_stage st = 4"
    by unat_arith
  then show ?thesis
    using assms(1,2)
    by (auto simp: tc_getstrs_init_def ctrl_reset_def stdreq_get_descriptor_def get_descriptor_def
        stdreq_get_status_def Let_def init_result_ok)
qed

text \<open>The calls left of a test-case of \<open>n\<close> requests with a data stage.\<close>

definition ctrl_left :: "nat \<Rightarrow> ctrl_state \<Rightarrow> nat" where
  "ctrl_left n st = (if c_step st = CtrlDone then 0 else 9 * (n - unat (c_stage st)) - ctrl_num (c_step st))"

text \<open>
  A sequence of \<open>n\<close> requests, stepped as \<open>tc_getconf_step\<close> and \<open>tc_getstrs_step\<close> do; the
  contract of a test-case follows from that of \<open>init\<close>.
\<close>

locale requests =
  fixes init :: "'e \<Rightarrow> usb_host_t \<Rightarrow> ctrl_state \<Rightarrow> ctrl_state tc_result"
    and step :: "'e \<Rightarrow> usb_host_t \<Rightarrow> ctrl_state \<Rightarrow> ctrl_state tc_result"
    and n :: u8
  assumes init_ok: "host_arrays host \<Longrightarrow> h_op host = HostIdle \<Longrightarrow> c_stage st < n \<Longrightarrow>
      \<exists>host'. init e host st = Inr (0, host', ctrl_reset st) \<and> host_arrays host'"
    and step_eq: "step e host st =
     (if c_step st = RecvACK1 then
        (let host = (next_step host)\<lparr>h_op := HostIdle\<rparr>;
             st = st\<lparr>c_stage := c_stage st + 1\<rparr> in
         if c_stage st < n then
           bind_c (init e host st) (\<lambda>(_, host, st). Inr (0, host, st))
         else Inr (1, host, st\<lparr>c_step := CtrlDone\<rparr>))
      else if c_step st = CtrlDone then Inr (1, host, st)
      else (let (s, host) = ctrl_advance (c_step st) host in Inr (0, host, st\<lparr>c_step := s\<rparr>)))"
begin

definition left :: "ctrl_state \<Rightarrow> nat" where
  "left = ctrl_left (unat n)"

definition ok :: "ctrl_state \<Rightarrow> bool" where
  "ok st \<longleftrightarrow> c_step st = CtrlDone \<or> c_stage st < n"

lemma advance_step:
  assumes "c_step d \<notin> {RecvACK1, CtrlDone}" and "ok d" and "host_arrays host"
  shows "\<exists>host' d'. step e host d = Inr (0, host', d') \<and> host_arrays host' \<and> ok d' \<and>
    Suc (left d') = left d \<and> left d \<noteq> 1"
proof -
  obtain s host' where a: "ctrl_advance (c_step d) host = (s, host')" "ctrl_num s = Suc (ctrl_num (c_step d))"
      "host_arrays host'"
    using ctrl_advance_next [of "c_step d" host] assms by auto
  have "unat (c_stage d) < unat n" using assms(1,2) by (auto simp: ok_def word_less_nat_alt)
  moreover have "ctrl_num s < 9 \<or> s = CtrlDone" "ctrl_num (c_step d) < 8"
    using ctrl_num_le [of s] ctrl_num_le [of "c_step d"] assms(1) by auto
  ultimately have "Suc (left (d\<lparr>c_step := s\<rparr>)) = left d" "left d \<noteq> 1"
    using a(2) assms(1) by (auto simp: left_def ctrl_left_def)
  then show ?thesis using a assms(1,2) by (auto simp: step_eq ok_def)
qed

lemma last_step:
  assumes "c_step d = RecvACK1" and "ok d" and "host_arrays host"
  shows "\<exists>host' d'. step e host d = Inr (if left d = 1 then 1 else 0, host', d') \<and> host_arrays host' \<and>
    ok d' \<and> Suc (left d') = left d \<and> (left d = 1 \<longrightarrow> h_op host' = HostIdle)"
proof -
  have s: "unat (c_stage d) < unat n" using assms(1,2) by (auto simp: ok_def word_less_nat_alt)
  moreover have "unat n < 2 ^ LENGTH(8)" by (rule unsigned_less)
  ultimately have u: "unat (c_stage d + 1) = Suc (unat (c_stage d))"
    by (intro unat_Suc_small) simp
  let ?d = "d\<lparr>c_stage := c_stage d + 1\<rparr>" and ?host = "(next_step host)\<lparr>h_op := HostIdle\<rparr>"
  have l: "left d = 1 + 9 * (unat n - unat (c_stage d + 1))"
    using assms(1) s u by (simp add: left_def ctrl_left_def)
  show ?thesis
  proof (cases "c_stage d + 1 < n")
    case True
    then obtain host' where "init e ?host ?d = Inr (0, host', ctrl_reset ?d)" "host_arrays host'"
      using init_ok [of ?host ?d e] assms(3) by auto
    moreover have "left (ctrl_reset ?d) = 9 * (unat n - unat (c_stage d + 1))" "left d \<noteq> 1"
        "ok (ctrl_reset ?d)"
      using True u by (simp_all add: l) (simp_all add: left_def ctrl_left_def ctrl_reset_def ok_def word_less_nat_alt)
    ultimately show ?thesis using True assms(1) l by (simp add: step_eq)
  next
    case False
    then have "left d = 1" using l by (simp add: word_less_nat_alt)
    moreover have "left (?d\<lparr>c_step := CtrlDone\<rparr>) = 0" "ok (?d\<lparr>c_step := CtrlDone\<rparr>)"
      by (simp_all add: left_def ctrl_left_def ok_def)
    ultimately show ?thesis using False assms(1,3) by (simp add: step_eq)
  qed
qed

lemma any_step:
  assumes "host_arrays host" and "ok d" and "0 < left d"
  shows "\<exists>host' d'. step e host d = Inr (if left d = 1 then 1 else 0, host', d') \<and> host_arrays host' \<and>
    ok d' \<and> Suc (left d') = left d \<and> (left d = 1 \<longrightarrow> h_op host' = HostIdle)"
proof -
  have "c_step d \<noteq> CtrlDone" using assms(3) by (auto simp: left_def ctrl_left_def)
  then show ?thesis
    using last_step [OF _ assms(2,1)] advance_step [OF _ assms(2,1), of e]
    by (cases "c_step d = RecvACK1") auto
qed

end

sublocale requests \<subseteq> testcase step left ok host_arrays "\<lambda>h. h_op h = HostIdle"
proof unfold_locales
  fix host d e
  assume "host_arrays host" "ok d" "0 < left d"
  from any_step [OF this] show "\<exists>host' d'. step e host d = Inr (if left d = 1 then 1 else 0, host', d') \<and>
      host_arrays host' \<and> ok d' \<and> Suc (left d') = left d"
    by blast
next
  fix host d e r host' d'
  assume "host_arrays host" "ok d" "left d = 1" "step e host d = Inr (r, host', d')"
  then show "h_op host' = HostIdle" using any_step [of host d e] by auto
qed

interpretation getconf: requests "\<lambda>_ :: unit. tc_getconf_init" "\<lambda>_. tc_getconf_step" 3
  by unfold_locales (simp_all add: getconf_init_ok tc_getconf_step_def)

interpretation getstrs: requests tc_getstrs_init tc_getstrs_step 5
  by unfold_locales (simp_all add: getstrs_init_ok tc_getstrs_step_def)

subsection \<open>The properties\<close>

lemma init_arrays: "host_arrays (usbh_init a h)"
  by (simp add: host_arrays_def usbh_init_def usbh_reset_def del: arrays_ok_fold)

lemma calls_id: "calls_ok good (replicate n (e, id))"
  by (simp add: calls_ok_def)

lemma getconf_states: "getconf.ok st \<Longrightarrow> getconf.left st = 0 \<Longrightarrow> c_step st = CtrlDone"
  and getstrs_states: "getstrs.ok st \<Longrightarrow> getstrs.left st = 0 \<Longrightarrow> c_step st = CtrlDone"
  using ctrl_num_le [of "c_step st"]
  by (auto simp: getconf.ok_def getconf.left_def getstrs.ok_def getstrs.left_def ctrl_left_def word_less_nat_alt
      split: if_splits)

text \<open>
  The configuration test-case: started on an idle host, it runs its three GET_DESCRIPTOR requests in
  exactly 27 calls of \<open>step\<close>, whatever the host does between them. Every call but the last returns
  0; the last returns 1 and leaves the host idle.
\<close>

lemma getconf_completes:
  assumes "host_arrays host" and "h_op host = HostIdle" and "calls_ok host_arrays cs" and "length cs = 27"
  shows "\<exists>host0 st0 host' st'. tc_getconf_init host (test_getconf addr) = Inr (0, host0, st0) \<and>
    tc_run (\<lambda>_ :: unit. tc_getconf_step) cs host0 st0 = Inr (replicate 26 0 @ [1], host', st') \<and>
    c_step st' = CtrlDone \<and> h_op host' = HostIdle"
proof -
  let ?st = "ctrl_reset (test_getconf addr)"
  obtain host0 where init: "tc_getconf_init host (test_getconf addr) = Inr (0, host0, ?st)" "host_arrays host0"
    using getconf_init_ok [OF assms(1,2), of "test_getconf addr"] by (auto simp: test_getconf_def)
  have st: "getconf.ok ?st" "getconf.left ?st = length cs" "cs \<noteq> []"
    using assms(4) by (auto simp: getconf.ok_def getconf.left_def ctrl_left_def ctrl_reset_def test_getconf_def)
  then show ?thesis
    using getconf.run_completes [OF init(2) st assms(3)] init(1) assms(4) getconf_states by fastforce
qed

lemma getconf_completes_witness:
  "\<exists>host0 st0 host' st'. tc_getconf_init ((usbh_init 0 undefined)\<lparr>h_op := HostIdle\<rparr>) (test_getconf 0x1000) =
      Inr (0, host0, st0) \<and>
    tc_run (\<lambda>_ :: unit. tc_getconf_step) (replicate 27 ((), id)) host0 st0 = Inr (replicate 26 0 @ [1], host', st')"
proof -
  have "host_arrays ((usbh_init 0 undefined)\<lparr>h_op := HostIdle\<rparr>)" by (simp add: init_arrays)
  then show ?thesis using getconf_completes [OF _ _ calls_id length_replicate] by fastforce
qed

text \<open>
  The strings test-case: four GET_DESCRIPTOR requests and a GET_STATUS in exactly 45 calls,
  whatever the host does between them and whatever addresses \<open>malloc\<close> returns.
\<close>

lemma getstrs_completes:
  assumes "host_arrays host" and "h_op host = HostIdle" and "calls_ok host_arrays cs" and "length cs = 45"
  shows "\<exists>host0 st0 host' st'. tc_getstrs_init addr host (test_getstrs addr) = Inr (0, host0, st0) \<and>
    tc_run tc_getstrs_step cs host0 st0 = Inr (replicate 44 0 @ [1], host', st') \<and>
    c_step st' = CtrlDone \<and> h_op host' = HostIdle"
proof -
  let ?st = "ctrl_reset (test_getstrs addr)"
  obtain host0 where init: "tc_getstrs_init addr host (test_getstrs addr) = Inr (0, host0, ?st)" "host_arrays host0"
    using getstrs_init_ok [OF assms(1,2), of "test_getstrs addr" addr] by (auto simp: test_getstrs_def)
  have st: "getstrs.ok ?st" "getstrs.left ?st = length cs" "cs \<noteq> []"
    using assms(4) by (auto simp: getstrs.ok_def getstrs.left_def ctrl_left_def ctrl_reset_def test_getstrs_def)
  then show ?thesis
    using getstrs.run_completes [OF init(2) st assms(3)] init(1) assms(4) getstrs_states by fastforce
qed

lemma getstrs_completes_witness:
  "\<exists>host0 st0 host' st'. tc_getstrs_init 8 ((usbh_init 0 undefined)\<lparr>h_op := HostIdle\<rparr>) (test_getstrs 8) =
      Inr (0, host0, st0) \<and>
    tc_run tc_getstrs_step (replicate 45 (8, id)) host0 st0 = Inr (replicate 44 0 @ [1], host', st')"
proof -
  have "host_arrays ((usbh_init 0 undefined)\<lparr>h_op := HostIdle\<rparr>)" by (simp add: init_arrays)
  then show ?thesis using getstrs_completes [OF _ _ calls_id length_replicate] by fastforce
qed

text \<open>
  (C37) Setting the address takes six calls, whatever the host does between them. The third call, when the
  device has acknowledged the request, is the one that makes host and transfer use the new address, and
  it does so whatever the host was before.
\<close>

theorem setaddr_completes:
  assumes "host_arrays host" and "calls_ok host_arrays cs" and "length cs = 6" and "sa_stage st = SendSETUP"
  shows "(\<exists>host' st'. tc_run (\<lambda>_ :: unit. tc_setaddr_step) cs host st = Inr (replicate 5 0 @ [1], host', st') \<and>
      h_op host' = HostIdle) \<and>
    (\<exists>host' st'. tc_run (\<lambda>_ :: unit. tc_setaddr_step) (take 3 cs) host st = Inr ([0, 0, 0], host', st') \<and>
      h_addr host' = sa_addr st \<and> x_address (h_xfer host') = sa_addr st)"
proof
  have "six_left (sa_stage st) = length cs" "cs \<noteq> []" using assms(3,4) by auto
  then show "\<exists>host' st'. tc_run (\<lambda>_ :: unit. tc_setaddr_step) cs host st = Inr (replicate 5 0 @ [1], host', st') \<and>
      h_op host' = HostIdle"
    using setaddr.run_completes [OF assms(1) _ _ _ assms(2), of st] assms(3) by auto
  obtain a b c cs' where "cs = a # b # c # cs'"
    using assms(3) by (auto simp: numeral_eq_Suc length_Suc_conv)
  then show "\<exists>host' st'. tc_run (\<lambda>_ :: unit. tc_setaddr_step) (take 3 cs) host st = Inr ([0, 0, 0], host', st') \<and>
      h_addr host' = sa_addr st \<and> x_address (h_xfer host') = sa_addr st"
    using assms(4) by (simp add: tc_setaddr_step_def next_step_def with_xfer_def)
qed

lemma setaddr_completes_witness:
  "\<exists>host' st'. tc_run (\<lambda>_ :: unit. tc_setaddr_step) (take 3 (replicate 6 ((), id))) (usbh_init 0 undefined)
      \<lparr>sa_stage = SendSETUP, sa_addr = 0x23\<rparr> = Inr ([0, 0, 0], host', st') \<and> h_addr host' = 0x23"
  using setaddr_completes [OF init_arrays calls_id length_replicate, of "\<lparr>sa_stage = SendSETUP, sa_addr = 0x23\<rparr>"]
  by fastforce

end
