(* ===== verification/Tc_Bulk_Props.thy ===== *)
theory Tc_Bulk_Props
  imports Tc_Props
begin

text \<open>
  The bulk test-cases: the packets they queue are well formed, and each takes its fixed number
  of transactions.
\<close>

subsection \<open>The packets\<close>

text \<open>
  A host with a bulk OUT transaction of \<open>n\<close> data bytes ready for end-point \<open>ep\<close>: the token
  addresses it and passes the device's check, and so does the data packet.
\<close>

definition packet_ready :: "nat \<Rightarrow> u8 \<Rightarrow> usb_host_t \<Rightarrow> bool" where
  "packet_ready n ep host \<longleftrightarrow>
     (let x = h_xfer host; t = token_word (x_tok1 x) (x_tok2 x) in
      h_op host = HostBulkOUT \<and> x_type x = OUT \<and> x_stage x = NoXfer \<and> x_endpoint x = ep \<and>
      x_tx_len x = int n \<and> x_tx_ptr x = 0 \<and>
      crc5_check t \<and> t AND 0x07FF = token_payload (h_addr host) ep \<and>
      crc16_check (take n (x_tx x) @ [x_crc1 x, x_crc2 x]) (n + 2))"

lemma token_word_ready:
  "token_word (lo8 (crc5_calc (token_payload a e))) (hi8 (crc5_calc (token_payload a e))) AND 0x07FF =
     token_payload a e"
  "crc5_check (token_word (lo8 (crc5_calc w)) (hi8 (crc5_calc w)))"
  by (simp_all add: token_word_bytes crc5_calc_payload payload_bits crc5_check_calc)

lemma bulkout_xfer_ok:
  assumes "host_arrays host" and "n \<le> MAX_PACKET_SIZE"
  shows "\<exists>host'. tc_bulkout_xfer rnd host n ep = Inr host' \<and> host_arrays host' \<and> packet_ready n ep host' \<and>
    h_addr host' = h_addr host"
proof -
  have l: "length (x_tx (h_xfer host)) = MAX_PACKET_SIZE"
    using assms(1) by (simp add: host_arrays_def arrays_ok_def)
  then obtain tx where tx: "fill_rand rnd n (x_tx (h_xfer host)) = Inr tx" "length tx = MAX_PACKET_SIZE"
    using fill_rand_returns [of n "x_tx (h_xfer host)" rnd] assms(2) by auto
  have xtx: "x_tx (h_xfer (start_bulk op ty ep host)) = x_tx (h_xfer host)" for op ty
    by (simp add: start_bulk_def Let_def with_xfer_def)
  show ?thesis
    using assms tx crc16_ready [of n tx]
    by (simp add: tc_bulkout_xfer_def xtx Let_def set_tx_crc_returns)
      (simp add: packet_ready_def start_bulk_def with_xfer_def Let_def token_word_ready host_arrays_def arrays_ok_def)
qed

lemma start_bulk_fields [simp]:
  "x_tx (h_xfer (start_bulk op ty ep host)) = x_tx (h_xfer host)"
  "h_addr (start_bulk op ty ep host) = h_addr host"
  by (simp_all add: start_bulk_def Let_def with_xfer_def)

text \<open>The last lines of the routines that queue a packet: the CRC of the bytes put into \<open>tx\<close>.\<close>

lemma queue_packet:
  assumes "host_arrays host" and "length tx = MAX_PACKET_SIZE" and "n \<le> MAX_PACKET_SIZE"
  shows "\<exists>x. set_tx_crc (int n) ((h_xfer (start_bulk HostBulkOUT OUT ep host))
      \<lparr>x_tx_len := int n, x_tx_ptr := 0, x_tx := tx\<rparr>) = Inr x \<and> x_tx x = tx \<and>
    (let host' = with_xfer (start_bulk HostBulkOUT OUT ep host) x in
     host_arrays host' \<and> packet_ready n ep host' \<and> h_addr host' = h_addr host)"
  using assms crc16_ready [of n tx]
  by (simp add: set_tx_crc_returns)
    (simp add: packet_ready_def start_bulk_def with_xfer_def Let_def token_word_ready host_arrays_def arrays_ok_def)

lemma ddr3_command_length [simp]: "length (ddr3_command op n addr ident) = 6"
  by (simp add: ddr3_command_def)

lemma ddr3in_cmd_ok:
  assumes "host_arrays host"
  shows "\<exists>host'. tc_ddr3in_cmd host n st = Inr host' \<and> host_arrays host' \<and>
    packet_ready 6 (di_out st) host' \<and>
    take 6 (x_tx (h_xfer host')) = ddr3_command 0x80 n (di_addr st) (di_id st)"
proof -
  let ?c = "ddr3_command 0x80 n (di_addr st) (di_id st)"
  let ?tx = "?c @ drop 6 (x_tx (h_xfer host))"
  have l: "length (x_tx (h_xfer host)) = MAX_PACKET_SIZE"
    using assms by (simp add: host_arrays_def arrays_ok_def)
  then have "copy_front ?c (x_tx (h_xfer host)) = Inr ?tx" "length ?tx = MAX_PACKET_SIZE"
    by (simp_all add: copy_front_def)
  with queue_packet [OF assms this(2), of 6 "di_out st"] show ?thesis
    by (auto simp: tc_ddr3in_cmd_def Let_def with_xfer_def)
qed

lemma put_word_ok:
  "at + 4 \<le> length a \<Longrightarrow> \<exists>b. put_word at w a = Inr b \<and> length b = length a \<and>
     (\<forall>k \<le> at. take k b = take k a)"
  by (auto simp: put_word_def le32_def min_def)

lemma fill_words_ok:
  "6 + 4 * n \<le> length a \<Longrightarrow> \<exists>b. fill_words rnd n a = Inr b \<and> length b = length a \<and> take 6 b = take 6 a"
proof (induction n arbitrary: a rnd)
  case 0
  then show ?case by simp
next
  case (Suc n)
  then obtain b where "put_word (6 + 4 * n) (rnd 0) a = Inr b" "length b = length a" "take 6 b = take 6 a"
    using put_word_ok [of "6 + 4 * n" a "rnd 0"] by auto
  then show ?case using Suc.IH [of b "\<lambda>k. rnd (Suc k)"] Suc.prems by auto
qed

lemma ddr3out_cmd_ok:
  assumes "host_arrays host" and "0 \<le> n" and "n \<le> 24" and "do_beat st = 4"
  shows "\<exists>host'. tc_ddr3out_cmd rnd host n st = Inr host' \<and> host_arrays host' \<and>
    packet_ready (4 * nat n + 6) (do_out st) host' \<and>
    take 6 (x_tx (h_xfer host')) = ddr3_command 0x01 n (do_addr st) (do_id st)"
proof -
  let ?c = "ddr3_command 0x01 n (do_addr st) (do_id st)"
  let ?a = "?c @ drop 6 (x_tx (h_xfer host))"
  have l: "length (x_tx (h_xfer host)) = MAX_PACKET_SIZE"
    using assms(1) by (simp add: host_arrays_def arrays_ok_def)
  then have a: "copy_front ?c (x_tx (h_xfer host)) = Inr ?a" "length ?a = MAX_PACKET_SIZE"
    by (simp_all add: copy_front_def)
  moreover have room: "6 + 4 * nat n \<le> length ?a" unfolding a(2) using assms(2,3) by simp
  moreover obtain tx where "fill_words rnd (nat n) ?a = Inr tx" "length tx = MAX_PACKET_SIZE"
      "take 6 tx = ?c"
    using fill_words_ok [OF room, of rnd] a(2) by auto
  moreover have "n * uint (do_beat st) + 6 = int (4 * nat n + 6)" "4 * nat n + 6 \<le> MAX_PACKET_SIZE"
    using assms(2,3,4) by simp_all
  ultimately show ?thesis
    using queue_packet [OF assms(1), of tx "4 * nat n + 6" "do_out st"]
    by (auto simp: tc_ddr3out_cmd_def Let_def with_xfer_def simp del: of_nat_add of_nat_mult)
qed

subsection \<open>The number of transactions\<close>

interpretation waitsof: testcase "\<lambda>_ :: unit. tc_waitsof_step" "\<lambda>st. if st = WaitIdle then 1 else 0"
    "\<lambda>_. True" host_arrays "\<lambda>_. True"
  by unfold_locales (auto simp: tc_waitsof_step_def split: waitsof_state_t.splits if_splits)

definition bulkin_left :: "bulkin_state_t \<Rightarrow> nat" where
  "bulkin_left st = (case bi_step st of BulkIN0 \<Rightarrow> 3 | BulkIN1 \<Rightarrow> 2 | BulkIN2 \<Rightarrow> 1 | BINDone \<Rightarrow> 0)"

lemma bulkin_xfer_arrays [simp]: "host_arrays (tc_bulkin_xfer host ep) = host_arrays host"
  by (simp add: tc_bulkin_xfer_def Let_def)

lemma host_idle_op [simp]: "h_op (host_idle host) = HostIdle"
  by (simp add: host_idle_def)

interpretation bulkin: testcase "\<lambda>_ :: unit. tc_bulkin_step" bulkin_left "\<lambda>_. True" host_arrays
    "\<lambda>h. h_op h = HostIdle"
  by unfold_locales (auto simp: tc_bulkin_step_def bulkin_left_def split: bulkin_step_t.splits)

primrec bulkout_left :: "bulkout_state_t \<Rightarrow> nat" where
  "bulkout_left BulkOUT0 = 7"
| "bulkout_left BulkOUT1 = 6"
| "bulkout_left BulkOUT2 = 5"
| "bulkout_left BulkOUT3 = 4"
| "bulkout_left BulkOUT4 = 3"
| "bulkout_left BulkOUT5 = 2"
| "bulkout_left BulkOUT6 = 1"
| "bulkout_left BulkDone = 0"

lemma bulkout_step_ok:
  assumes "host_arrays host" and "bulkout_next st = Some (n, st')"
  shows "\<exists>host'. tc_bulkout_step rnd host st = Inr (0, host', st') \<and> host_arrays host' \<and>
    packet_ready n BULK_OUT_EP host'"
proof -
  have "n \<le> MAX_PACKET_SIZE" using assms(2) by (cases st) auto
  from bulkout_xfer_ok [OF assms(1) this, of rnd BULK_OUT_EP] show ?thesis
    using assms(2) by (auto simp: tc_bulkout_step_def)
qed

interpretation bulkout: testcase tc_bulkout_step bulkout_left "\<lambda>_. True" host_arrays
    "\<lambda>h. h_op h = HostIdle"
proof unfold_locales
  fix host st and e :: rand_t
  assume h: "host_arrays host" and l: "0 < bulkout_left st"
  show "\<exists>host' st'. tc_bulkout_step e host st = Inr (if bulkout_left st = 1 then 1 else 0, host', st') \<and>
      host_arrays host' \<and> True \<and> Suc (bulkout_left st') = bulkout_left st"
  proof (cases "bulkout_next st")
    case None
    then show ?thesis using h l by (cases st) (auto simp: tc_bulkout_step_def)
  next
    case (Some p)
    then have "Suc (bulkout_left (snd p)) = bulkout_left st" "bulkout_left st \<noteq> 1"
      by (cases st; auto)+
    then show ?thesis using bulkout_step_ok [OF h, of st "fst p" "snd p" e] Some by auto
  qed
next
  fix host st r host' d' and e :: rand_t
  assume "bulkout_left st = 1" "tc_bulkout_step e host st = Inr (r, host', d')"
  then show "h_op host' = HostIdle" by (cases st) (auto simp: tc_bulkout_step_def)
qed

definition ddr3in_left :: "ddr3in_state_t \<Rightarrow> nat" where
  "ddr3in_left st = (case di_step st of DDR3Cmd \<Rightarrow> 12 - unat (di_iter st) | DDR3Dat \<Rightarrow> 6 - unat (di_iter st)
     | DDR3InEnd \<Rightarrow> 0)"

lemma ddr3_lengths:
  "i < 6 \<Longrightarrow> \<exists>n. aget ddr3in_lengths (uint (i :: u8)) = Inr n"
  "i < 7 \<Longrightarrow> \<exists>n. aget ddr3out_lengths (uint (i :: u8)) = Inr n \<and> 0 \<le> n \<and> n \<le> 24"
proof -
  assume "i < 6"
  then have "i = 0 \<or> i = 1 \<or> i = 2 \<or> i = 3 \<or> i = 4 \<or> i = 5" by unat_arith
  then show "\<exists>n. aget ddr3in_lengths (uint i) = Inr n"
    by (auto simp: aget_def ddr3in_lengths_def)
next
  assume "i < 7"
  then have "i = 0 \<or> i = 1 \<or> i = 2 \<or> i = 3 \<or> i = 4 \<or> i = 5 \<or> i = 6" by unat_arith
  then show "\<exists>n. aget ddr3out_lengths (uint i) = Inr n \<and> 0 \<le> n \<and> n \<le> 24"
    by (auto simp: aget_def ddr3out_lengths_def)
qed

lemma iter_Suc: "(i :: u8) < 7 \<Longrightarrow> unat (i + 1) = Suc (unat i)"
  by (rule unat_Suc_small) (simp add: word_less_nat_alt)

lemma ddr3in_step_ok:
  assumes "host_arrays host" and "di_iter st < 6" and "0 < ddr3in_left st"
  shows "\<exists>host' st'. tc_ddr3in_step host st = Inr (if ddr3in_left st = 1 then 1 else 0, host', st') \<and>
    host_arrays host' \<and> (di_iter st' < 6 \<or> di_step st' = DDR3InEnd) \<and> Suc (ddr3in_left st') = ddr3in_left st \<and>
    (ddr3in_left st = 1 \<longrightarrow> h_op host' = HostIdle)"
proof -
  have i: "unat (di_iter st + 1) = Suc (unat (di_iter st))" "unat (di_iter st) < 6"
    using iter_Suc [of "di_iter st"] assms(2) by (auto simp: word_less_nat_alt)
  consider (cmd) "di_step st = DDR3Cmd" | (dat) "di_step st = DDR3Dat"
    using assms(3) by (cases "di_step st") (auto simp: ddr3in_left_def)
  then show ?thesis
  proof cases
    case cmd
    show ?thesis
    proof (cases "di_iter st + 1 < 6")
      case True
      let ?st = "st\<lparr>di_iter := di_iter st + 1, di_step := DDR3Cmd\<rparr>"
      obtain n where "aget ddr3in_lengths (uint (di_iter st + 1)) = Inr n"
        using ddr3_lengths(1) [OF True] by auto
      moreover obtain host' where "tc_ddr3in_cmd host n (st\<lparr>di_iter := di_iter st + 1\<rparr>) = Inr host'" "host_arrays host'"
        using ddr3in_cmd_ok [OF assms(1), of n "st\<lparr>di_iter := di_iter st + 1\<rparr>"] by auto
      moreover have "Suc (ddr3in_left ?st) = ddr3in_left st" "ddr3in_left st \<noteq> 1"
        using cmd True i by (auto simp: ddr3in_left_def word_less_nat_alt)
      ultimately show ?thesis
        using cmd True by (simp add: tc_ddr3in_step_def Let_def)
    next
      case False
      let ?st = "st\<lparr>di_iter := 0, di_step := DDR3Dat\<rparr>"
      have "Suc (ddr3in_left ?st) = ddr3in_left st" "ddr3in_left st \<noteq> 1"
        using cmd False i by (auto simp: ddr3in_left_def word_less_nat_alt)
      then show ?thesis
        using cmd False assms(1) by (simp add: tc_ddr3in_step_def tc_ddr3in_dat_def Let_def)
    qed
  next
    case dat
    show ?thesis
    proof (cases "di_iter st + 1 < 6")
      case True
      let ?st = "st\<lparr>di_iter := di_iter st + 1, di_step := DDR3Dat\<rparr>"
      have "Suc (ddr3in_left ?st) = ddr3in_left st" "ddr3in_left st \<noteq> 1"
        using dat True i by (auto simp: ddr3in_left_def word_less_nat_alt)
      then show ?thesis
        using dat True assms(1)
        by (simp add: tc_ddr3in_step_def tc_ddr3in_dat_def Let_def leD)
    next
      case False
      let ?st = "st\<lparr>di_iter := di_iter st + 1, di_step := DDR3InEnd\<rparr>"
      have "Suc (ddr3in_left ?st) = ddr3in_left st" "ddr3in_left st = 1"
        using dat False i by (auto simp: ddr3in_left_def word_less_nat_alt)
      then show ?thesis
        using dat False assms(1)
        by (simp add: tc_ddr3in_step_def Let_def leI) 
    qed
  qed
qed

interpretation ddr3in: testcase "\<lambda>_ :: unit. tc_ddr3in_step" ddr3in_left
    "\<lambda>st. di_iter st < 6 \<or> di_step st = DDR3InEnd" host_arrays "\<lambda>h. h_op h = HostIdle"
proof -
  have lt: "di_iter st < 6" if "0 < ddr3in_left st" "di_iter st < 6 \<or> di_step st = DDR3InEnd" for st
    using that by (auto simp: ddr3in_left_def)
  show "testcase (\<lambda>_ :: unit. tc_ddr3in_step) ddr3in_left (\<lambda>st. di_iter st < 6 \<or> di_step st = DDR3InEnd)
      host_arrays (\<lambda>h. h_op h = HostIdle)"
  proof
    show "\<exists>host' d'. tc_ddr3in_step host d = Inr (if ddr3in_left d = 1 then 1 else 0, host', d') \<and>
        host_arrays host' \<and> (di_iter d' < 6 \<or> di_step d' = DDR3InEnd) \<and> Suc (ddr3in_left d') = ddr3in_left d"
      if "host_arrays host" "di_iter d < 6 \<or> di_step d = DDR3InEnd" "0 < ddr3in_left d" for host d
      using ddr3in_step_ok [OF that(1) lt [OF that(3,2)] that(3)] by blast
    show "h_op host' = HostIdle"
      if "host_arrays host" "di_iter d < 6 \<or> di_step d = DDR3InEnd" "ddr3in_left d = 1"
        "tc_ddr3in_step host d = Inr (r, host', d')" for host d r host' d'
      using ddr3in_step_ok [OF that(1) lt [OF _ that(2)]] that(3,4) by auto
  qed
qed

definition ddr3out_left :: "ddr3out_state_t \<Rightarrow> nat" where
  "ddr3out_left st = (case do_step st of DDR3Out \<Rightarrow> 14 - unat (do_iter st) | DDR3Res \<Rightarrow> 7 - unat (do_iter st)
     | DDR3OutEnd \<Rightarrow> 0)"

definition ddr3out_ok :: "ddr3out_state_t \<Rightarrow> bool" where
  "ddr3out_ok st \<longleftrightarrow> do_beat st = 4 \<and> (do_iter st < 7 \<or> do_step st = DDR3OutEnd)"

lemma ddr3out_step_ok:
  assumes "host_arrays host" and "ddr3out_ok st" and "0 < ddr3out_left st"
  shows "\<exists>host' st'. tc_ddr3out_step rnd host st = Inr (if ddr3out_left st = 1 then 1 else 0, host', st') \<and>
    host_arrays host' \<and> ddr3out_ok st' \<and> Suc (ddr3out_left st') = ddr3out_left st \<and>
    (ddr3out_left st = 1 \<longrightarrow> h_op host' = HostIdle)"
proof -
  have b: "do_beat st = 4" "do_iter st < 7"
    using assms(2,3) by (auto simp: ddr3out_ok_def ddr3out_left_def)
  have i: "unat (do_iter st + 1) = Suc (unat (do_iter st))" "unat (do_iter st) < 7"
    using iter_Suc [of "do_iter st"] b(2) by (auto simp: word_less_nat_alt)
  consider (out) "do_step st = DDR3Out" | (res) "do_step st = DDR3Res"
    using assms(3) by (cases "do_step st") (auto simp: ddr3out_left_def)
  then show ?thesis
  proof cases
    case out
    show ?thesis
    proof (cases "do_iter st + 1 < 7")
      case True
      let ?st = "st\<lparr>do_iter := do_iter st + 1, do_step := DDR3Out\<rparr>"
      obtain n where n: "aget ddr3out_lengths (uint (do_iter st + 1)) = Inr n" "0 \<le> n" "n \<le> 24"
        using ddr3_lengths(2) [OF True] by auto
      then obtain host' where "tc_ddr3out_cmd rnd host n (st\<lparr>do_iter := do_iter st + 1\<rparr>) = Inr host'" "host_arrays host'"
        using ddr3out_cmd_ok [OF assms(1) n(2,3), of "st\<lparr>do_iter := do_iter st + 1\<rparr>" rnd] b by auto
      moreover have "Suc (ddr3out_left ?st) = ddr3out_left st" "ddr3out_left st \<noteq> 1" "ddr3out_ok ?st"
        using out True i b by (auto simp: ddr3out_left_def ddr3out_ok_def word_less_nat_alt)
      ultimately show ?thesis
        using out True n(1) by (simp add: tc_ddr3out_step_def Let_def)
    next
      case False
      let ?st = "st\<lparr>do_iter := 0, do_step := DDR3Res\<rparr>"
      have "Suc (ddr3out_left ?st) = ddr3out_left st" "ddr3out_left st \<noteq> 1" "ddr3out_ok ?st"
        using out False i b by (auto simp: ddr3out_left_def ddr3out_ok_def word_less_nat_alt)
      then show ?thesis
        using out False assms(1) by (simp add: tc_ddr3out_step_def tc_ddr3out_res_def Let_def)
    qed
  next
    case res
    show ?thesis
    proof (cases "do_iter st + 1 < 7")
      case True
      let ?st = "st\<lparr>do_iter := do_iter st + 1, do_step := DDR3Res\<rparr>"
      have "Suc (ddr3out_left ?st) = ddr3out_left st" "ddr3out_left st \<noteq> 1" "ddr3out_ok ?st"
        using res True i b by (auto simp: ddr3out_left_def ddr3out_ok_def word_less_nat_alt)
      then show ?thesis
        using res True assms(1) by (simp add: tc_ddr3out_step_def tc_ddr3out_res_def Let_def)
    next
      case False
      let ?st = "st\<lparr>do_iter := do_iter st + 1, do_step := DDR3OutEnd\<rparr>"
      have "Suc (ddr3out_left ?st) = ddr3out_left st" "ddr3out_left st = 1" "ddr3out_ok ?st"
        using res False i b by (auto simp: ddr3out_left_def ddr3out_ok_def word_less_nat_alt)
      then show ?thesis
        using res False assms(1) by (simp add: tc_ddr3out_step_def Let_def)
    qed
  qed
qed

interpretation ddr3out: testcase tc_ddr3out_step ddr3out_left ddr3out_ok host_arrays "\<lambda>h. h_op h = HostIdle"
proof
  fix host d and e :: rand_t
  assume "host_arrays host" "ddr3out_ok d" "0 < ddr3out_left d"
  from ddr3out_step_ok [OF this, of e]
  show "\<exists>host' d'. tc_ddr3out_step e host d = Inr (if ddr3out_left d = 1 then 1 else 0, host', d') \<and>
      host_arrays host' \<and> ddr3out_ok d' \<and> Suc (ddr3out_left d') = ddr3out_left d"
    by blast
next
  fix host d r host' d' and e :: rand_t
  assume "host_arrays host" "ddr3out_ok d" "ddr3out_left d = 1" "tc_ddr3out_step e host d = Inr (r, host', d')"
  then show "h_op host' = HostIdle" using ddr3out_step_ok [of host d e] by auto
qed

subsection \<open>The parity test\<close>

text \<open>
  \<open>adjust_seq\<close> reads \<open>ep_seq\<close> at the end-point of the transfer, so the host must also keep
  this below 16.
\<close>

definition parity_good :: "usb_host_t \<Rightarrow> bool" where
  "parity_good host \<longleftrightarrow> host_arrays host \<and> x_endpoint (h_xfer host) < 16"

definition parity_left :: "parity_state_t \<Rightarrow> nat" where
  "parity_left st = (case pa_step st of ParIN0 \<Rightarrow> 4 | ParIN1 \<Rightarrow> 3 | ParOUT0 \<Rightarrow> 2 | ParOUT1 \<Rightarrow> 1 | DonePar \<Rightarrow> 0)
     + (if pa_step st = DonePar then 0 else 4 * (2 - unat (pa_stage st)))"

definition parity_ok :: "parity_state_t \<Rightarrow> bool" where
  "parity_ok st \<longleftrightarrow> pa_stage st < 3 \<or> pa_step st = DonePar"

lemma xor_ep: "(e :: u8) < 16 \<Longrightarrow> e XOR 0xF < 16"
proof -
  assume "e < 16"
  then have "take_bit 4 e = e"
    by (intro word_uint_eqI) (simp add: unsigned_take_bit_eq take_bit_int_eq_self word_less_def)
  then have "take_bit 4 (e XOR 0xF) = e XOR 0xF" by (simp add: take_bit_xor)
  then have "uint (e XOR 0xF) < 2 ^ 4"
    by (metis take_bit_int_less_exp unsigned_take_bit_eq)
  then show ?thesis by (simp add: word_less_def)
qed

lemma adjust_ok:
  assumes "parity_good host"
  shows "\<exists>host'. adjust_host f host = Inr host' \<and> parity_good host'"
proof -
  have e: "unat (x_endpoint (h_xfer host)) < length (x_ep_seq (h_xfer host))"
    using assms by (simp add: parity_good_def host_arrays_def arrays_ok_def word_less_nat_alt)
  show ?thesis
    using assms e
    by (cases f)
      (auto simp: adjust_host_def adjust_seq_def adjust_crc_def adjust_ept_def transfer_ack_def aget_def aput_def
        parity_good_def host_arrays_def arrays_ok_def transfer_tok_def with_xfer_def Let_def xor_ep)
qed

lemma parity_xfer_ok:
  assumes "parity_good host" and "ep = BULK_IN_EP \<or> ep = BULK_OUT_EP"
  shows "\<exists>host'. tc_parity_xfer rnd host ep = Inr host' \<and> parity_good host'"
  using assms(2)
proof
  assume "ep = BULK_IN_EP"
  then show ?thesis using assms(1)
    by (simp add: tc_parity_xfer_def Let_def parity_good_def) (simp add: start_bulk_def with_xfer_def Let_def)
next
  assume ep: "ep = BULK_OUT_EP"
  define n where "n = unat (push_bit 1 (rnd 0 OR 0x01) AND 0x07)"
  have "push_bit 1 (rnd 0 OR 0x01) AND 0x07 \<le> (0x07 :: u32)" by (rule word_and_le1)
  then have n: "n \<le> MAX_PACKET_SIZE" by (simp add: n_def word_le_nat_alt)
  have l: "length (x_tx (h_xfer host)) = MAX_PACKET_SIZE" "host_arrays host"
    using assms(1) by (simp_all add: parity_good_def host_arrays_def arrays_ok_def)
  obtain tx where tx: "fill_rand (\<lambda>k. rnd (Suc k)) n (x_tx (h_xfer host)) = Inr tx" "length tx = MAX_PACKET_SIZE"
    using fill_rand_returns [of n "x_tx (h_xfer host)" "\<lambda>k. rnd (Suc k)"] n l(1) by auto
  have "x_endpoint (h_xfer (start_bulk HostBulkOUT OUT ep host)) = ep"
    by (simp add: start_bulk_def with_xfer_def Let_def)
  moreover have "tc_parity_xfer rnd host ep =
      bind_c (fill_rand (\<lambda>k. rnd (Suc k)) n (x_tx (h_xfer host))) (\<lambda>tx.
      bind_c (set_tx_crc (int n) ((h_xfer (start_bulk HostBulkOUT OUT ep host))
        \<lparr>x_tx_len := int n, x_tx_ptr := 0, x_tx := tx\<rparr>)) (\<lambda>xfer.
      Inr (with_xfer (start_bulk HostBulkOUT OUT ep host) xfer)))"
    unfolding n_def by (simp add: tc_parity_xfer_def ep Let_def)
  ultimately show ?thesis
    using queue_packet [OF l(2) tx(2) n, of ep] tx(1) ep
    by (auto simp: Let_def parity_good_def packet_ready_def with_xfer_def)
qed

lemma parity_good_simps [simp]:
  "parity_good (host_idle host) = parity_good host"
  by (simp add: parity_good_def) (simp add: host_idle_def with_xfer_def)

text \<open>Transfer and adjustment, in either order.\<close>

lemma parity_pair:
  assumes "parity_good host" and "ep = BULK_IN_EP \<or> ep = BULK_OUT_EP"
  shows "\<exists>h k. adjust_host f host = Inr h \<and> tc_parity_xfer rnd h ep = Inr k \<and> parity_good k"
    and "\<exists>h k. tc_parity_xfer rnd host ep = Inr h \<and> adjust_host f h = Inr k \<and> parity_good k"
  using adjust_ok [OF assms(1), of f] parity_xfer_ok [OF assms, of rnd]
    adjust_ok [of _ f] parity_xfer_ok [OF _ assms(2), of _ rnd] by metis+

lemma parity_init_ok:
  assumes "parity_good host" and "pa_stage st < 3"
  shows "\<exists>host' st'. tc_parity_init rnd host st = Inr (0, host', st') \<and> parity_good host' \<and>
    pa_step st' = ParIN0 \<and> pa_stage st' = pa_stage st"
proof -
  have "pa_stage st \<noteq> 3" using assms(2) by auto
  then show ?thesis
    using parity_pair(2) [OF assms(1), where ep = BULK_IN_EP and rnd = rnd and f = "if pa_stage st = 0 then Adjust_Seq
        else if pa_stage st = 1 then Adjust_Crc else if pa_stage st = 2 then Adjust_Ept else pa_adjust st"]
    by (auto simp: tc_parity_init_def Let_def)
qed

lemma parity_left_next:
  "pa_step st = ParIN0 \<Longrightarrow> Suc (parity_left (st\<lparr>pa_step := ParIN1\<rparr>)) = parity_left st \<and> parity_left st \<noteq> 1"
  "pa_step st = ParIN1 \<Longrightarrow> Suc (parity_left (st\<lparr>pa_step := ParOUT0\<rparr>)) = parity_left st \<and> parity_left st \<noteq> 1"
  "pa_step st = ParOUT0 \<Longrightarrow> Suc (parity_left (st\<lparr>pa_step := ParOUT1\<rparr>)) = parity_left st \<and> parity_left st \<noteq> 1"
  by (simp_all add: parity_left_def)

lemma parity_step_ok:
  assumes "parity_good host" and "parity_ok st" and "0 < parity_left st"
  shows "\<exists>host' st'. tc_parity_step rnd host st = Inr (if parity_left st = 1 then 1 else 0, host', st') \<and>
    parity_good host' \<and> parity_ok st' \<and> Suc (parity_left st') = parity_left st \<and>
    (parity_left st = 1 \<longrightarrow> h_op host' = HostIdle)"
proof -
  have s: "pa_stage st < 3" using assms(2,3) by (auto simp: parity_ok_def parity_left_def)
  then have i: "unat (pa_stage st + 1) = Suc (unat (pa_stage st))" "unat (pa_stage st) < 3"
    using iter_Suc [of "pa_stage st"] by (auto simp: word_less_nat_alt)
  have ok: "parity_ok (st\<lparr>pa_step := p\<rparr>)" for p using s by (simp add: parity_ok_def)
  note pair = parity_pair(1) [OF assms(1), where rnd = rnd and f = "pa_adjust st"]
    parity_pair(2) [OF assms(1), where rnd = rnd and f = "pa_adjust st"]
  show ?thesis
  proof (cases "pa_step st")
    case ParIN0
    then show ?thesis using pair(1) [of BULK_IN_EP] parity_left_next(1) [of st] ok
      by (auto simp: tc_parity_step_def)
  next
    case ParIN1
    then show ?thesis using pair(2) [of BULK_OUT_EP] parity_left_next(2) [of st] ok
      by (auto simp: tc_parity_step_def)
  next
    case ParOUT0
    then show ?thesis using pair(1) [of BULK_OUT_EP] parity_left_next(3) [of st] ok
      by (auto simp: tc_parity_step_def)
  next
    case ParOUT1
    let ?st = "st\<lparr>pa_stage := pa_stage st + 1\<rparr>"
    show ?thesis
    proof (cases "pa_stage st + 1 < 3")
      case True
      obtain host' st' where
          "tc_parity_init rnd (host_idle host) ?st = Inr (0, host', st')"
          "parity_good host'" "pa_step st' = ParIN0" "pa_stage st' = pa_stage st + 1"
        using parity_init_ok [of "host_idle host" ?st rnd] True assms(1) by auto
      moreover from this have "Suc (parity_left st') = parity_left st" "parity_left st \<noteq> 1" "parity_ok st'"
        using ParOUT1 True i by (auto simp: parity_left_def parity_ok_def word_less_nat_alt)
      ultimately show ?thesis using ParOUT1 True by (simp add: tc_parity_step_def Let_def)
    next
      case False
      then have "parity_left st = 1" using ParOUT1 i
        by (auto simp: parity_left_def word_less_nat_alt)
      moreover have "parity_left (?st\<lparr>pa_step := DonePar\<rparr>) = 0" "parity_ok (?st\<lparr>pa_step := DonePar\<rparr>)"
        by (simp_all add: parity_left_def parity_ok_def)
      ultimately show ?thesis using ParOUT1 False assms(1) by (simp add: tc_parity_step_def Let_def)
    qed
  next
    case DonePar
    then show ?thesis using assms(3) by (simp add: parity_left_def)
  qed
qed

interpretation parity: testcase tc_parity_step parity_left parity_ok parity_good "\<lambda>h. h_op h = HostIdle"
proof
  fix host d and e :: rand_t
  assume "parity_good host" "parity_ok d" "0 < parity_left d"
  from parity_step_ok [OF this, of e]
  show "\<exists>host' d'. tc_parity_step e host d = Inr (if parity_left d = 1 then 1 else 0, host', d') \<and>
      parity_good host' \<and> parity_ok d' \<and> Suc (parity_left d') = parity_left d"
    by blast
next
  fix host d r host' d' and e :: rand_t
  assume "parity_good host" "parity_ok d" "parity_left d = 1" "tc_parity_step e host d = Inr (r, host', d')"
  then show "h_op host' = HostIdle" using parity_step_ok [of host d e] by auto
qed

subsection \<open>The properties\<close>

lemma init_parity_good: "parity_good (usbh_init a h)"
  by (simp add: parity_good_def init_arrays) (simp add: usbh_init_def usbh_reset_def xfer_zero_def)

text \<open>
  The bulk OUT test-case: after \<open>init\<close> has queued its packet of 16 bytes, it takes seven
  calls, whatever the host does between them and whatever the random bytes are: six return 0, the
  last returns 1 and leaves the host idle.
\<close>

theorem bulkout_completes:
  assumes "host_arrays host" and "calls_ok host_arrays cs" and "length cs = 7"
  shows "\<exists>host0 host'. tc_bulkout_init rnd host st = Inr (0, host0, BulkOUT0) \<and>
    packet_ready 16 BULK_OUT_EP host0 \<and>
    tc_run tc_bulkout_step cs host0 BulkOUT0 = Inr (replicate 6 0 @ [1], host', BulkDone) \<and>
    h_op host' = HostIdle"
proof -
  obtain host0 where init: "tc_bulkout_init rnd host st = Inr (0, host0\<lparr>h_step := 0\<rparr>, BulkOUT0)"
      "packet_ready 16 BULK_OUT_EP host0" "host_arrays host0"
    using bulkout_xfer_ok [OF assms(1), of 16 rnd BULK_OUT_EP] by (auto simp: tc_bulkout_init_def)
  have "cs \<noteq> []" using assms(3) by auto
  then obtain host' d' where
      "tc_run tc_bulkout_step cs (host0\<lparr>h_step := 0\<rparr>) BulkOUT0 = Inr (replicate (length cs - 1) 0 @ [1], host', d')"
      "bulkout_left d' = 0" "h_op host' = HostIdle"
    using bulkout.run_completes [of "host0\<lparr>h_step := 0\<rparr>" BulkOUT0 cs] init(3) assms(2,3) by auto
  moreover have "bulkout_left d' = 0 \<Longrightarrow> d' = BulkDone" by (cases d') auto
  moreover have "packet_ready 16 BULK_OUT_EP (host0\<lparr>h_step := 0\<rparr>)"
    using init(2) by (simp add: packet_ready_def)
  ultimately show ?thesis using init(1) assms(3) by auto
qed

lemma bulkout_completes_witness:
  "\<exists>host0 host'. tc_bulkout_init (\<lambda>_. 7) (usbh_init 0 undefined) BulkOUT0 = Inr (0, host0, BulkOUT0) \<and>
    tc_run tc_bulkout_step (replicate 7 (\<lambda>_. 7, id)) host0 BulkOUT0 =
      Inr (replicate 6 0 @ [1], host', BulkDone)"
  using bulkout_completes [OF init_arrays calls_id length_replicate] by blast

text \<open>
  Each call of the bulk OUT test-case but the last queues a packet of the next length of its
  sequence (37, 0, 1, 2, 3, 4) for end-point 2 of the current address, the token and the data with
  checks the device accepts.
\<close>

lemma bulkout_packets:
  assumes "host_arrays host" and "(st, n, st') \<in> {(BulkOUT0, 37, BulkOUT1), (BulkOUT1, 0, BulkOUT2),
    (BulkOUT2, 1, BulkOUT3), (BulkOUT3, 2, BulkOUT4), (BulkOUT4, 3, BulkOUT5), (BulkOUT5, 4, BulkOUT6)}"
  shows "\<exists>host'. tc_bulkout_step rnd host st = Inr (0, host', st') \<and> packet_ready n BULK_OUT_EP host'"
proof -
  have "bulkout_next st = Some (n, st')" using assms(2) by auto
  then show ?thesis using bulkout_step_ok [OF assms(1)] by blast
qed

lemma bulkout_packets_witness:
  "\<exists>host'. tc_bulkout_step (\<lambda>_. 7) (usbh_init 0 undefined) BulkOUT1 = Inr (0, host', BulkOUT2) \<and>
    packet_ready 0 BULK_OUT_EP host'"
  by (rule bulkout_packets [OF init_arrays]) simp

text \<open>
  The test-case that writes the memory: \<open>init\<close>, then thirteen calls that return 0 and one
  that returns 1, seven commands and then seven reads, whatever the host does between them.
\<close>

theorem ddr3out_completes:
  assumes "host_arrays host" and "calls_ok host_arrays cs" and "length cs = 14"
  shows "\<exists>host0 st0 host' st'. tc_ddr3out_init rnd host (test_ddr3out addr) = Inr (0, host0, st0) \<and>
    tc_run tc_ddr3out_step cs host0 st0 = Inr (replicate 13 0 @ [1], host', st') \<and>
    do_step st' = DDR3OutEnd \<and> h_op host' = HostIdle"
proof -
  define st where "st = (test_ddr3out addr)\<lparr>do_step := DDR3Out, do_beat := 4, do_out := DDR3_OUT_EP,
    do_in := DDR3_IN_EP, do_id := ucast (rnd 0 AND 0x0F)\<rparr>"
  have st: "ddr3out_ok st" "ddr3out_left st = 14" "do_beat st = 4"
    by (simp_all add: st_def ddr3out_ok_def ddr3out_left_def test_ddr3out_def)
  obtain host0 where cmd: "tc_ddr3out_cmd (\<lambda>k. rnd (Suc k)) host 4 st = Inr host0" "host_arrays host0"
    using ddr3out_cmd_ok [OF assms(1), of 4 st "\<lambda>k. rnd (Suc k)"] st by auto
  have len: "aget ddr3out_lengths (uint (do_iter st)) = Inr 4"
    by (simp add: st_def test_ddr3out_def aget_def ddr3out_lengths_def)
  have init: "tc_ddr3out_init rnd host (test_ddr3out addr) = Inr (0, host0\<lparr>h_step := 0\<rparr>, st)"
    using cmd(1) len by (simp add: tc_ddr3out_init_def Let_def flip: st_def)
  have "cs \<noteq> []" "ddr3out_left st = length cs" "host_arrays (host0\<lparr>h_step := 0\<rparr>)"
    using assms(3) st cmd(2) by auto
  then obtain host' d' where
      "tc_run tc_ddr3out_step cs (host0\<lparr>h_step := 0\<rparr>) st = Inr (replicate (length cs - 1) 0 @ [1], host', d')"
      "ddr3out_ok d'" "ddr3out_left d' = 0" "h_op host' = HostIdle"
    using ddr3out.run_completes [OF _ st(1) _ _ assms(2)] by blast
  moreover from this have "do_step d' = DDR3OutEnd"
    by (auto simp: ddr3out_ok_def ddr3out_left_def word_less_nat_alt split: ddr3out_step_t.splits)
  ultimately show ?thesis using init assms(3) by auto
qed

lemma ddr3out_completes_witness:
  "\<exists>host0 st0 host' st'. tc_ddr3out_init (\<lambda>_. 7) (usbh_init 0 undefined) (test_ddr3out 0x1000) = Inr (0, host0, st0) \<and>
    tc_run tc_ddr3out_step (replicate 14 (\<lambda>_. 9, id)) host0 st0 = Inr (replicate 13 0 @ [1], host', st') \<and>
    do_step st' = DDR3OutEnd"
  using ddr3out_completes [OF init_arrays calls_id length_replicate] by blast

text \<open>
  (C39) A write command for the memory never overruns the transmit buffer: for each length of the
  table it queues \<open>4n + 6\<close> bytes, a packet the device accepts, which starts with the command.
\<close>

theorem ddr3out_packet:
  assumes "host_arrays host" and "n \<in> set ddr3out_lengths" and "do_beat st = 4"
  shows "\<exists>host'. tc_ddr3out_cmd rnd host n st = Inr host' \<and> packet_ready (4 * nat n + 6) (do_out st) host' \<and>
    take 6 (x_tx (h_xfer host')) = ddr3_command 0x01 n (do_addr st) (do_id st)"
proof -
  have "0 \<le> n" "n \<le> 24" using assms(2) by (auto simp: ddr3out_lengths_def)
  then show ?thesis using ddr3out_cmd_ok [OF assms(1) _ _ assms(3)] by blast
qed

lemma ddr3out_packet_witness:
  "\<exists>host'. tc_ddr3out_cmd (\<lambda>_. 7) (usbh_init 0 undefined) 24 (test_ddr3out 0x0ABCDEF0) = Inr host' \<and>
    packet_ready 102 5 host' \<and> take 6 (x_tx (h_xfer host')) = [0x01, 0x17, 0xF0, 0xDE, 0xBC, 0x1A]"
  using ddr3out_packet [OF init_arrays, of 24 "test_ddr3out 0x0ABCDEF0" "\<lambda>_. 7"]
  by (auto simp: ddr3out_lengths_def test_ddr3out_def ddr3_command_def)

text \<open>
  The test-case that reads the memory: \<open>init\<close>, then eleven calls that return 0 and one that
  returns 1, six commands and then six reads, whatever the host does between them.
\<close>

lemma ddr3in_completes:
  assumes "host_arrays host" and "calls_ok host_arrays cs" and "length cs = 12"
  shows "\<exists>host0 host' st'. tc_ddr3in_init host (test_ddr3in rnd addr) = Inr (0, host0, test_ddr3in rnd addr) \<and>
    packet_ready 6 DDR3_OUT_EP host0 \<and>
    tc_run (\<lambda>_ :: unit. tc_ddr3in_step) cs host0 (test_ddr3in rnd addr) = Inr (replicate 11 0 @ [1], host', st') \<and>
    di_step st' = DDR3InEnd \<and> h_op host' = HostIdle"
proof -
  let ?st = "test_ddr3in rnd addr"
  have st: "di_iter ?st < 6 \<or> di_step ?st = DDR3InEnd" "ddr3in_left ?st = 12" "di_out ?st = DDR3_OUT_EP"
    by (simp_all add: ddr3in_left_def test_ddr3in_def)
  obtain host0 where cmd: "tc_ddr3in_cmd host 4 ?st = Inr host0" "host_arrays host0" "packet_ready 6 DDR3_OUT_EP host0"
    using ddr3in_cmd_ok [OF assms(1), of 4 ?st] st by auto
  have len: "aget ddr3in_lengths (uint (di_iter ?st)) = Inr 4"
      "?st\<lparr>di_step := DDR3Cmd, di_out := DDR3_OUT_EP, di_in := DDR3_IN_EP\<rparr> = ?st"
    by (simp_all add: test_ddr3in_def aget_def ddr3in_lengths_def)
  have init: "tc_ddr3in_init host ?st = Inr (0, host0\<lparr>h_step := 0\<rparr>, ?st)"
    using cmd(1) len by (simp add: tc_ddr3in_init_def Let_def)
  have "cs \<noteq> []" "ddr3in_left ?st = length cs" "host_arrays (host0\<lparr>h_step := 0\<rparr>)"
    using assms(3) st cmd(2) by auto
  then obtain host' d' where
      "tc_run (\<lambda>_. tc_ddr3in_step) cs (host0\<lparr>h_step := 0\<rparr>) ?st = Inr (replicate (length cs - 1) 0 @ [1], host', d')"
      "di_iter d' < 6 \<or> di_step d' = DDR3InEnd" "ddr3in_left d' = 0" "h_op host' = HostIdle"
    using ddr3in.run_completes [OF _ st(1) _ _ assms(2)] by blast
  moreover from this have "di_step d' = DDR3InEnd"
    by (auto simp: ddr3in_left_def word_less_nat_alt split: ddr3in_step_t.splits)
  moreover have "packet_ready 6 DDR3_OUT_EP (host0\<lparr>h_step := 0\<rparr>)"
    using cmd(3) by (simp add: packet_ready_def)
  ultimately show ?thesis using init assms(3) by auto
qed

lemma ddr3in_completes_witness:
  "\<exists>host0 host' st'. tc_ddr3in_init (usbh_init 0 undefined) (test_ddr3in (\<lambda>_. 3) 0x1000) =
      Inr (0, host0, test_ddr3in (\<lambda>_. 3) 0x1000) \<and>
    tc_run (\<lambda>_ :: unit. tc_ddr3in_step) (replicate 12 ((), id)) host0 (test_ddr3in (\<lambda>_. 3) 0x1000) =
      Inr (replicate 11 0 @ [1], host', st') \<and> di_step st' = DDR3InEnd"
  using ddr3in_completes [OF init_arrays calls_id length_replicate] by blast

text \<open>
  (C40) The parity test-case: \<open>init\<close> and twelve calls run its three stages of four transactions,
  whatever the random numbers are and whatever the host does between the calls, as long as it keeps
  its arrays and an end-point below 16. No adjustment of a transfer leaves its arrays.
\<close>

theorem parity_completes:
  assumes "parity_good host" and "calls_ok parity_good cs" and "length cs = 12"
  shows "\<exists>host0 st0 host' st'. tc_parity_init rnd host test_parity = Inr (0, host0, st0) \<and>
    tc_run tc_parity_step cs host0 st0 = Inr (replicate 11 0 @ [1], host', st') \<and>
    pa_step st' = DonePar \<and> h_op host' = HostIdle"
proof -
  obtain host0 st0 where init: "tc_parity_init rnd host test_parity = Inr (0, host0, st0)"
      "parity_good host0" "pa_step st0 = ParIN0" "pa_stage st0 = 0"
    using parity_init_ok [OF assms(1), of test_parity rnd] by (auto simp: test_parity_def)
  then have st: "parity_ok st0" "parity_left st0 = length cs" "cs \<noteq> []"
    using assms(3) by (auto simp: parity_ok_def parity_left_def)
  obtain host' d' where
      "tc_run tc_parity_step cs host0 st0 = Inr (replicate (length cs - 1) 0 @ [1], host', d')"
      "parity_ok d'" "parity_left d' = 0" "h_op host' = HostIdle"
    using parity.run_completes [OF init(2) st assms(2)] by blast
  moreover from this have "pa_step d' = DonePar"
    by (auto simp: parity_ok_def parity_left_def word_less_nat_alt split: if_splits parity_step_t.splits)
  ultimately show ?thesis using init(1) assms(3) by auto
qed

lemma parity_completes_witness:
  "\<exists>host0 st0 host' st'. tc_parity_init (\<lambda>_. 5) (usbh_init 0 undefined) test_parity = Inr (0, host0, st0) \<and>
    tc_run tc_parity_step (replicate 12 (\<lambda>_. 5, id)) host0 st0 = Inr (replicate 11 0 @ [1], host', st') \<and>
    pa_step st' = DonePar"
  using parity_completes [OF init_parity_good calls_id length_replicate] by blast

text \<open>
  The bulk IN test-case ignores the end-point it was made for after its first transfer: \<open>init\<close>
  reads from \<open>ep\<close>, and its two other transfers read from end-point 1. It takes three calls.
\<close>

lemma bulkin_transfers:
  "\<exists>host0. tc_bulkin_init host (test_bulkin ep) = Inr (0, host0, test_bulkin ep) \<and>
     x_endpoint (h_xfer host0) = ep \<and>
     (\<exists>host1 st1. tc_bulkin_step host0 (test_bulkin ep) = Inr (0, host1, st1) \<and>
        h_op host1 = HostBulkIN \<and> x_endpoint (h_xfer host1) = BULK_IN_EP \<and>
      (\<exists>host2 st2. tc_bulkin_step host1 st1 = Inr (0, host2, st2) \<and>
        h_op host2 = HostBulkIN \<and> x_endpoint (h_xfer host2) = BULK_IN_EP \<and>
       (\<exists>host3 st3. tc_bulkin_step host2 st2 = Inr (1, host3, st3) \<and>
         h_op host3 = HostIdle \<and> bi_step st3 = BINDone)))"
  by (simp add: tc_bulkin_init_def tc_bulkin_step_def test_bulkin_def tc_bulkin_xfer_def start_bulk_def
      with_xfer_def Let_def host_idle_def)

end
