(* ===== verification/Bulk_Toggle.thy ===== *)
theory Bulk_Toggle
  imports Bulk_Out Tc_Bulk_Props
begin

text \<open>
  The handshake of a bulk OUT transaction, and sequences of transactions queued by
  \<open>tc_bulkout_xfer\<close> and run by \<open>usbh_step\<close>, which refine the data-toggle protocol of USB.
\<close>

subsection \<open>What the link answers\<close>

text \<open>
  The buses of the clocks in which the host awaits a handshake: \<open>k\<close> idle clocks and the three
  clocks of an ACK, or silence until the transaction is over.
\<close>

datatype reply = Acked nat | Silent

fun replies :: "reply \<Rightarrow> (u32 \<times> ulpi_bus_t) list \<Rightarrow> bool" where
  "replies Silent is = (length is = 40 \<and> list_all (\<lambda>i. ulpi_bus_is_idle (snd i)) is)"
| "replies (Acked k) is = (length is = k + 3 \<and> k \<le> 36 \<and>
     list_all (\<lambda>i. ulpi_bus_is_idle (snd i)) (take k is) \<and>
     (case map snd (drop k is) of
        [a, s, e] \<Rightarrow> u_rst_n a = SIG1 \<and> data_a a = ULPITX_ACK \<and>
          u_rst_n s = SIG1 \<and> u_dir s = SIG0 \<and> data_b s = 0x00 \<and> u_stp s = SIG1 \<and>
          u_rst_n e = SIG1 \<and> u_dir e = SIG0 \<and> u_nxt e = SIG0 \<and> u_stp e = SIG0
      | _ \<Rightarrow> False))"

definition toggle :: "bit_t \<Rightarrow> bit_t" where
  "toggle t = (if t = SIG0 then SIG1 else SIG0)"

subsection \<open>The wait for the handshake\<close>

lemma unat_u32: "unat (w :: u32) < 2 ^ 32"
  by (rule order_less_le_trans [OF unsigned_less]) simp

lemma next_cycle: "unat (c :: u64) < unat (w :: u32) \<Longrightarrow> unat (c + 1) = unat c + 1"
  using unat_u32 [of w] by (simp add: unat_word_ariths)

lemma idle_clock:
  assumes "h_op h = HostBulkOUT" and "x_type x = UpACK" and "x_stage x = NoXfer" and "ulpi_bus_is_idle b"
    and "unat (c + 1) < unat (x_cycle x)"
  shows "usbh_step rnd (busy h x c) b = Inr (0, busy h x (c + 1), b)"
proof -
  have "u_rst_n b \<noteq> SIG0" using assms(4) by (auto simp: ulpi_bus_is_idle_def)
  moreover have "\<not> timed_out (busy h x (c + 1)) x"
    using assms(5) by (simp add: timed_out_def word_le_nat_alt unat_ucast_deadline)
  ultimately show ?thesis
    using assms(1-4) by (simp add: bulk_clock bulk_out_step_def ack_recv_step_def)
qed

lemma idle_wait:
  assumes "h_op h = HostBulkOUT" and "x_type x = UpACK" and "x_stage x = NoXfer"
  shows "list_all (\<lambda>i. ulpi_bus_is_idle (snd i)) is \<Longrightarrow> unat c + length is < unat (x_cycle x) \<Longrightarrow>
    host_run is (busy h x c) = Inr (replicate (length is) 0, busy h x (c + of_nat (length is)))"
proof (induction "is" arbitrary: c)
  case Nil
  then show ?case by simp
next
  case (Cons i "is")
  have "unat (c + 1) = unat c + 1" using Cons.prems(2) by (intro next_cycle [of c "x_cycle x"]) simp
  then show ?case
    using Cons idle_clock [OF assms(1-3), of "snd i" c "fst i"] by (simp add: add.assoc)
qed

lemma host_run_append:
  "host_run is h = Inr (rs, h1) \<Longrightarrow> host_run js h1 = Inr (rs', h2) \<Longrightarrow>
   host_run (is @ js) h = Inr (rs @ rs', h2)"
  by (induction "is" arbitrary: h rs) (auto simp: bind_c_eq_Inr split: prod.splits)

text \<open>The host when the transaction is over.\<close>

definition finished :: "usb_host_t \<Rightarrow> bit_t list \<Rightarrow> u64 \<Rightarrow> usb_host_t" where
  "finished h seq c =
     busy h ((h_xfer h)\<lparr>x_type := XferIdle, x_stage := NoXfer, x_ep_seq := seq\<rparr>) c"

lemma silence:
  assumes "h_op h = HostBulkOUT" and x: "x_type (h_xfer h) = UpACK" "x_stage (h_xfer h) = NoXfer"
    and d: "unat (x_cycle (h_xfer h)) = unat (h_cycle h) + 40" and "replies Silent is"
  shows "host_run is h = Inr (replicate 39 0 @ [1], finished h (x_ep_seq (h_xfer h)) (h_cycle h + 40))"
proof -
  let ?x = "h_xfer h" and ?c = "h_cycle h"
  obtain js j where split: "is = js @ [j]" using assms(5) by (cases "is" rule: rev_cases) auto
  have js: "list_all (\<lambda>i. ulpi_bus_is_idle (snd i)) js" "length js = 39" and j: "ulpi_bus_is_idle (snd j)"
    using assms(5) split by simp_all
  have "host_run js h = Inr (replicate 39 0, busy h ?x (?c + 39))"
    using idle_wait [OF assms(1) x js(1), of ?c] d js(2) by (simp add: busy_self)
  moreover have "host_run [j] (busy h ?x (?c + 39)) = Inr ([1], finished h (x_ep_seq ?x) (?c + 40))"
  proof -
    have "unat (?c + 40) = unat ?c + 40"
      using d unat_u32 [of "x_cycle ?x"] by (simp add: unat_word_ariths)
    then have "timed_out (busy h ?x (?c + 40)) ?x"
      using d by (simp add: timed_out_def word_le_nat_alt unat_ucast_deadline)
    moreover have "u_rst_n (snd j) \<noteq> SIG0" using j by (auto simp: ulpi_bus_is_idle_def)
    ultimately show ?thesis
      using assms(1) x by (simp add: bulk_clock bulk_out_step_def finished_def add.assoc)
  qed
  ultimately show ?thesis unfolding split by (rule host_run_append)
qed

text \<open>The three clocks of an ACK; the first of them changes the toggle.\<close>

lemma ack_clock:
  assumes "h_op h = HostBulkOUT" and "x_type x = UpACK" and "unat (c + 1) < unat (x_cycle x)"
    and "u_rst_n b = SIG1" and "ack_recv_step x b b = Inr (r, x', out)"
    and "z = (if r > 0 then x'\<lparr>x_type := XferIdle, x_stage := NoXfer\<rparr> else x')"
  shows "usbh_step rnd (busy h x c) b = Inr (r, busy h z (c + 1), out)"
  using assms by (simp add: bulk_clock bulk_out_step_def timed_out_def word_le_nat_alt unat_ucast_deadline)

lemma seq_commute:
  "x\<lparr>x_ep_seq := q, x_type := t, x_stage := g\<rparr> = x\<lparr>x_type := t, x_stage := g, x_ep_seq := q\<rparr>"
  by (cases x) simp

lemma ack_clocks:
  assumes "h_op h = HostBulkOUT" and x: "x_type x = UpACK" "x_stage x = NoXfer"
    and "x_endpoint x < 16" and "length (x_ep_seq x) = 16" and "unat c + 3 < unat (x_cycle x)"
    and "replies (Acked 0) is" and "e = unat (x_endpoint x)"
  shows "host_run is (busy h x c) = Inr ([0, 0, 1], busy h (x\<lparr>x_type := XferIdle, x_stage := NoXfer,
    x_ep_seq := (x_ep_seq x)[e := toggle (x_ep_seq x ! e)]\<rparr>) (c + 3))"
proof -
  let ?x1 = "x\<lparr>x_stage := HskPID, x_ep_seq := (x_ep_seq x)[e := toggle (x_ep_seq x ! e)]\<rparr>"
  have "length is = 3" using assms(7) by simp
  then obtain a s z where i: "is = [a, s, z]" by (auto simp: length_Suc_conv numeral_3_eq_3)
  have e: "e < 16" using assms(4,8) by (simp add: word_less_nat_alt)
  have c: "unat (c + 1) = unat c + 1" "unat (c + 2) = unat c + 2" "unat (c + 3) = unat c + 3"
    using assms(6) unat_u32 [of "x_cycle x"] by (simp_all add: unat_word_ariths)
  have 1: "ack_recv_step x (snd a) (snd a) = Inr (0, ?x1, (snd a)\<lparr>u_nxt := SIG1\<rparr>)"
    using assms(5,7,8) e x i
    by (auto simp: ack_recv_step_def transfer_ack_def aget_def aput_def toggle_def Let_def
      ulpi_bus_is_idle_def simp flip: unat_eq_nat_uint)
  have 2: "ack_recv_step ?x1 (snd s) (snd s) = Inr (0, ?x1\<lparr>x_stage := HskStop\<rparr>, (snd s)\<lparr>u_nxt := SIG0\<rparr>)"
    using assms(7) x i by (simp add: ack_recv_step_def)
  have 3: "ack_recv_step (?x1\<lparr>x_stage := HskStop\<rparr>) (snd z) (snd z) = Inr (1, ?x1\<lparr>x_stage := NoXfer\<rparr>, snd z)"
    using assms(7) x i by (simp add: ack_recv_step_def)
  show ?thesis
    using assms(1,6,7) x i c
      ack_clock [OF assms(1) x(1) _ _ 1 refl, of c "fst a"]
      ack_clock [OF assms(1) _ _ _ 2 refl, of "c + 1" "fst s"]
      ack_clock [OF assms(1) _ _ _ 3 refl, of "c + 2" "fst z"]
    by (simp add: add.assoc seq_commute)
qed

lemma acknowledged:
  assumes "h_op h = HostBulkOUT" and x: "x_type (h_xfer h) = UpACK" "x_stage (h_xfer h) = NoXfer"
    and "x_endpoint (h_xfer h) < 16" and "length (x_ep_seq (h_xfer h)) = 16"
    and d: "unat (x_cycle (h_xfer h)) = unat (h_cycle h) + 40" and "replies (Acked k) is"
    and "e = unat (x_endpoint (h_xfer h))"
  shows "host_run is h = Inr (replicate (k + 2) 0 @ [1],
    finished h ((x_ep_seq (h_xfer h))[e := toggle (x_ep_seq (h_xfer h) ! e)]) (h_cycle h + of_nat (k + 3)))"
proof -
  let ?x = "h_xfer h" and ?c = "h_cycle h"
  have k: "k \<le> 36" "length is = k + 3" and idle: "list_all (\<lambda>i. ulpi_bus_is_idle (snd i)) (take k is)"
    and ack: "replies (Acked 0) (drop k is)"
    using assms(7) by simp_all
  have "k < 2 ^ 64" using k(1) by (rule order_le_less_trans) simp
  then have "unat (of_nat k :: u64) = k" by (simp add: unsigned_of_nat take_bit_nat_eq_self)
  then have c: "unat (?c + of_nat k) = unat ?c + k"
    using d k unat_u32 [of "x_cycle ?x"] by (simp add: unat_word_ariths)
  have "host_run (take k is) h = Inr (replicate k 0, busy h ?x (?c + of_nat k))"
    using idle_wait [OF assms(1) x idle, of ?c] d k by (simp add: busy_self)
  moreover have "host_run (drop k is) (busy h ?x (?c + of_nat k)) = Inr ([0, 0, 1],
      finished h ((x_ep_seq ?x)[e := toggle (x_ep_seq ?x ! e)]) (?c + of_nat (k + 3)))"
    using ack_clocks [OF assms(1) x assms(4,5) _ ack assms(8), of "?c + of_nat k"] c k d
    by (simp add: finished_def add.assoc)
  ultimately have "host_run (take k is @ drop k is) h = Inr (replicate k 0 @ [0, 0, 1],
      finished h ((x_ep_seq ?x)[e := toggle (x_ep_seq ?x ! e)]) (?c + of_nat (k + 3)))"
    by (rule host_run_append)
  moreover have "replicate (k + 2) (0 :: int) @ [1] = replicate k 0 @ [0, 0, 1]"
    unfolding replicate_add by (simp add: numeral_2_eq_2)
  ultimately show ?thesis by simp
qed

subsection \<open>Sequences of transactions\<close>

text \<open>
  One transaction of \<open>n\<close> random bytes for end-point \<open>ep\<close>: \<open>tc_bulkout_xfer\<close> queues it, the
  host sends it to a listening link, and the link answers with \<open>is\<close>. The bytes the link heard are
  returned, with the values of the last clocks.
\<close>

definition out_transaction :: "rand_t \<Rightarrow> (nat \<Rightarrow> u32) \<Rightarrow> u8 \<Rightarrow> nat \<Rightarrow> (u32 \<times> ulpi_bus_t) list
    \<Rightarrow> usb_host_t \<Rightarrow> (u8 list \<times> int list \<times> usb_host_t) outcome" where
  "out_transaction fill pauses ep n is host =
     bind_c (tc_bulkout_xfer fill host n ep) (\<lambda>host.
     bind_c (out_phase pauses (2 * n + 19) host (ulpi_bus_idle bus_zero) []) (\<lambda>(_, host, _, u).
     bind_c (host_run is host) (\<lambda>(rs, host). Inr (u, rs, host))))"

text \<open>The protocol: the toggle names the packet and changes when the packet is acknowledged.\<close>

fun toggle_step :: "bit_t \<Rightarrow> reply \<Rightarrow> bit_t" where
  "toggle_step t (Acked k) = toggle t"
| "toggle_step t Silent = t"

definition toggle_pid :: "bit_t \<Rightarrow> u8" where
  "toggle_pid t = (if t = SIG0 then 0xC3 else 0x4B)"

text \<open>The hosts the refinement speaks of: intact, and the toggle of the end-point is a bit.\<close>

definition toggling :: "u8 \<Rightarrow> usb_host_t \<Rightarrow> bool" where
  "toggling ep h \<longleftrightarrow> arrays_ok (h_xfer h) \<and> ep < 16 \<and>
     x_ep_seq (h_xfer h) ! unat ep \<in> {SIG0, SIG1}"

abbreviation toggle_of :: "u8 \<Rightarrow> usb_host_t \<Rightarrow> bit_t" where
  "toggle_of ep h \<equiv> x_ep_seq (h_xfer h) ! unat ep"

text \<open>The clocks an answer takes, and what its last clocks return.\<close>

fun reply_clocks :: "reply \<Rightarrow> nat" where
  "reply_clocks (Acked k) = k + 3"
| "reply_clocks Silent = 40"

lemma fill_rand_size: "fill_rand rnd n a = Inr b \<Longrightarrow> length b = length a"
  using fill_rand_length [of a rnd n] by simp

lemma xfer_frame:
  assumes "tc_bulkout_xfer rnd h n ep = Inr h'" and "toggling ep h"
  shows "x_ep_seq (h_xfer h') = x_ep_seq (h_xfer h)" and "h_cycle h' = h_cycle h" and "h_addr h' = h_addr h"
    and "n \<le> MAX_PACKET_SIZE \<Longrightarrow> out_ready n h'"
proof -
  obtain tx where h': "h' = with_xfer (start_bulk HostBulkOUT OUT ep h) ((h_xfer (start_bulk HostBulkOUT OUT ep h))
      \<lparr>x_tx_len := int n, x_tx_ptr := 0, x_tx := tx, x_crc1 := lo8 (crc16_calc tx n), x_crc2 := hi8 (crc16_calc tx n)\<rparr>)"
    and tx: "length tx = length (x_tx (h_xfer h))"
    using assms(1) by (auto simp: tc_bulkout_xfer_def Let_def bind_c_eq_Inr set_tx_crc_def crc16_of_def
      dest: fill_rand_size split: if_splits)
  show "x_ep_seq (h_xfer h') = x_ep_seq (h_xfer h)" "h_cycle h' = h_cycle h" "h_addr h' = h_addr h"
    by (simp_all add: h' start_bulk_def with_xfer_def Let_def)
  show "out_ready n h'" if "n \<le> MAX_PACKET_SIZE"
    using assms(2) tx that
    by (simp add: h' out_ready_def start_bulk_def with_xfer_def Let_def toggling_def arrays_ok_def)
qed

text \<open>
  What the link hears in a transaction of \<open>n\<close> bytes: an OUT token with a right CRC for address and
  end-point, and a data packet with a right CRC.
\<close>

definition out_heard :: "u8 \<Rightarrow> u8 \<Rightarrow> nat \<Rightarrow> u8 list \<Rightarrow> bool" where
  "out_heard addr ep n u \<longleftrightarrow> length u = n + 6 \<and> u ! 0 = 0xE1 \<and> crc5_check (token_word (u ! 1) (u ! 2)) \<and>
     token_word (u ! 1) (u ! 2) AND 0x07FF = token_payload addr ep \<and> crc16_check (drop 4 u) (n + 2)"

lemma heard_ready:
  assumes "packet_ready n ep h" and "out_ready n h"
  shows "out_heard (h_addr h) ep n (out_bytes (h_xfer h))"
    and "out_bytes (h_xfer h) ! 3 = toggle_pid (toggle_of (x_endpoint (h_xfer h)) h)"
proof -
  let ?x = "h_xfer h"
  have len: "length (x_tx ?x) = MAX_PACKET_SIZE" "n \<le> MAX_PACKET_SIZE" "x_tx_len ?x = int n"
    using assms(2) by (simp_all add: out_ready_def arrays_ok_def Let_def)
  have crc: "crc16_check (take n (x_tx ?x) @ [x_crc1 ?x, x_crc2 ?x]) (n + 2)"
    using assms(1) by (simp add: packet_ready_def Let_def)
  have "n = 0 \<Longrightarrow> x_crc1 ?x = 0"
    using crc crc16_codeword [of "[]" "x_crc1 ?x" "x_crc2 ?x"] by (simp add: crc16_calc_def lo8_def)
  then have d: "data_bytes ?x = take n (x_tx ?x) @ [x_crc1 ?x, x_crc2 ?x]"
    using len by (auto simp: data_bytes_def)
  have tail: "length (data_bytes ?x) = n + 2" "crc16_check (data_bytes ?x) (n + 2)"
    using crc len unfolding d by simp_all
  show "out_heard (h_addr h) ep n (out_bytes ?x)"
    using assms(1) tail by (simp add: out_heard_def out_bytes_def packet_ready_def Let_def)
  show "out_bytes ?x ! 3 = toggle_pid (toggle_of (x_endpoint ?x) h)"
    by (simp add: out_bytes_def toggle_pid_def)
qed

lemma deadline_unat:
  assumes "unat (c :: u64) + 40 < 2 ^ 32"
  shows "unat (ucast (c + TURNAROUND_TIMER) :: u32) = unat c + 40"
proof -
  have "unat (c + TURNAROUND_TIMER) = unat c + 40" using assms by (simp add: unat_word_ariths)
  then show ?thesis using assms by (simp add: unsigned_ucast_eq take_bit_nat_eq_self)
qed

lemma cycle_unat:
  assumes "unat (c :: u64) + k < 2 ^ 32"
  shows "unat (c + of_nat k) = unat c + k"
proof -
  have "k < 2 ^ 64" using assms by simp
  then have "unat (of_nat k :: u64) = k" by (simp add: unsigned_of_nat take_bit_nat_eq_self)
  then show ?thesis using assms by (simp add: unat_word_ariths)
qed

lemma answer:
  assumes "out_ready n h" and "unat c + 40 < 2 ^ 32" and "replies r is"
    and "ep = x_endpoint (h_xfer h)" and "t = toggle_of ep h"
  shows "host_run is (await_handshake h n c) = Inr (replicate (reply_clocks r - 1) 0 @ [1],
    finished (await_handshake h n c) ((x_ep_seq (h_xfer h))[unat ep := toggle_step t r])
      (c + of_nat (reply_clocks r)))"
proof -
  let ?h = "await_handshake h n c"
  have h: "h_op ?h = HostBulkOUT" "x_type (h_xfer ?h) = UpACK" "x_stage (h_xfer ?h) = NoXfer"
      "x_endpoint (h_xfer ?h) < 16" "length (x_ep_seq (h_xfer ?h)) = 16" "h_cycle ?h = c"
      "x_ep_seq (h_xfer ?h) = x_ep_seq (h_xfer h)" "x_endpoint (h_xfer ?h) = ep"
    using assms(1,4) by (simp_all add: await_handshake_def out_ready_def Let_def arrays_ok_def)
  have d: "unat (x_cycle (h_xfer ?h)) = unat (h_cycle ?h) + 40"
    using deadline_unat [OF assms(2)] by (simp add: await_handshake_def)
  show ?thesis
  proof (cases r)
    case (Acked k)
    then show ?thesis using acknowledged [OF h(1-5) d, of k "is" "unat ep"] assms(3,5) h by simp
  next
    case Silent
    then show ?thesis using silence [OF h(1-3) d, of "is"] assms(3,5) h by simp
  qed
qed

text \<open>One transaction: its bytes, its result, and the toggles after it.\<close>

lemma transaction_runs:
  assumes "toggling ep h" and "n \<le> MAX_PACKET_SIZE" and "replies r is"
    and "unat (h_cycle h) + 2 * n + 59 < 2 ^ 32" and "t = toggle_of ep h"
  shows "\<exists>u h'. out_transaction fill pauses ep n is h =
      Inr (u, replicate (reply_clocks r - 1) 0 @ [1], h') \<and>
    out_heard (h_addr h) ep n u \<and> u ! 3 = toggle_pid t \<and> toggling ep h' \<and> h_addr h' = h_addr h \<and>
    x_ep_seq (h_xfer h') = (x_ep_seq (h_xfer h))[unat ep := toggle_step t r] \<and>
    unat (h_cycle h') \<le> unat (h_cycle h) + 2 * n + 59"
proof -
  have "host_arrays h" using assms(1) unfolding toggling_def host_arrays_def by (rule conjunct1)
  from bulkout_xfer_ok [OF this assms(2), of fill ep] obtain g where
      g: "tc_bulkout_xfer fill h n ep = Inr g" "packet_ready n ep g" by blast
  note f = xfer_frame [OF g(1) assms(1)]
  have ready: "out_ready n g" and ep: "x_endpoint (h_xfer g) = ep"
    using f(4) assms(2) g(2) by (simp_all add: packet_ready_def Let_def)
  obtain k where k: "k \<le> 2 * n + 19" and out: "out_phase pauses (2 * n + 19) g (ulpi_bus_idle bus_zero) [] =
      Inr (0, await_handshake g n (h_cycle g + of_nat k), bus_released bus_zero, out_bytes (h_xfer g))"
    using out_phase_runs [OF ready order_refl] by blast
  let ?c = "h_cycle g + of_nat k"
  have c: "unat ?c = unat (h_cycle h) + k" using cycle_unat [of "h_cycle g" k] k assms(4) f(2) by simp
  have e: "unat ep < 16" "length (x_ep_seq (h_xfer h)) = 16"
    using assms(1) by (simp_all add: toggling_def word_less_nat_alt arrays_ok_def)
  let ?h' = "finished (await_handshake g n ?c) ((x_ep_seq (h_xfer g))[unat ep := toggle_step t r])
      (?c + of_nat (reply_clocks r))"
  have rc: "reply_clocks r \<le> 40" using assms(3) by (cases r) simp_all
  have run: "host_run is (await_handshake g n ?c) = Inr (replicate (reply_clocks r - 1) 0 @ [1], ?h')"
    by (rule answer [OF ready _ assms(3) ep [symmetric]]) (use c k assms(4,5) f(1) in simp_all)
  have "unat (h_cycle ?h') = unat ?c + reply_clocks r"
    using cycle_unat [of ?c "reply_clocks r"] c k rc assms(4) by (simp add: finished_def)
  moreover have "toggling ep ?h'"
    using assms(1,5) ready e f(1) by (cases r)
      (auto simp: toggling_def finished_def await_handshake_def arrays_ok_def out_ready_def Let_def toggle_def)
  moreover have "out_heard (h_addr h) ep n (out_bytes (h_xfer g))" "out_bytes (h_xfer g) ! 3 = toggle_pid t"
    using heard_ready [OF g(2) ready] f(1,3) ep assms(5) by simp_all
  moreover have "h_addr ?h' = h_addr h"
    using f(3) by (simp add: finished_def await_handshake_def busy_def with_xfer_def)
  moreover have "x_ep_seq (h_xfer ?h') = (x_ep_seq (h_xfer h))[unat ep := toggle_step t r]"
    using f(1) by (simp add: finished_def)
  ultimately show ?thesis
    using g(1) out run c k rc by (simp add: out_transaction_def)
qed

text \<open>A list of transactions, each with its random bytes, its pauses, its length and its answer.\<close>

primrec out_transactions :: "u8 \<Rightarrow> (rand_t \<times> (nat \<Rightarrow> u32) \<times> nat \<times> (u32 \<times> ulpi_bus_t) list) list
    \<Rightarrow> usb_host_t \<Rightarrow> (u8 list list \<times> usb_host_t) outcome" where
  "out_transactions ep [] host = Inr ([], host)"
| "out_transactions ep (t # ts) host =
     (case t of (fill, pauses, n, is) \<Rightarrow>
        bind_c (out_transaction fill pauses ep n is host) (\<lambda>(u, _, host).
        bind_c (out_transactions ep ts host) (\<lambda>(us, host). Inr (u # us, host))))"

primrec toggle_run :: "bit_t \<Rightarrow> reply list \<Rightarrow> u8 list \<times> bit_t" where
  "toggle_run t [] = ([], t)"
| "toggle_run t (r # rs) = (let (pids, t') = toggle_run (toggle_step t r) rs in (toggle_pid t # pids, t'))"

definition answered :: "rand_t \<times> (nat \<Rightarrow> u32) \<times> nat \<times> (u32 \<times> ulpi_bus_t) list \<Rightarrow> reply \<Rightarrow> bool" where
  "answered = (\<lambda>(fill, pauses, n, is) r. n \<le> MAX_PACKET_SIZE \<and> replies r is)"

definition clocks :: "rand_t \<times> (nat \<Rightarrow> u32) \<times> nat \<times> (u32 \<times> ulpi_bus_t) list \<Rightarrow> nat" where
  "clocks = (\<lambda>(fill, pauses, n, is). 2 * n + 59)"

lemma transactions_run:
  assumes "list_all2 answered ts rs"
  shows "toggling ep h \<Longrightarrow> unat (h_cycle h) + sum_list (map clocks ts) < 2 ^ 32 \<Longrightarrow>
    \<exists>us h'. out_transactions ep ts h = Inr (us, h') \<and> toggling ep h' \<and>
      toggle_run (toggle_of ep h) rs = (map (\<lambda>u. u ! 3) us, toggle_of ep h') \<and>
      list_all2 (\<lambda>(_, _, n, _) u. out_heard (h_addr h) ep n u) ts us \<and>
      (\<exists>t. x_ep_seq (h_xfer h') = (x_ep_seq (h_xfer h))[unat ep := t])"
  using assms
proof (induction arbitrary: h rule: list_all2_induct)
  case Nil
  show ?case using Nil by (auto intro: list_update_id [symmetric])
next
  case (Cons t ts r rs)
  obtain fill pauses n "is" where t: "t = (fill, pauses, n, is)" by (cases t)
  have n: "n \<le> MAX_PACKET_SIZE" "replies r is" using Cons.hyps(1) by (simp_all add: answered_def t)
  have c: "unat (h_cycle h) + 2 * n + 59 < 2 ^ 32" using Cons.prems(2) by (simp add: clocks_def t)
  obtain u g where u: "out_transaction fill pauses ep n is h = Inr (u, replicate (reply_clocks r - 1) 0 @ [1], g)"
      "out_heard (h_addr h) ep n u" "u ! 3 = toggle_pid (toggle_of ep h)" "toggling ep g" "h_addr g = h_addr h"
      "x_ep_seq (h_xfer g) = (x_ep_seq (h_xfer h))[unat ep := toggle_step (toggle_of ep h) r]"
      "unat (h_cycle g) \<le> unat (h_cycle h) + 2 * n + 59"
    using transaction_runs [OF Cons.prems(1) n c refl, of fill pauses] by blast
  have e: "unat ep < length (x_ep_seq (h_xfer h))"
    using Cons.prems(1) by (simp add: toggling_def arrays_ok_def word_less_nat_alt)
  have "unat (h_cycle g) + sum_list (map clocks ts) < 2 ^ 32"
    using u(7) Cons.prems(2) by (simp add: clocks_def t)
  from Cons.IH [OF u(4) this] obtain us h' t' where ts: "out_transactions ep ts g = Inr (us, h')" "toggling ep h'"
      "toggle_run (toggle_of ep g) rs = (map (\<lambda>u. u ! 3) us, toggle_of ep h')"
      "list_all2 (\<lambda>(_, _, n, _) u. out_heard (h_addr g) ep n u) ts us"
      "x_ep_seq (h_xfer h') = (x_ep_seq (h_xfer g))[unat ep := t']" by blast
  have "out_transactions ep (t # ts) h = Inr (u # us, h')" using u(1) ts(1) by (simp add: t)
  moreover have "toggle_run (toggle_of ep h) (r # rs) = (map (\<lambda>u. u ! 3) (u # us), toggle_of ep h')"
    using ts(3) u(3,6) e by simp
  moreover have "list_all2 (\<lambda>(_, _, n, _) u. out_heard (h_addr h) ep n u) (t # ts) (u # us)"
    using ts(4) u(2,5) by (simp add: t)
  moreover have "x_ep_seq (h_xfer h') = (x_ep_seq (h_xfer h))[unat ep := t']" using ts(5) u(6) by simp
  ultimately show ?case using ts(2) by blast
qed

subsection \<open>The properties\<close>

text \<open>
  (C21) A bulk OUT transaction of \<open>n\<close> bytes, stepped by \<open>usbh_step\<close> with any pauses of \<open>NXT\<close>,
  is on the bus after at least \<open>n + 18\<close> and at most \<open>2 * n + 19\<close> clocks: the OUT token, the PID of
  the end-point's toggle, the data and its CRC. The host then awaits the handshake, with a deadline
  40 cycles away, and no toggle has changed.
\<close>

theorem bulk_out_sent:
  assumes "h_op host = HostBulkOUT" and "h_xfer host = x" and "x_type x = OUT" and "x_stage x = NoXfer"
    and "x_endpoint x < 16" and "x_ep_seq x ! unat (x_endpoint x) = t" and "t \<in> {SIG0, SIG1}"
    and "arrays_ok x" and "x_tx_ptr x = 0" and "x_tx_len x = int n" and "n \<le> MAX_PACKET_SIZE"
    and "2 * n + 19 \<le> fuel"
  shows "\<exists>k \<ge> n + 18. k \<le> 2 * n + 19 \<and>
    (\<exists>host'. out_phase pauses fuel host (ulpi_bus_idle bus) [] = Inr (0, host', bus_released bus,
        [0xE1, x_tok1 x, x_tok2 x, if t = SIG0 then 0xC3 else 0x4B] @
        (if n = 0 then [0x00, x_crc2 x] else take n (x_tx x) @ [x_crc1 x, x_crc2 x])) \<and>
      x_type (h_xfer host') = UpACK \<and> x_stage (h_xfer host') = NoXfer \<and>
      h_cycle host' = h_cycle host + of_nat k \<and> x_cycle (h_xfer host') = ucast (h_cycle host' + 40) \<and>
      x_ep_seq (h_xfer host') = x_ep_seq x)"
proof -
  have "out_ready n host" using assms by (simp add: out_ready_def)
  from out_phase_runs [OF this assms(12), of pauses bus] show ?thesis
    using assms(2,6,10) by (auto simp: await_handshake_def out_bytes_def data_bytes_def)
qed

lemma bulk_out_sent_witness:
  "\<exists>host'. out_phase (\<lambda>_. 0xF) 19
      ((usbh_init 0 undefined)\<lparr>h_op := HostBulkOUT, h_xfer := xfer_zero\<lparr>x_type := OUT, x_endpoint := 2\<rparr>\<rparr>)
      (ulpi_bus_idle bus_zero) [] = Inr (0, host', bus_released bus_zero, [0xE1, 0x00, 0x00, 0xC3, 0x00, 0x00]) \<and>
    x_type (h_xfer host') = UpACK"
  using bulk_out_sent [of "(usbh_init 0 undefined)\<lparr>h_op := HostBulkOUT, h_xfer := xfer_zero\<lparr>x_type := OUT, x_endpoint := 2\<rparr>\<rparr>"
      "xfer_zero\<lparr>x_type := OUT, x_endpoint := 2\<rparr>" SIG0 0 19 "\<lambda>_. 0xF" bus_zero]
  by (auto simp: xfer_zero_def arrays_ok_def)

text \<open>
  (C12) A transaction queued by \<open>tc_bulkout_xfer\<close> and answered in time or not at all: the link hears
  an OUT token for the host's address with a right CRC, the PID of the toggle, and \<open>n\<close> data bytes with
  a right CRC; the transaction ends with the result 1, in the third clock of the ACK or in the 40th of
  the silence, and an ACK changes the toggle of this end-point and nothing changes another.
\<close>

theorem bulk_out_transaction:
  assumes "toggling ep host" and "n \<le> MAX_PACKET_SIZE" and "replies r is"
    and "unat (h_cycle host) + 2 * n + 59 < 2 ^ 32"
  shows "\<exists>u host'. out_transaction fill pauses ep n is host =
      Inr (u, replicate (reply_clocks r - 1) 0 @ [1], host') \<and>
    out_heard (h_addr host) ep n u \<and> u ! 3 = toggle_pid (toggle_of ep host) \<and>
    x_ep_seq (h_xfer host') = (x_ep_seq (h_xfer host))[unat ep := toggle_step (toggle_of ep host) r]"
  using transaction_runs [OF assms refl] by blast

text \<open>
  (C11) Sequences of bulk OUT transactions refine the data-toggle protocol: the PIDs that the link hears
  and the toggle that is left are those of the abstract machine, which changes its toggle with each ACK
  and keeps it when the answer does not come. Every packet the link hears is well formed.
\<close>

theorem bulk_outs_refine_toggle:
  assumes "toggling ep host" and "list_all2 answered ts rs"
    and "unat (h_cycle host) + sum_list (map clocks ts) < 2 ^ 32"
  shows "\<exists>us host'. out_transactions ep ts host = Inr (us, host') \<and>
    (map (\<lambda>u. u ! 3) us, toggle_of ep host') = toggle_run (toggle_of ep host) rs \<and>
    list_all2 (\<lambda>(_, _, n, _) u. out_heard (h_addr host) ep n u) ts us"
  using transactions_run [OF assms(2,1,3)] by metis

lemma idle_reply: "replies Silent (replicate 40 (0, ulpi_bus_idle bus_zero))"
  by (simp add: list_all_length ulpi_bus_is_idle_def)

lemma ack_reply: "replies (Acked 0) [(0, set_a ULPITX_ACK (ulpi_bus_idle bus_zero)),
    (0, (ulpi_bus_idle bus_zero)\<lparr>u_stp := SIG1\<rparr>), (0, ulpi_bus_idle bus_zero)]"
  by simp

lemma toggling_init: "toggling 2 (usbh_init 0 undefined)"
  by (simp add: toggling_def usbh_init_def usbh_reset_def init_arrays [unfolded host_arrays_def]
    xfer_zero_def arrays_ok_def)

lemma bulk_out_transaction_witness:
  "\<exists>u host'. out_transaction (\<lambda>_. 7) (\<lambda>_. 0) 2 37 (replicate 40 (0, ulpi_bus_idle bus_zero)) (usbh_init 0 undefined) =
      Inr (u, replicate 39 0 @ [1], host') \<and> u ! 3 = toggle_pid (toggle_of 2 (usbh_init 0 undefined))"
  using bulk_out_transaction [OF toggling_init _ idle_reply, of 37 "\<lambda>_. 7" "\<lambda>_. 0"]
  by (auto simp: usbh_init_def usbh_reset_def)

lemma bulk_outs_refine_toggle_witness:
  "\<exists>us host'. out_transactions 2
      [(\<lambda>_. 7, \<lambda>_. 0, 1, replicate 40 (0, ulpi_bus_idle bus_zero)),
       (\<lambda>_. 7, \<lambda>_. 0, 1, [(0, set_a ULPITX_ACK (ulpi_bus_idle bus_zero)),
         (0, (ulpi_bus_idle bus_zero)\<lparr>u_stp := SIG1\<rparr>), (0, ulpi_bus_idle bus_zero)])]
      (usbh_init 0 undefined) = Inr (us, host') \<and> map (\<lambda>u. u ! 3) us = [0xC3, 0xC3] \<and> toggle_of 2 host' = SIG1"
proof -
  have "toggle_of 2 (usbh_init 0 undefined) = SIG0"
    by (simp add: usbh_init_def usbh_reset_def xfer_zero_def)
  moreover have "list_all2 answered
      [(\<lambda>_. 7, \<lambda>_. 0, 1, replicate 40 (0, ulpi_bus_idle bus_zero)),
       (\<lambda>_. 7, \<lambda>_. 0, 1, [(0, set_a ULPITX_ACK (ulpi_bus_idle bus_zero)),
         (0, (ulpi_bus_idle bus_zero)\<lparr>u_stp := SIG1\<rparr>), (0, ulpi_bus_idle bus_zero)])] [Silent, Acked 0]"
    using idle_reply ack_reply by (simp add: answered_def)
  moreover have "unat (h_cycle (usbh_init 0 undefined)) + sum_list (map clocks
      [(\<lambda>_. 7, \<lambda>_. 0, 1, replicate 40 (0, ulpi_bus_idle bus_zero)),
       (\<lambda>_. 7, \<lambda>_. 0, 1, [(0, set_a ULPITX_ACK (ulpi_bus_idle bus_zero)),
         (0, (ulpi_bus_idle bus_zero)\<lparr>u_stp := SIG1\<rparr>), (0, ulpi_bus_idle bus_zero)])]) < 2 ^ 32"
    by (simp add: clocks_def usbh_init_def usbh_reset_def)
  ultimately obtain us host' where
    "out_transactions 2
      [(\<lambda>_. 7, \<lambda>_. 0, 1, replicate 40 (0, ulpi_bus_idle bus_zero)),
       (\<lambda>_. 7, \<lambda>_. 0, 1, [(0, set_a ULPITX_ACK (ulpi_bus_idle bus_zero)),
         (0, (ulpi_bus_idle bus_zero)\<lparr>u_stp := SIG1\<rparr>), (0, ulpi_bus_idle bus_zero)])]
      (usbh_init 0 undefined) = Inr (us, host')"
    "(map (\<lambda>u. u ! 3) us, toggle_of 2 host') = toggle_run SIG0 [Silent, Acked 0]"
    using bulk_outs_refine_toggle [OF toggling_init] by metis
  moreover have "toggle_run SIG0 [Silent, Acked 0] = ([0xC3, 0xC3], SIG1)"
    by (simp add: toggle_pid_def toggle_def)
  ultimately show ?thesis by (metis Pair_inject)
qed

end
