(* ===== verification/Bulk_In.thy ===== *)
theory Bulk_In
  imports Bulk_Toggle Ulpi_Recv
begin

text \<open>
  A whole bulk IN transaction of \<open>bulk_in_step\<close> in \<open>src/vpi/usb/usbhost.c\<close>, clock by clock
  through \<open>usbh_step\<close>: the token, the data packet of the link, throttled by the random pauses of
  \<open>NXT\<close>, and the ACK of the host.
\<close>

subsection \<open>Runs whose length the random numbers decide\<close>

text \<open>
  The host clocked against a function of the link, one random number per clock, until the host
  satisfies \<open>stop\<close>, a step returns something else than 0, or the numbers are used up. The numbers
  that are left are returned.
\<close>

primrec host_talk :: "'u user_fn \<Rightarrow> (usb_host_t \<Rightarrow> bool) \<Rightarrow> u32 list \<Rightarrow> usb_host_t \<Rightarrow> ulpi_bus_t \<Rightarrow> 'u
    \<Rightarrow> (int \<times> usb_host_t \<times> ulpi_bus_t \<times> 'u \<times> u32 list) outcome" where
  "host_talk user stop [] host bus u = Inr (0, host, bus, u, [])"
| "host_talk user stop (r # rs) host bus u =
     (if stop host then Inr (0, host, bus, u, r # rs)
      else
        bind_c (usbh_step r host bus) (\<lambda>(result, host, bus).
        bind_c (user u bus bus) (\<lambda>(_, u, bus).
          if result \<noteq> 0 then Inr (result, host, bus, u, rs) else host_talk user stop rs host bus u)))"

lemma host_talk_stop: "stop host \<Longrightarrow> host_talk user stop rs host bus u = Inr (0, host, bus, u, rs)"
  by (cases rs) simp_all

text \<open>A random number that lets the data flow, and how many of a list do.\<close>

definition live :: "u32 \<Rightarrow> bool" where
  "live r \<longleftrightarrow> r AND NXT_MASK \<noteq> NXT_MASK"

definition lives :: "u32 list \<Rightarrow> nat" where
  "lives rs = length (filter live rs)"

lemma lives_simps [simp]:
  "lives [] = 0" "lives (r # rs) = (if live r then Suc (lives rs) else lives rs)"
  by (simp_all add: lives_def)

lemma lives_split: "lives (take k rs) + lives (drop k rs) = lives rs"
  unfolding lives_def by (simp flip: length_append filter_append)

text \<open>
  \<open>reaches user stop n s P\<close>: with at least \<open>n\<close> live numbers the run passes through a state that
  satisfies \<open>P\<close>, and uses no more than \<open>n\<close> live numbers on the way.
\<close>

type_synonym 'u talk = "usb_host_t \<times> ulpi_bus_t \<times> 'u"

definition reaches :: "'u user_fn \<Rightarrow> (usb_host_t \<Rightarrow> bool) \<Rightarrow> nat \<Rightarrow> 'u talk \<Rightarrow> ('u talk \<Rightarrow> bool) \<Rightarrow> bool" where
  "reaches user stop n = (\<lambda>(h, b, u) P. \<forall>rs. n \<le> lives rs \<longrightarrow>
     (\<exists>k h' b' u'. lives (take k rs) \<le> n \<and>
        host_talk user stop rs h b u = host_talk user stop (drop k rs) h' b' u' \<and> P (h', b', u')))"

lemma reachesD:
  assumes "reaches user stop n (h, b, u) P" and "n \<le> lives rs"
  obtains k h' b' u' where "lives (take k rs) \<le> n" and "P (h', b', u')"
    and "host_talk user stop rs h b u = host_talk user stop (drop k rs) h' b' u'"
  using assms unfolding reaches_def prod.case by blast

lemma reaches_refl:
  assumes "P s"
  shows "reaches user stop 0 s P"
proof -
  obtain h b u where s: "s = (h, b, u)" by (cases s)
  then have "lives (take 0 rs) \<le> 0 \<and> host_talk user stop rs h b u = host_talk user stop (drop 0 rs) h b u \<and> P (h, b, u)" for rs
    using assms by simp
  then show ?thesis unfolding s reaches_def prod.case by blast
qed

lemma reaches_mono: "reaches user stop n s P \<Longrightarrow> (\<And>s'. P s' \<Longrightarrow> Q s') \<Longrightarrow> reaches user stop n s Q"
  by (cases s) (simp add: reaches_def, meson)

lemma reaches_trans:
  assumes "reaches user stop m s P" and "\<And>s'. P s' \<Longrightarrow> reaches user stop n s' Q"
  shows "reaches user stop (m + n) s Q"
proof -
  obtain h b u where s: "s = (h, b, u)" by (cases s)
  show ?thesis
    unfolding s reaches_def prod.case
  proof (intro allI impI)
    fix rs assume n: "m + n \<le> lives rs"
    then have "m \<le> lives rs" by simp
    then obtain k h1 b1 u1 where 1: "lives (take k rs) \<le> m" "P (h1, b1, u1)"
        "host_talk user stop rs h b u = host_talk user stop (drop k rs) h1 b1 u1"
      by (rule reachesD [OF assms(1) [unfolded s]])
    have "n \<le> lives (drop k rs)" using n 1(1) lives_split [of k rs] by simp
    then obtain j h2 b2 u2 where 2: "lives (take j (drop k rs)) \<le> n" "Q (h2, b2, u2)"
        "host_talk user stop (drop k rs) h1 b1 u1 = host_talk user stop (drop j (drop k rs)) h2 b2 u2"
      by (rule reachesD [OF assms(2) [OF 1(2)]])
    have "lives (take (k + j) rs) \<le> m + n"
      using 1(1) 2(1) by (simp add: take_add lives_def)
    then show "\<exists>k h' b' u'. lives (take k rs) \<le> m + n \<and>
        host_talk user stop rs h b u = host_talk user stop (drop k rs) h' b' u' \<and> Q (h', b', u')"
      using 1(3) 2(2,3) by (intro exI [of _ "k + j"]) (auto simp: add.commute)
  qed
qed

text \<open>A clock: whatever its number, and a clock whose pause leads back to the goal.\<close>

lemma reaches_choice:
  assumes "\<not> stop h"
    and "\<And>r. live r \<Longrightarrow> \<exists>h1 out z u' b'. usbh_step r h b = Inr (0, h1, out) \<and> user u out out = Inr (z, u', b') \<and> P (h1, b', u')"
    and "\<And>r. \<not> live r \<Longrightarrow> \<exists>h1 out z u' b'. usbh_step r h b = Inr (0, h1, out) \<and> user u out out = Inr (z, u', b') \<and>
      reaches user stop 1 (h1, b', u') P"
  shows "reaches user stop 1 (h, b, u) P"
  unfolding reaches_def prod.case
proof (intro allI impI)
  fix rs assume "1 \<le> lives rs"
  then obtain r rs' where rs: "rs = r # rs'" by (cases rs) auto
  show "\<exists>k h' b' u'. lives (take k rs) \<le> 1 \<and>
      host_talk user stop rs h b u = host_talk user stop (drop k rs) h' b' u' \<and> P (h', b', u')"
  proof (cases "live r")
    case True
    from assms(2) [OF this] show ?thesis using assms(1) True unfolding rs by (fastforce intro!: exI [of _ 1])
  next
    case False
    from assms(3) [OF this] obtain h1 out z u1 b1 where c: "usbh_step r h b = Inr (0, h1, out)"
        "user u out out = Inr (z, u1, b1)" "reaches user stop 1 (h1, b1, u1) P" by blast
    have "1 \<le> lives rs'" using \<open>1 \<le> lives rs\<close> False by (simp add: rs)
    then obtain k h2 b2 u2 where "lives (take k rs') \<le> 1" "P (h2, b2, u2)"
        "host_talk user stop rs' h1 b1 u1 = host_talk user stop (drop k rs') h2 b2 u2"
      by (rule reachesD [OF c(3)])
    then show ?thesis using assms(1) False c(1,2) unfolding rs by (intro exI [of _ "Suc k"]) auto
  qed
qed

lemma reaches_clock:
  assumes "\<not> stop h"
    and "\<And>r. \<exists>h1 out z u' b'. usbh_step r h b = Inr (0, h1, out) \<and> user u out out = Inr (z, u', b') \<and> P (h1, b', u')"
  shows "reaches user stop 1 (h, b, u) P"
  unfolding reaches_def prod.case
proof (intro allI impI)
  fix rs assume "1 \<le> lives rs"
  then obtain r rs' where rs: "rs = r # rs'" by (cases rs) auto
  from assms(2) [of r] show "\<exists>k h' b' u'. lives (take k rs) \<le> 1 \<and>
      host_talk user stop rs h b u = host_talk user stop (drop k rs) h' b' u' \<and> P (h', b', u')"
    using assms(1) unfolding rs by (fastforce intro!: exI [of _ 1])
qed

text \<open>A pause lasts until a number is live.\<close>

lemma reaches_pause:
  assumes "\<And>c. \<not> stop (busy h x c)"
    and "\<And>c r. live r \<Longrightarrow> \<exists>h1 out z u' b'. usbh_step r (busy h x c) b = Inr (0, h1, out) \<and>
      user u out out = Inr (z, u', b') \<and> P (h1, b', u')"
    and "\<And>c r. \<not> live r \<Longrightarrow> \<exists>out z. usbh_step r (busy h x c) b = Inr (0, busy h x (c + 1), out) \<and>
      user u out out = Inr (z, u, b)"
  shows "reaches user stop 1 (busy h x c, b, u) P"
  unfolding reaches_def prod.case
proof (intro allI impI)
  fix rs assume "1 \<le> lives rs"
  then show "\<exists>k h' b' u'. lives (take k rs) \<le> 1 \<and>
      host_talk user stop rs (busy h x c) b u = host_talk user stop (drop k rs) h' b' u' \<and> P (h', b', u')"
  proof (induction rs arbitrary: c)
    case Nil
    then show ?case by simp
  next
    case (Cons r rs)
    show ?case
    proof (cases "live r")
      case True
      from assms(2) [OF this, of c] show ?thesis using assms(1) True by (fastforce intro!: exI [of _ 1])
    next
      case False
      then have "1 \<le> lives rs" using Cons.prems by simp
      from Cons.IH [OF this, of "c + 1"] obtain k h' b' u' where "lives (take k rs) \<le> 1" "P (h', b', u')"
          "host_talk user stop rs (busy h x (c + 1)) b u = host_talk user stop (drop k rs) h' b' u'" by blast
      then show ?thesis using assms(3) [OF False, of c] assms(1) [of c] False
        by (intro exI [of _ "Suc k"] exI [of _ h'] exI [of _ b'] exI [of _ u']) auto
    qed
  qed
qed

subsection \<open>The link and the host in the data stage\<close>

text \<open>A link that answers after \<open>w\<close> clocks.\<close>

fun in_link :: "(nat \<times> link_t) user_fn" where
  "in_link (Suc w, l) inb out = Inr (0, (w, l), out)"
| "in_link (0, l) inb out = bind_c (link_send l inb out) (\<lambda>(z, l, out). Inr (z, (0, l), out))"

definition data_over :: "usb_host_t \<Rightarrow> bool" where
  "data_over h \<longleftrightarrow> x_type (h_xfer h) \<notin> {UpDATA0, UpDATA1}"

lemma in_clock:
  "h_op h = HostBulkIN \<Longrightarrow> u_rst_n b \<noteq> SIG0 \<Longrightarrow>
     usbh_step rnd (busy h x c) b = bulk_in_step rnd (busy h x (c + 1)) b b"
  by (simp add: usbh_step_def usbh_frame_busy host_order usbh_dispatch_def)

lemma data_clock:
  assumes "h_op h = HostBulkIN" and "u_rst_n b \<noteq> SIG0" and "x_type x \<in> {UpDATA0, UpDATA1}"
    and "datax_recv_step x b b = Inr (0, x', out)"
    and "x_rx_ptr x' \<noteq> 0 \<or> c + 1 < ucast (x_cycle x')"
  shows "usbh_step r (busy h x c) b = Inr (0, busy h x' (c + 1),
    if x_rx_ptr x' > 0 \<and> u_nxt out = SIG1 \<and> \<not> live r then out\<lparr>u_nxt := SIG0\<rparr> else out)"
  using assms(3-5) in_clock [OF assms(1,2), of r x c]
  by (auto simp: bulk_in_step_def bulk_in_data_def timed_out_def live_def not_le)

text \<open>The transfer after \<open>p\<close> bytes of the packet \<open>bs\<close>.\<close>

definition stored :: "transfer_t \<Rightarrow> u8 list \<Rightarrow> nat \<Rightarrow> transfer_t" where
  "stored x bs p = x\<lparr>x_stage := DATAxBody, x_rx := put_at 0 (take p bs) (x_rx x), x_rx_ptr := int p\<rparr>"

lemma stored_simps [simp]:
  "x_type (stored x bs p) = x_type x" "x_stage (stored x bs p) = DATAxBody" "x_rx_ptr (stored x bs p) = int p"
  "x_cycle (stored x bs p) = x_cycle x"
  by (simp_all add: stored_def)

lemma store_byte:
  assumes "x_type x \<in> {UpDATA0, UpDATA1}" and "p < length bs" and "length bs \<le> length (x_rx x)"
  shows "datax_recv_step (stored x bs p) (sent_bus bus (bs ! p) SIG1 SIG0) (sent_bus bus (bs ! p) SIG1 SIG0) =
    Inr (0, stored x bs (Suc p), sent_bus bus (bs ! p) SIG1 SIG0)"
proof -
  have "length (put_at 0 (take p bs) (x_rx x)) = length (x_rx x)" using assms(2,3) by (simp add: put_at_def)
  then have "aput (put_at 0 (take p bs) (x_rx x)) (int p) (bs ! p) = Inr (put_at 0 (take (Suc p) bs) (x_rx x))"
    using assms(2,3) put_at_step [OF assms(2,3)] by simp
  then show ?thesis using assms(1) by (auto simp: datax_recv_step_def stored_def)
qed

lemma hold_byte:
  assumes "x_type x \<in> {UpDATA0, UpDATA1}"
  shows "datax_recv_step (stored x bs p) (sent_bus bus b SIG0 SIG0) (sent_bus bus b SIG0 SIG0) =
    Inr (0, stored x bs p, sent_bus bus b SIG1 SIG0)"
  using assms by (auto simp: datax_recv_step_def intro!: sent_busI)

lemma sent_bus_nxt [simp]: "(sent_bus bus b n s)\<lparr>u_nxt := n'\<rparr> = sent_bus bus b n' s"
  by (rule sent_busI) simp_all

text \<open>The states of the data stage: the host is about to store byte \<open>p\<close>, or sees \<open>STP\<close>.\<close>

definition at_byte :: "usb_host_t \<Rightarrow> transfer_t \<Rightarrow> ulpi_bus_t \<Rightarrow> u8 list \<Rightarrow> nat \<Rightarrow> (nat \<times> link_t) talk \<Rightarrow> bool" where
  "at_byte h x bus bs p = (\<lambda>(h', b, u). \<exists>c. h' = busy h (stored x bs p) c \<and>
     b = sent_bus bus (bs ! p) SIG1 SIG0 \<and>
     u = (0, \<lparr>l_nxt = True, l_bytes = drop p bs, l_stopped = False\<rparr>))"

definition at_stop :: "usb_host_t \<Rightarrow> transfer_t \<Rightarrow> ulpi_bus_t \<Rightarrow> u8 list \<Rightarrow> (nat \<times> link_t) talk \<Rightarrow> bool" where
  "at_stop h x bus bs = (\<lambda>(h', b, u). \<exists>c n. n \<in> {SIG0, SIG1} \<and> h' = busy h (stored x bs (length bs)) c \<and>
     b = sent_bus bus 0 n SIG1 \<and> u = (0, \<lparr>l_nxt = (n = SIG1), l_bytes = [], l_stopped = True\<rparr>))"

lemma link_byte:
  "in_link (0, \<lparr>l_nxt = True, l_bytes = b # b' # bs, l_stopped = False\<rparr>) (sent_bus bus d n SIG0) (sent_bus bus d n SIG0) =
     Inr (0, (0, \<lparr>l_nxt = (n = SIG1), l_bytes = b' # bs, l_stopped = False\<rparr>), sent_bus bus b' n SIG0)"
  by (auto simp: link_send_def Let_def intro!: sent_busI)

lemma link_last:
  "in_link (0, \<lparr>l_nxt = True, l_bytes = [b], l_stopped = False\<rparr>) (sent_bus bus d n SIG0) (sent_bus bus d n SIG0) =
     Inr (0, (0, \<lparr>l_nxt = (n = SIG1), l_bytes = [], l_stopped = True\<rparr>), sent_bus bus 0 n SIG1)"
  by (auto simp: link_send_def Let_def intro!: sent_busI)

lemma link_hold:
  "in_link (0, \<lparr>l_nxt = False, l_bytes = b # bs, l_stopped = False\<rparr>) (sent_bus bus d n SIG0) (sent_bus bus d n SIG0) =
     Inr (0, (0, \<lparr>l_nxt = (n = SIG1), l_bytes = b # bs, l_stopped = False\<rparr>), sent_bus bus b n SIG0)"
  by (auto simp: link_send_def Let_def intro!: sent_busI)

lemma byte_reaches:
  assumes "h_op h = HostBulkIN" and "x_type x \<in> {UpDATA0, UpDATA1}" and "length bs \<le> length (x_rx x)"
    and "Suc p < length bs" and "at_byte h x bus bs p s"
  shows "reaches in_link data_over 1 s (at_byte h x bus bs (Suc p))"
proof -
  let ?x = "stored x bs (Suc p)" and ?b = "sent_bus bus (bs ! Suc p)"
  let ?l = "\<lambda>n. \<lparr>l_nxt = n, l_bytes = drop (Suc p) bs, l_stopped = False\<rparr>"
  obtain c where s: "s = (busy h (stored x bs p) c, sent_bus bus (bs ! p) SIG1 SIG0,
      (0, \<lparr>l_nxt = True, l_bytes = drop p bs, l_stopped = False\<rparr>))"
    using assms(5) by (cases s) (auto simp: at_byte_def)
  have bytes: "drop p bs = bs ! p # bs ! Suc p # drop (Suc (Suc p)) bs"
      "drop (Suc p) bs = bs ! Suc p # drop (Suc (Suc p)) bs"
    using assms(4) by (simp_all add: Cons_nth_drop_Suc)
  have on: "\<not> data_over (busy h (stored x bs q) d)" for q d using assms(2) by (auto simp: data_over_def)
  have ty: "x_type (stored x bs q) \<in> {UpDATA0, UpDATA1}" for q using assms(2) by simp
  have sb: "datax_recv_step (stored x bs p) (sent_bus bus (bs ! p) SIG1 SIG0) (sent_bus bus (bs ! p) SIG1 SIG0) =
      Inr (0, ?x, sent_bus bus (bs ! p) SIG1 SIG0)"
    by (rule store_byte [OF assms(2) _ assms(3)]) (use assms(4) in simp)
  have hb: "datax_recv_step ?x (?b SIG0 SIG0) (?b SIG0 SIG0) = Inr (0, ?x, ?b SIG1 SIG0)"
    by (rule hold_byte [OF assms(2)])
  have step: "usbh_step r (busy h (stored x bs p) c) (sent_bus bus (bs ! p) SIG1 SIG0) =
      Inr (0, busy h ?x (c + 1), sent_bus bus (bs ! p) (if live r then SIG1 else SIG0) SIG0)" for r
    using data_clock [OF assms(1) _ ty sb, of c r] by simp
  have hold: "usbh_step r (busy h ?x d) (?b SIG0 SIG0) =
      Inr (0, busy h ?x (d + 1), ?b (if live r then SIG1 else SIG0) SIG0)" for r d
    using data_clock [OF assms(1) _ ty hb, of d r] by simp
  have pause: "reaches in_link data_over 1 (busy h ?x d, ?b SIG0 SIG0, (0, ?l False)) (at_byte h x bus bs (Suc p))" for d
  proof (rule reaches_pause)
    show "\<exists>h1 out z u' b'. usbh_step r (busy h ?x d) (?b SIG0 SIG0) = Inr (0, h1, out) \<and>
        in_link (0, ?l False) out out = Inr (z, u', b') \<and> at_byte h x bus bs (Suc p) (h1, b', u')" if "live r" for d r
      using that hold [of r d] by (simp add: bytes link_hold at_byte_def del: in_link.simps) blast
    show "\<exists>out z. usbh_step r (busy h ?x d) (?b SIG0 SIG0) = Inr (0, busy h ?x (d + 1), out) \<and>
        in_link (0, ?l False) out out = Inr (z, (0, ?l False), ?b SIG0 SIG0)" if "\<not> live r" for d r
      using that hold [of r d] by (simp add: bytes link_hold del: in_link.simps)
  qed (rule on)
  show ?thesis
    unfolding s
  proof (rule reaches_choice)
    show "\<not> data_over (busy h (stored x bs p) c)" by (rule on)
    show "\<exists>h1 out z u' b'. usbh_step r (busy h (stored x bs p) c) (sent_bus bus (bs ! p) SIG1 SIG0) = Inr (0, h1, out) \<and>
        in_link (0, \<lparr>l_nxt = True, l_bytes = drop p bs, l_stopped = False\<rparr>) out out = Inr (z, u', b') \<and>
        at_byte h x bus bs (Suc p) (h1, b', u')" if "live r" for r
      using that step [of r] by (simp add: bytes link_byte at_byte_def del: in_link.simps) blast
    show "\<exists>h1 out z u' b'. usbh_step r (busy h (stored x bs p) c) (sent_bus bus (bs ! p) SIG1 SIG0) = Inr (0, h1, out) \<and>
        in_link (0, \<lparr>l_nxt = True, l_bytes = drop p bs, l_stopped = False\<rparr>) out out = Inr (z, u', b') \<and>
        reaches in_link data_over 1 (h1, b', u') (at_byte h x bus bs (Suc p))" if "\<not> live r" for r
      using that step [of r] pause [of "c + 1"] by (simp add: bytes link_byte del: in_link.simps)
  qed
qed

lemma last_reaches:
  assumes "h_op h = HostBulkIN" and "x_type x \<in> {UpDATA0, UpDATA1}" and "length bs \<le> length (x_rx x)"
    and "Suc p = length bs" and "at_byte h x bus bs p s"
  shows "reaches in_link data_over 1 s (at_stop h x bus bs)"
proof -
  obtain c where s: "s = (busy h (stored x bs p) c, sent_bus bus (bs ! p) SIG1 SIG0,
      (0, \<lparr>l_nxt = True, l_bytes = drop p bs, l_stopped = False\<rparr>))"
    using assms(5) by (cases s) (auto simp: at_byte_def)
  have bytes: "drop p bs = [bs ! p]" using assms(4) by (simp add: Cons_nth_drop_Suc [symmetric])
  have ty: "x_type (stored x bs q) \<in> {UpDATA0, UpDATA1}" for q using assms(2) by simp
  have sb: "datax_recv_step (stored x bs p) (sent_bus bus (bs ! p) SIG1 SIG0) (sent_bus bus (bs ! p) SIG1 SIG0) =
      Inr (0, stored x bs (length bs), sent_bus bus (bs ! p) SIG1 SIG0)"
    using store_byte [OF assms(2) _ assms(3), of p bus] assms(4) by simp
  have ptr: "x_rx_ptr (stored x bs (length bs)) \<noteq> 0 \<and> x_rx_ptr (stored x bs (length bs)) > 0" using assms(4) by auto
  have step: "usbh_step r (busy h (stored x bs p) c) (sent_bus bus (bs ! p) SIG1 SIG0) =
      Inr (0, busy h (stored x bs (length bs)) (c + 1), sent_bus bus (bs ! p) (if live r then SIG1 else SIG0) SIG0)" for r
    using data_clock [OF assms(1) _ ty sb, of c r] ptr by simp
  show ?thesis
    unfolding s
  proof (rule reaches_clock)
    show "\<not> data_over (busy h (stored x bs p) c)" using assms(2) by (auto simp: data_over_def)
    show "\<exists>h1 out z u' b'. usbh_step r (busy h (stored x bs p) c) (sent_bus bus (bs ! p) SIG1 SIG0) = Inr (0, h1, out) \<and>
        in_link (0, \<lparr>l_nxt = True, l_bytes = drop p bs, l_stopped = False\<rparr>) out out = Inr (z, u', b') \<and>
        at_stop h x bus bs (h1, b', u')" for r
    proof -
      let ?n = "if live r then SIG1 else SIG0"
      have "in_link (0, \<lparr>l_nxt = True, l_bytes = drop p bs, l_stopped = False\<rparr>) (sent_bus bus (bs ! p) ?n SIG0)
          (sent_bus bus (bs ! p) ?n SIG0) =
        Inr (0, (0, \<lparr>l_nxt = (?n = SIG1), l_bytes = [], l_stopped = True\<rparr>), sent_bus bus 0 ?n SIG1)"
        unfolding bytes by (rule link_last)
      moreover have "at_stop h x bus bs (busy h (stored x bs (length bs)) (c + 1), sent_bus bus 0 ?n SIG1,
          (0, \<lparr>l_nxt = (?n = SIG1), l_bytes = [], l_stopped = True\<rparr>))"
        unfolding at_stop_def prod.case by (rule exI [of _ "c + 1"], rule exI [of _ ?n]) simp
      ultimately show ?thesis using step [of r] by blast
    qed
  qed
qed

lemma bytes_reach:
  assumes "h_op h = HostBulkIN" and "x_type x \<in> {UpDATA0, UpDATA1}" and "length bs \<le> length (x_rx x)"
  shows "p + Suc k = length bs \<Longrightarrow> at_byte h x bus bs p s \<Longrightarrow> reaches in_link data_over (Suc k) s (at_stop h x bus bs)"
proof (induction k arbitrary: p s)
  case 0
  then show ?case using last_reaches [OF assms, of p bus s] by simp
next
  case (Suc k)
  have "reaches in_link data_over 1 s (at_byte h x bus bs (Suc p))"
    by (rule byte_reaches [OF assms _ Suc.prems(2)]) (use Suc.prems(1) in simp)
  moreover have "reaches in_link data_over (Suc k) s' (at_stop h x bus bs)" if "at_byte h x bus bs (Suc p) s'" for s'
    by (rule Suc.IH [OF _ that]) (use Suc.prems(1) in simp)
  ultimately have "reaches in_link data_over (1 + Suc k) s (at_stop h x bus bs)" by (rule reaches_trans)
  then show ?case by simp
qed

subsection \<open>The end of the packet\<close>

text \<open>A state but for its cycle counter, and a clock from one to the next.\<close>

definition in_state :: "usb_host_t \<Rightarrow> transfer_t \<Rightarrow> ulpi_bus_t \<Rightarrow> 'u \<Rightarrow> 'u talk \<Rightarrow> bool" where
  "in_state h y b u = (\<lambda>s. \<exists>c. s = (busy h y c, b, u))"

lemma state_clock:
  assumes "in_state h y b u s" and "\<And>c. \<not> stop (busy h y c)"
    and "\<And>r c. usbh_step r (busy h y c) b = Inr (0, busy h y' (c + 1), out)"
    and "user u out out = Inr (z, u', b')"
  shows "reaches user stop 1 s (in_state h y' b' u')"
proof -
  obtain c where s: "s = (busy h y c, b, u)" using assms(1) by (auto simp: in_state_def)
  show ?thesis unfolding s
  proof (rule reaches_clock)
    show "\<not> stop (busy h y c)" by (rule assms(2))
  qed (use assms(3,4) in \<open>auto simp: in_state_def\<close>)
qed

abbreviation sent_all :: "nat \<times> link_t" where
  "sent_all \<equiv> (0, \<lparr>l_nxt = False, l_bytes = [], l_stopped = True\<rparr>)"

text \<open>A clock of the data stage in which the host drives \<open>NXT\<close> low.\<close>

lemma eop_clock:
  assumes "h_op h = HostBulkIN" and "x_type y \<in> {UpDATA0, UpDATA1}" and "u_rst_n b \<noteq> SIG0"
    and "in_state h y b u s" and "datax_recv_step y b b = Inr (0, y', out)" and "x_rx_ptr y' \<noteq> 0"
    and "u_nxt out = SIG0" and "in_link u out out = Inr (z, u', b')"
  shows "reaches in_link data_over 1 s (in_state h y' b' u')"
proof (rule state_clock)
  show "in_state h y b u s" by (rule assms(4))
  show "usbh_step r (busy h y c) b = Inr (0, busy h y' (c + 1), out)" for r c
    using data_clock [OF assms(1,3,2,5), of c r] assms(6,7) by simp
  show "in_link u out out = Inr (z, u', b')" by (rule assms(8))
qed (use assms(2) in \<open>auto simp: data_over_def\<close>)

definition turned :: "ulpi_bus_t \<Rightarrow> u8 \<Rightarrow> u8 \<Rightarrow> ulpi_bus_t" where
  "turned bus a b = set_b b ((sent_bus bus a SIG0 SIG0)\<lparr>u_dir := SIG1\<rparr>)"

lemma turned_simps [simp]:
  "u_clock (turned bus a b) = SIG1" "u_rst_n (turned bus a b) = SIG1" "u_dir (turned bus a b) = SIG1"
  "u_stp (turned bus a b) = SIG0" "u_nxt (turned bus a b) = SIG0" "data_a (turned bus a b) = a"
  "data_b (turned bus a b) = b"
  by (simp_all add: turned_def)

lemma turnedI:
  "\<lbrakk>u_clock c = SIG1; u_rst_n c = SIG1; u_dir c = SIG1; u_stp c = SIG0; u_nxt c = SIG0;
    data_a c = a; data_b c = b\<rbrakk> \<Longrightarrow> c = turned bus a b"
  by (rule bus_eqI) simp_all

lemma eop_reaches:
  assumes "h_op h = HostBulkIN" and "x_type y \<in> {UpDATA0, UpDATA1}" and "x_rx_ptr y \<noteq> 0" and "x_stage y = DATAxStop"
    and "in_state h y (turned bus 0x00 0xFF) sent_all s"
  shows "reaches in_link data_over 4 s (in_state h (y\<lparr>x_type := DnACK, x_stage := NoXfer\<rparr>) (sent_bus bus 0 SIG0 SIG0) sent_all)"
proof -
  let ?y = "\<lambda>s. y\<lparr>x_stage := s\<rparr>"
  have link: "in_link sent_all (turned bus a b) (turned bus a b) = Inr (0, sent_all, turned bus a b)" for a b
    by (auto simp: link_send_def intro!: turnedI)
  have 1: "reaches in_link data_over 1 s (in_state h (?y EndRXCMD) (turned bus 0x4C 0x00) sent_all)"
    by (rule eop_clock [where out = "turned bus 0x4C 0x00", OF assms(1,2) _ assms(5) _ _ _ link])
      (use assms(2-4) in \<open>auto simp: datax_recv_step_def drive_eop_def intro!: turnedI\<close>)
  have 2: "reaches in_link data_over 1 s (in_state h (?y EOP) (turned bus 0x4D 0x00) sent_all)"
    if "in_state h (?y EndRXCMD) (turned bus 0x4C 0x00) sent_all s" for s
    by (rule eop_clock [where out = "turned bus 0x4D 0x00", OF assms(1) _ _ that _ _ _ link])
      (use assms(2-4) in \<open>auto simp: datax_recv_step_def drive_eop_def intro!: turnedI\<close>)
  have 3: "reaches in_link data_over 1 s (in_state h (?y LineIdle) (sent_bus bus 0 SIG0 SIG0) sent_all)"
    if "in_state h (?y EOP) (turned bus 0x4D 0x00) sent_all s" for s
    by (rule eop_clock [OF assms(1) _ _ that, where out = "set_b 0xFF (sent_bus bus 0 SIG0 SIG0)" and z = 0])
      (use assms(2-4) in \<open>auto simp: datax_recv_step_def drive_eop_def link_send_def intro!: bus_eqI\<close>)
  have 4: "reaches in_link data_over 1 s (in_state h (y\<lparr>x_type := DnACK, x_stage := NoXfer\<rparr>) (sent_bus bus 0 SIG0 SIG0) sent_all)"
    if "in_state h (?y LineIdle) (sent_bus bus 0 SIG0 SIG0) sent_all s" for s
  proof (rule state_clock)
    show "in_state h (?y LineIdle) (sent_bus bus 0 SIG0 SIG0) sent_all s" by (rule that)
    show "usbh_step r (busy h (?y LineIdle) c) (sent_bus bus 0 SIG0 SIG0) =
        Inr (0, busy h (y\<lparr>x_type := DnACK, x_stage := NoXfer\<rparr>) (c + 1), sent_bus bus 0 SIG0 SIG0)" for r c
      using assms(2,3) in_clock [OF assms(1), of "sent_bus bus 0 SIG0 SIG0" r "?y LineIdle" c]
      by (auto simp: bulk_in_step_def bulk_in_data_def datax_recv_step_def drive_eop_def)
    show "in_link sent_all (sent_bus bus 0 SIG0 SIG0) (sent_bus bus 0 SIG0 SIG0) = Inr (0, sent_all, sent_bus bus 0 SIG0 SIG0)"
      by (auto simp: link_send_def intro!: bus_eqI)
  qed (use assms(2) in \<open>auto simp: data_over_def\<close>)
  have n: "(4::nat) = 1 + (1 + (1 + 1))" by simp
  show ?thesis unfolding n
    by (rule reaches_trans [OF 1 reaches_trans [OF 2 reaches_trans [OF 3 4]]])
qed

text \<open>The clock in which the host sees \<open>STP\<close>: the CRC decides.\<close>

lemma stop_step:
  assumes "receiving x pid" and "length ps + 2 \<le> length (x_rx x)" and "bs = ps @ [c1, c2]" and "n \<in> {SIG0, SIG1}"
  shows "datax_recv_step (stored x bs (length bs)) (sent_bus bus 0 n SIG1) (sent_bus bus 0 n SIG1) =
    Inr (if crc_right ps c1 c2 then 0 else -1, received x ps c1 c2,
      set_b 0xFF ((sent_bus bus 0 SIG0 SIG1)\<lparr>u_dir := SIG1\<rparr>))"
proof -
  have e: "set_b 0xFF (set_a 0x00 ((sent_bus bus 0 n SIG1)\<lparr>u_nxt := SIG0, u_dir := SIG1\<rparr>)) =
      set_b 0xFF (set_a 0x00 ((sent_bus bus 0 SIG1 SIG1)\<lparr>u_nxt := SIG0, u_dir := SIG1\<rparr>))"
    by (rule bus_eqI) simp_all
  have same: "datax_recv_step y (sent_bus bus 0 n SIG1) (sent_bus bus 0 n SIG1) =
      datax_recv_step y (sent_bus bus 0 SIG1 SIG1) (sent_bus bus 0 SIG1 SIG1)" if "x_stage y = DATAxBody" "x_type y \<in> {UpDATA0, UpDATA1}" for y
    using that by (auto simp: datax_recv_step_def Let_def e intro!: arg_cong2 [of _ _ _ _ bind_c] ext)
  have y: "stored x bs (length bs) = x\<lparr>x_stage := DATAxBody, x_rx := put_at 0 (ps @ [c1, c2]) (x_rx x),
      x_rx_ptr := int (length ps + 2)\<rparr>"
    by (simp add: stored_def assms(3))
  show ?thesis
    using recv_stop_step [OF assms(1,2), of c1 c2 bus] same [of "stored x bs (length bs)"] assms(1)
    unfolding y receiving_def by simp
qed

lemma received_fields [simp]:
  "x_rx_ptr (received x ps c1 c2) = int (length ps + 2)"
  "x_rx_len (received x ps c1 c2) = int (length ps)" "take (length ps) (x_rx (received x ps c1 c2)) = ps"
  "x_ep_seq (received x ps c1 c2) = x_ep_seq x" "x_endpoint (received x ps c1 c2) = x_endpoint x"
  by (simp_all add: received_def Let_def)

lemma stop_reaches:
  assumes "h_op h = HostBulkIN" and "receiving x pid" and "length ps + 2 \<le> length (x_rx x)" and "bs = ps @ [c1, c2]"
    and "crc_right ps c1 c2" and "at_stop h x bus bs s"
  shows "reaches in_link data_over 1 s (in_state h (received x ps c1 c2) (turned bus 0x00 0xFF) sent_all)"
proof -
  obtain c n where n: "n \<in> {SIG0, SIG1}" and s: "s = (busy h (stored x bs (length bs)) c, sent_bus bus 0 n SIG1,
      (0, \<lparr>l_nxt = (n = SIG1), l_bytes = [], l_stopped = True\<rparr>))"
    using assms(6) by (cases s) (auto simp: at_stop_def)
  have ty: "x_type (stored x bs (length bs)) \<in> {UpDATA0, UpDATA1}" using assms(2) by (auto simp: receiving_def)
  let ?out = "set_b 0xFF ((sent_bus bus 0 SIG0 SIG1)\<lparr>u_dir := SIG1\<rparr>)"
  have st: "datax_recv_step (stored x bs (length bs)) (sent_bus bus 0 n SIG1) (sent_bus bus 0 n SIG1) =
      Inr (0, received x ps c1 c2, ?out)"
    using stop_step [OF assms(2-4) n, of bus] assms(5) by simp
  have clock: "usbh_step r (busy h (stored x bs (length bs)) c) (sent_bus bus 0 n SIG1) =
      Inr (0, busy h (received x ps c1 c2) (c + 1), ?out)" for r
    using data_clock [OF assms(1) _ ty st, of c r] by simp
  have link: "in_link (0, \<lparr>l_nxt = (n = SIG1), l_bytes = [], l_stopped = True\<rparr>) ?out ?out =
      Inr (0, sent_all, turned bus 0x00 0xFF)"
    by (auto simp: link_send_def intro!: turnedI)
  show ?thesis unfolding s
  proof (rule reaches_clock)
    show "\<not> data_over (busy h (stored x bs (length bs)) c)" using ty by (auto simp: data_over_def)
    show "\<exists>h1 out z u' b'. usbh_step r (busy h (stored x bs (length bs)) c) (sent_bus bus 0 n SIG1) = Inr (0, h1, out) \<and>
        in_link (0, \<lparr>l_nxt = (n = SIG1), l_bytes = [], l_stopped = True\<rparr>) out out = Inr (z, u', b') \<and>
        in_state h (received x ps c1 c2) (turned bus 0x00 0xFF) sent_all (h1, b', u')" for r
      using clock [of r] link by (auto simp: in_state_def)
  qed
qed

subsection \<open>The beginning of the packet\<close>

lemma before_deadline:
  assumes "unat (c :: u64) + 1 < unat (d :: u32)"
  shows "c + 1 < ucast d"
proof -
  have "unat c + 1 < 2 ^ 64" using assms unat_u32 [of d] by simp
  then have "unat (c + 1) = unat c + 1" by (simp add: unat_word_ariths)
  then show ?thesis using assms by (simp add: word_less_nat_alt unat_ucast_deadline)
qed

lemma early_clock:
  assumes "h_op h = HostBulkIN" and "x_type x \<in> {UpDATA0, UpDATA1}" and "u_rst_n b \<noteq> SIG0"
    and "datax_recv_step x b b = Inr (0, x', out)" and "x_rx_ptr x' = 0" and "unat c + 1 < unat (x_cycle x')"
    and "in_link u out out = Inr (z, u', b')"
  shows "reaches in_link data_over 1 (busy h x c, b, u) (\<lambda>s. s = (busy h x' (c + 1), b', u'))"
proof (rule reaches_clock)
  show "\<not> data_over (busy h x c)" using assms(2) by (auto simp: data_over_def)
  show "\<exists>h1 out z v c'. usbh_step r (busy h x c) b = Inr (0, h1, out) \<and> in_link u out out = Inr (z, v, c') \<and>
      (h1, c', v) = (busy h x' (c + 1), b', u')" for r
    using data_clock [OF assms(1,3,2,4), of c r] before_deadline [OF assms(6)] assms(5,7) by (cases u') simp
qed

lemma head_reaches:
  assumes "h_op h = HostBulkIN" and "receiving x pid" and "x_stage x = NoXfer" and "x_rx_ptr x = 0" and "bs \<noteq> []"
    and "unat c + 4 < unat (x_cycle x)"
  shows "reaches in_link data_over 4 (busy h x c, bus_released bus, (0, link_start (pid # bs))) (at_byte h x bus bs 0)"
proof -
  have ty: "x_type x \<in> {UpDATA0, UpDATA1}" using assms(2) by (simp add: receiving_def)
  have pid: "pid \<noteq> 0" "pid = ULPITX_DATA0 \<or> pid = ULPITX_DATA1" "check_seq x (pid AND 0x0F)"
    using assms(2) by (auto simp: receiving_def)
  obtain b bs' where bs: "bs = b # bs'" using assms(5) by (cases bs) auto
  let ?l = "\<lambda>n bs. (0 :: nat, \<lparr>l_nxt = n, l_bytes = bs, l_stopped = False\<rparr>)"
  let ?p = "x\<lparr>x_stage := DATAxPID\<rparr>"
  have u: "unat (c + of_nat k) = unat c + k" if "k \<le> 3" for k
    using cycle_unat [of c k] that assms(6) unat_u32 [of "x_cycle x"] by simp
  have 1: "reaches in_link data_over 1 (busy h x c, bus_released bus, (0, link_start (pid # bs)))
      (\<lambda>s. s = (busy h x (c + 1), sent_bus bus pid SIG0 SIG0, ?l False (pid # bs)))"
    by (rule early_clock [where out = "bus_released bus" and z = 0, OF assms(1) ty])
      (use ty assms(3,4,6) in \<open>auto simp: datax_recv_step_def bus_released_def link_send_def link_start_def intro!: bus_eqI\<close>)
  have 2: "reaches in_link data_over 1 (busy h x (c + 1), sent_bus bus pid SIG0 SIG0, ?l False (pid # bs))
      (\<lambda>s. s = (busy h ?p (c + 2), sent_bus bus pid SIG1 SIG0, ?l True (pid # bs)))"
  proof -
    have "datax_recv_step x (sent_bus bus pid SIG0 SIG0) (sent_bus bus pid SIG0 SIG0) = Inr (0, ?p, sent_bus bus pid SIG1 SIG0)"
      using ty assms(3) pid(1) by (auto simp: datax_recv_step_def intro!: sent_busI)
    from early_clock [OF assms(1) ty _ this _ _ link_hold, of "c + 1"] show ?thesis
      using assms(4,6) u [of 1] by (simp add: add.assoc)
  qed
  have 3: "reaches in_link data_over 1 (busy h ?p (c + 2), sent_bus bus pid SIG1 SIG0, ?l True (pid # bs))
      (\<lambda>s. s = (busy h (stored x bs 0) (c + 3), sent_bus bus b SIG0 SIG0, ?l False bs))"
  proof -
    have "datax_recv_step ?p (sent_bus bus pid SIG1 SIG0) (sent_bus bus pid SIG1 SIG0) =
        Inr (0, stored x bs 0, sent_bus bus pid SIG0 SIG0)"
      using ty pid by (auto simp: datax_recv_step_def check_seq_def stored_def Let_def)
    from early_clock [OF assms(1) _ _ this _ _ link_byte, of "c + 2"] show ?thesis
      using ty assms(6) u [of 2] by (simp add: add.assoc bs)
  qed
  have 4: "reaches in_link data_over 1 (busy h (stored x bs 0) (c + 3), sent_bus bus b SIG0 SIG0, ?l False bs) (at_byte h x bus bs 0)"
  proof -
    have hb: "datax_recv_step (stored x bs 0) (sent_bus bus b SIG0 SIG0) (sent_bus bus b SIG0 SIG0) =
        Inr (0, stored x bs 0, sent_bus bus b SIG1 SIG0)"
      by (rule hold_byte [OF ty])
    from early_clock [OF assms(1) _ _ hb _ _ link_hold, of "c + 3" b bs']
    have "reaches in_link data_over 1 (busy h (stored x bs 0) (c + 3), sent_bus bus b SIG0 SIG0, ?l False bs)
        (\<lambda>s. s = (busy h (stored x bs 0) (c + 3 + 1), sent_bus bus b SIG1 SIG0, ?l True bs))"
      using ty assms(6) u [of 3] by (simp add: bs)
    then show ?thesis by (rule reaches_mono) (auto simp: at_byte_def bs)
  qed
  have n: "(4::nat) = 1 + (1 + (1 + 1))" by simp
  show ?thesis unfolding n
    by (rule reaches_trans [OF 1], hypsubst, rule reaches_trans [OF 2], hypsubst,
        rule reaches_trans [OF 3], hypsubst, rule 4)
qed

lemma wait_reaches:
  assumes "h_op h = HostBulkIN" and "receiving x pid" and "x_stage x = NoXfer" and "x_rx_ptr x = 0" and "bs \<noteq> []"
  shows "unat c + w + 4 < unat (x_cycle x) \<Longrightarrow>
    reaches in_link data_over (w + 4) (busy h x c, bus_released bus, (w, link_start (pid # bs))) (at_byte h x bus bs 0)"
proof (induction w arbitrary: c)
  case 0
  then show ?case using head_reaches [OF assms, of c bus] by simp
next
  case (Suc w)
  have ty: "x_type x \<in> {UpDATA0, UpDATA1}" using assms(2) by (simp add: receiving_def)
  have "datax_recv_step x (bus_released bus) (bus_released bus) = Inr (0, x, bus_released bus)"
    using ty assms(3) by (auto simp: datax_recv_step_def bus_released_def intro!: bus_eqI)
  from early_clock [OF assms(1) ty _ this assms(4) _ in_link.simps(1), of c w "link_start (pid # bs)"]
  have 1: "reaches in_link data_over 1 (busy h x c, bus_released bus, (Suc w, link_start (pid # bs)))
      (\<lambda>s. s = (busy h x (c + 1), bus_released bus, (w, link_start (pid # bs))))"
    using Suc.prems by simp
  have "unat (c + 1) = unat c + 1"
    using cycle_unat [of c 1] Suc.prems unat_u32 [of "x_cycle x"] by simp
  then have "reaches in_link data_over (w + 4) (busy h x (c + 1), bus_released bus, (w, link_start (pid # bs))) (at_byte h x bus bs 0)"
    using Suc by simp
  then have "reaches in_link data_over (1 + (w + 4)) (busy h x c, bus_released bus, (Suc w, link_start (pid # bs))) (at_byte h x bus bs 0)"
    by (intro reaches_trans [OF 1]) simp
  then show ?case by simp
qed

subsection \<open>The token and the acknowledgement\<close>

text \<open>The clocks in which the host runs a step-function that a link listens to.\<close>

lemma turns_reach:
  assumes "h_op h = HostBulkIN"
    and step: "\<And>x b x' b' r c. \<lbrakk>Q x; u_rst_n b \<noteq> SIG0; f x b b = Inr (0, x', b')\<rbrakk> \<Longrightarrow>
      bulk_in_step r (busy h x c) b b = Inr (0, busy h x' c, b') \<and> Q x' \<and> u_rst_n b' \<noteq> SIG0"
    and stop: "\<And>x c. Q x \<Longrightarrow> \<not> stop (busy h x c)"
  shows "\<lbrakk>turns n f listen (x, b, b, u) = Some (x', b', b'', u'); Q x; u_rst_n b \<noteq> SIG0\<rbrakk> \<Longrightarrow>
    reaches listen stop n (busy h x c, b, u) (\<lambda>s. s = (busy h x' (c + of_nat n), b', u'))"
proof (induction n arbitrary: x b u c)
  case 0
  then show ?case by (intro reaches_refl) simp
next
  case (Suc n)
  from Suc.prems(1) obtain x1 b1 o1 u1 where t: "turn f listen (x, b, b, u) = Some (x1, b1, o1, u1)"
    and ts: "turns n f listen (x1, b1, o1, u1) = Some (x', b', b'', u')"
    by (auto simp: bind_eq_Some_conv)
  note l = turn_listen [OF t]
  note clock = step [OF Suc.prems(2,3) l(1)]
  have 1: "reaches listen stop 1 (busy h x c, b, u) (\<lambda>s. s = (busy h x1 (c + 1), b1, u1))"
  proof (rule reaches_clock)
    show "\<not> stop (busy h x c)" by (rule stop [OF Suc.prems(2)])
    show "\<exists>h1 out z v c'. usbh_step r (busy h x c) b = Inr (0, h1, out) \<and> listen u out out = Inr (z, v, c') \<and>
        (h1, c', v) = (busy h x1 (c + 1), b1, u1)" for r
      using clock [of r "c + 1"] in_clock [OF assms(1) Suc.prems(3), of r x c] l(3) by simp
  qed
  have "reaches listen stop n (busy h x1 (c + 1), b1, u1) (\<lambda>s. s = (busy h x' (c + 1 + of_nat n), b', u'))"
    by (rule Suc.IH) (use ts l(2) clock in simp_all)
  then have "reaches listen stop (1 + n) (busy h x c, b, u) (\<lambda>s. s = (busy h x' (c + 1 + of_nat n), b', u'))"
    by (intro reaches_trans [OF 1]) simp
  then show ?case by (simp add: add.assoc)
qed

lemma talk_end:
  assumes "reaches user stop n (h, b, u) (\<lambda>s. s = (h', b', u'))" and "n \<le> lives rs"
  obtains rs' where "host_talk user stop rs h b u = host_talk user stop rs' h' b' u'" and "lives rs - n \<le> lives rs'"
proof -
  obtain k h1 b1 u1 where k: "lives (take k rs) \<le> n" "(h1, b1, u1) = (h', b', u')"
      "host_talk user stop rs h b u = host_talk user stop (drop k rs) h1 b1 u1"
    by (rule reachesD [OF assms])
  have "lives rs - n \<le> lives (drop k rs)" using k(1) lives_split [of k rs] by simp
  then show thesis using k by (intro that) auto
qed

text \<open>The transfer after the token, at the cycle count \<open>c\<close>.\<close>

definition token_over :: "usb_host_t \<Rightarrow> bool" where
  "token_over h \<longleftrightarrow> x_type (h_xfer h) \<noteq> IN"

definition await_data :: "transfer_t \<Rightarrow> u64 \<Rightarrow> transfer_t" where
  "await_data x c = x\<lparr>x_type := (if x_ep_seq x ! unat (x_endpoint x) = SIG0 then UpDATA0 else UpDATA1),
     x_stage := NoXfer, x_cycle := ucast (c + TURNAROUND_TIMER)\<rparr>"

lemma token_reaches:
  assumes "h_op h = HostBulkIN" and x: "x_type x = IN" "x_stage x = NoXfer" "x_endpoint x < 16" "length (x_ep_seq x) = 16"
  shows "reaches listen token_over 9 (busy h x c, ulpi_bus_idle bus, u)
    (\<lambda>s. s = (busy h (await_data x (c + 9)) (c + 9), bus_released bus, u @ [0x69, x_tok1 x, x_tok2 x]))"
proof -
  let ?x = "x\<lparr>x_stage := LineIdle\<rparr>" and ?u = "u @ [0x69, x_tok1 x, x_tok2 x]"
  have ty: "x_type x \<in> {SETUP, OUT, IN, SOF}" using x(1) by simp
  have "transfer_type_to_pid x = 0x69" using x(1) by (simp add: transfer_type_to_pid_def xfer_order)
  then have t: "turns 8 token_send_step listen (x, ulpi_bus_idle bus, ulpi_bus_idle bus, u) =
      Some (?x, bus_released bus, bus_released bus, ?u)"
    using token_turns [OF ty x(2)] by simp
  have 1: "reaches listen token_over 8 (busy h x c, ulpi_bus_idle bus, u)
      (\<lambda>s. s = (busy h ?x (c + of_nat 8), bus_released bus, ?u))"
  proof (rule turns_reach [OF assms(1) _ _ t, where Q = "\<lambda>x. x_type x = IN"])
    show "bulk_in_step r (busy h y c) b b = Inr (0, busy h y' c, b') \<and> x_type y' = IN \<and> u_rst_n b' \<noteq> SIG0"
      if "x_type y = IN" "u_rst_n b \<noteq> SIG0" "token_send_step y b b = Inr (0, y', b')" for y b y' b' r c
      using that token_type [OF that(3)] token_keeps_rst [of b y] by (simp add: bulk_in_step_def)
  qed (use x(1) in \<open>simp_all add: token_over_def\<close>)
  have e: "unat (x_endpoint x) < 16" using x(3) by (simp add: word_less_nat_alt)
  have 2: "reaches listen token_over 1 (busy h ?x (c + 8), bus_released bus, ?u)
      (\<lambda>s. s = (busy h (await_data x (c + 9)) (c + 9), bus_released bus, ?u))"
  proof (rule reaches_clock)
    show "\<not> token_over (busy h ?x (c + 8))" using x(1) by (simp add: token_over_def)
    have "usbh_step r (busy h ?x (c + 8)) (bus_released bus) =
        Inr (0, busy h (await_data x (c + 9)) (c + 9), bus_released bus)" for r
      using token_last [of ?x bus "bus_released bus"] x e in_clock [OF assms(1), of "bus_released bus" r ?x "c + 8"]
      by (simp add: bulk_in_step_def aget_def await_data_def deadline_def xfer_order add.assoc flip: unat_eq_nat_uint)
    then show "\<exists>h1 out z v c'. usbh_step r (busy h ?x (c + 8)) (bus_released bus) = Inr (0, h1, out) \<and>
        listen ?u out out = Inr (z, v, c') \<and> (h1, c', v) = (busy h (await_data x (c + 9)) (c + 9), bus_released bus, ?u)" for r
      by (simp add: listen_released)
  qed
  have "reaches listen token_over (8 + 1) (busy h x c, ulpi_bus_idle bus, u)
    (\<lambda>s. s = (busy h (await_data x (c + 9)) (c + 9), bus_released bus, ?u))"
    using 2 by (intro reaches_trans [OF 1]) simp
  then show ?thesis by simp
qed

lemma ack_turns:
  assumes "x_type x = DnACK" and "x_stage x = NoXfer"
  shows "turns 6 ack_send_step listen (x, ulpi_bus_idle bus, ulpi_bus_idle bus, u) =
    Some (x\<lparr>x_stage := LineIdle\<rparr>, bus_released bus, bus_released bus, u @ [0xD2])"
  using assms by (auto simp: turns_numeral turn_def ack_send_step_def drive_eop_def listen_def
    ulpi_bus_is_idle_def transfer_type_to_pid_def xfer_order bus_released_def intro!: bus_eqI)

definition acked :: "transfer_t \<Rightarrow> transfer_t" where
  "acked x = x\<lparr>x_ep_seq := (x_ep_seq x)[unat (x_endpoint x) := toggle (x_ep_seq x ! unat (x_endpoint x))],
     x_type := XferIdle, x_stage := NoXfer\<rparr>"

lemma ack_talk:
  assumes "h_op h = HostBulkIN" and x: "x_type x = DnACK" "x_stage x = NoXfer" "x_endpoint x < 16" "length (x_ep_seq x) = 16"
    and "7 \<le> lives rs"
  shows "\<exists>c' rs'. host_talk listen (\<lambda>_. False) rs (busy h x c) (ulpi_bus_idle bus) u =
    Inr (1, busy h (acked x) c', bus_released bus, u @ [0xD2], rs')"
proof -
  let ?x = "x\<lparr>x_stage := LineIdle\<rparr>"
  have r: "reaches listen (\<lambda>_. False) 6 (busy h x c, ulpi_bus_idle bus, u)
      (\<lambda>s. s = (busy h ?x (c + of_nat 6), bus_released bus, u @ [0xD2]))"
  proof (rule turns_reach [OF assms(1) _ _ ack_turns [OF x(1,2)], where Q = "\<lambda>x. x_type x = DnACK"])
    show "bulk_in_step r (busy h y c) b b = Inr (0, busy h y' c, b') \<and> x_type y' = DnACK \<and> u_rst_n b' \<noteq> SIG0"
      if "x_type y = DnACK" "u_rst_n b \<noteq> SIG0" "ack_send_step y b b = Inr (0, y', b')" for y b y' b' r c
      using that by (auto simp: bulk_in_step_def ack_send_step_def drive_eop_def split: if_splits)
  qed (use x(1) in simp_all)
  have n: "6 \<le> lives rs" using assms(6) by simp
  obtain rs1 where 1: "host_talk listen (\<lambda>_. False) rs (busy h x c) (ulpi_bus_idle bus) u =
      host_talk listen (\<lambda>_. False) rs1 (busy h ?x (c + of_nat 6)) (bus_released bus) (u @ [0xD2])" "lives rs - 6 \<le> lives rs1"
    by (rule talk_end [OF r n])
  then obtain r rs' where rs: "rs1 = r # rs'" using assms(6) by (cases rs1) auto
  have e: "unat (x_endpoint x) < 16" using x(3) by (simp add: word_less_nat_alt)
  have "ack_send_step ?x (bus_released bus) (bus_released bus) =
      Inr (1, x\<lparr>x_type := XferIdle, x_stage := NoXfer\<rparr>, bus_released bus)"
    using x(1) by (simp add: ack_send_step_def drive_eop_def bus_released_def)
  then have "usbh_step r (busy h ?x (c + of_nat 6)) (bus_released bus) = Inr (1, busy h (acked x) (c + of_nat 6 + 1), bus_released bus)"
    using x e in_clock [OF assms(1), of "bus_released bus" r ?x "c + of_nat 6"]
    by (simp add: bulk_in_step_def transfer_ack_def aget_def aput_def Let_def acked_def toggle_def flip: unat_eq_nat_uint)
  then show ?thesis unfolding 1(1) rs
    by (intro exI [of _ "c + of_nat 6 + 1"] exI [of _ rs']) (simp add: listen_released)
qed

subsection \<open>The data stage as a whole\<close>

lemma upto_stop:
  assumes "h_op h = HostBulkIN" and "receiving x pid" and "x_stage x = NoXfer" and "x_rx_ptr x = 0"
    and "length ps + 2 \<le> length (x_rx x)" and "unat c + w + 4 < unat (x_cycle x)"
  shows "reaches in_link data_over (w + 4 + (length ps + 2))
    (busy h x c, bus_released bus, (w, link_start (pid # ps @ [c1, c2]))) (at_stop h x bus (ps @ [c1, c2]))"
proof (rule reaches_trans)
  show "reaches in_link data_over (w + 4) (busy h x c, bus_released bus, (w, link_start (pid # ps @ [c1, c2])))
      (at_byte h x bus (ps @ [c1, c2]) 0)"
    using wait_reaches [OF assms(1-4) _ assms(6), of "ps @ [c1, c2]"] by simp
  have ty: "x_type x \<in> {UpDATA0, UpDATA1}" using assms(2) by (simp add: receiving_def)
  show "reaches in_link data_over (length ps + 2) s (at_stop h x bus (ps @ [c1, c2]))"
    if "at_byte h x bus (ps @ [c1, c2]) 0 s" for s
    using bytes_reach [OF assms(1) ty, of "ps @ [c1, c2]" 0 "length ps + 1" bus s] assms(5) that by simp
qed

lemma data_talk_ok:
  assumes "h_op h = HostBulkIN" and "receiving x pid" and "x_stage x = NoXfer" and "x_rx_ptr x = 0"
    and "length ps + 2 \<le> length (x_rx x)" and "unat c + w + 4 < unat (x_cycle x)"
    and "crc_right ps c1 c2" and "length ps + w + 11 \<le> lives rs"
  shows "\<exists>c' rs'. host_talk in_link data_over rs (busy h x c) (bus_released bus) (w, link_start (pid # ps @ [c1, c2])) =
    Inr (0, busy h ((received x ps c1 c2)\<lparr>x_type := DnACK, x_stage := NoXfer\<rparr>) c', ulpi_bus_idle bus, sent_all, rs') \<and>
    lives rs \<le> lives rs' + (length ps + w + 11)"
proof -
  let ?s = "(busy h x c, bus_released bus, (w, link_start (pid # ps @ [c1, c2])))"
  let ?y = "received x ps c1 c2"
  let ?P = "in_state h (?y\<lparr>x_type := DnACK, x_stage := NoXfer\<rparr>) (sent_bus bus 0 SIG0 SIG0) sent_all"
  have 1: "reaches in_link data_over (w + 4 + (length ps + 2) + 1) ?s (in_state h ?y (turned bus 0x00 0xFF) sent_all)"
    by (rule reaches_trans [OF upto_stop [OF assms(1-6), of bus c1 c2]])
      (rule stop_reaches [OF assms(1,2,5) refl assms(7)])
  have "x_type ?y \<in> {UpDATA0, UpDATA1}" using assms(2) by (simp add: receiving_def)
  then have "reaches in_link data_over (w + 4 + (length ps + 2) + 1 + 4) ?s ?P"
    by (intro reaches_trans [OF 1]) (rule eop_reaches [OF assms(1)], simp_all)
  moreover have n: "w + 4 + (length ps + 2) + 1 + 4 = length ps + w + 11" by simp
  ultimately have r: "reaches in_link data_over (length ps + w + 11) ?s ?P" by (simp only: n)
  obtain k h' b' u' where k: "lives (take k rs) \<le> length ps + w + 11" "?P (h', b', u')"
      "host_talk in_link data_over rs (busy h x c) (bus_released bus) (w, link_start (pid # ps @ [c1, c2])) =
        host_talk in_link data_over (drop k rs) h' b' u'"
    by (rule reachesD [OF r assms(8)])
  obtain c' where c': "h' = busy h (?y\<lparr>x_type := DnACK, x_stage := NoXfer\<rparr>) c'" "b' = sent_bus bus 0 SIG0 SIG0" "u' = sent_all"
    using k(2) by (auto simp: in_state_def)
  have b: "sent_bus bus 0 SIG0 SIG0 = ulpi_bus_idle bus" by (rule bus_eqI) simp_all
  have "data_over h'" by (simp add: c' data_over_def)
  from host_talk_stop [where stop = data_over, OF this] show ?thesis
    using k(1) lives_split [of k rs] unfolding k(3) c' b by (intro exI [of _ c'] exI [of _ "drop k rs"]) simp
qed

lemma data_talk_bad:
  assumes "h_op h = HostBulkIN" and "receiving x pid" and "x_stage x = NoXfer" and "x_rx_ptr x = 0"
    and "length ps + 2 \<le> length (x_rx x)" and "unat c + w + 4 < unat (x_cycle x)"
    and "\<not> crc_right ps c1 c2" and "length ps + w + 7 \<le> lives rs"
  shows "\<exists>c' b' u' rs'. host_talk in_link data_over rs (busy h x c) (bus_released bus) (w, link_start (pid # ps @ [c1, c2])) =
    Inr (-1, busy h (received x ps c1 c2) c', b', u', rs')"
proof -
  have n: "w + 4 + (length ps + 2) \<le> lives rs" using assms(8) by simp
  obtain k h' b' u' where k: "lives (take k rs) \<le> w + 4 + (length ps + 2)" "at_stop h x bus (ps @ [c1, c2]) (h', b', u')"
      "host_talk in_link data_over rs (busy h x c) (bus_released bus) (w, link_start (pid # ps @ [c1, c2])) =
        host_talk in_link data_over (drop k rs) h' b' u'"
    by (rule reachesD [OF upto_stop [OF assms(1-6), of bus c1 c2] n])
  obtain d m where m: "m \<in> {SIG0, SIG1}" and s: "h' = busy h (stored x (ps @ [c1, c2]) (length (ps @ [c1, c2]))) d"
      "b' = sent_bus bus 0 m SIG1" "u' = (0, \<lparr>l_nxt = (m = SIG1), l_bytes = [], l_stopped = True\<rparr>)"
    using k(2) by (auto simp: at_stop_def simp del: length_append)
  let ?x = "stored x (ps @ [c1, c2]) (length (ps @ [c1, c2]))"
  let ?out = "set_b 0xFF ((sent_bus bus 0 SIG0 SIG1)\<lparr>u_dir := SIG1\<rparr>)"
  have "lives (drop k rs) \<noteq> 0" using k(1) lives_split [of k rs] assms(8) by simp
  then obtain r rs' where rs: "drop k rs = r # rs'" by (cases "drop k rs") auto
  have ty: "x_type x \<in> {UpDATA0, UpDATA1}" using assms(2) by (simp add: receiving_def)
  have "usbh_step r h' b' = Inr (-1, busy h (received x ps c1 c2) (d + 1), ?out)"
    using stop_step [OF assms(2,5) refl m, of c1 c2 bus] assms(7) ty in_clock [OF assms(1), of b' r ?x d]
    unfolding s by (auto simp: bulk_in_step_def bulk_in_data_def simp del: length_append)
  moreover have "\<exists>z u2 b2. in_link u' ?out ?out = Inr (z, u2, b2)" unfolding s by (auto simp: link_send_def Let_def)
  moreover have "\<not> data_over h'" using ty unfolding s by (auto simp: data_over_def)
  ultimately show ?thesis unfolding k(3) rs by fastforce
qed

subsection \<open>The transaction\<close>

text \<open>
  One transaction for end-point \<open>ep\<close>: \<open>tc_bulkin_xfer\<close> queues it, a link listens to the token,
  answers \<open>w\<close> clocks after it with the packet \<open>pkt\<close>, and listens to the handshake. The last result,
  the host and the bytes the link heard are returned.
\<close>

definition in_transaction :: "nat \<Rightarrow> u8 list \<Rightarrow> u32 list \<Rightarrow> u8 \<Rightarrow> usb_host_t \<Rightarrow> (int \<times> usb_host_t \<times> u8 list) outcome" where
  "in_transaction w pkt rs ep host =
     bind_c (host_talk listen token_over rs (tc_bulkin_xfer host ep) (ulpi_bus_idle bus_zero) []) (\<lambda>(r, host, bus, u, rs).
     if r \<noteq> 0 then Inr (r, host, u)
     else bind_c (host_talk in_link data_over rs host bus (w, link_start pkt)) (\<lambda>(r, host, bus, _, rs).
     if r \<noteq> 0 then Inr (r, host, u)
     else bind_c (host_talk listen (\<lambda>_. False) rs host bus u) (\<lambda>(r, host, _, u, _). Inr (r, host, u))))"

definition in_pid :: "bit_t \<Rightarrow> u8" where
  "in_pid t = (if t = SIG0 then ULPITX_DATA0 else ULPITX_DATA1)"

text \<open>What the link hears before the handshake: an IN token with a right CRC.\<close>

definition in_token :: "u8 \<Rightarrow> u8 \<Rightarrow> u8 list \<Rightarrow> bool" where
  "in_token addr ep u \<longleftrightarrow> (\<exists>t1 t2. u = [0x69, t1, t2] \<and> crc5_check (token_word t1 t2) \<and>
     token_word t1 t2 AND 0x07FF = token_payload addr ep)"

lemma bulkin_queued:
  assumes "toggling ep h"
  obtains x where "tc_bulkin_xfer h ep = busy (h\<lparr>h_op := HostBulkIN\<rparr>) x (h_cycle h)" and "x_type x = IN"
    and "x_stage x = NoXfer" and "x_endpoint x = ep" and "x_rx_ptr x = 0" and "x_ep_seq x = x_ep_seq (h_xfer h)"
    and "arrays_ok x" and "in_token (h_addr h) ep [0x69, x_tok1 x, x_tok2 x]"
proof
  let ?x = "h_xfer (tc_bulkin_xfer h ep)"
  show "tc_bulkin_xfer h ep = busy (h\<lparr>h_op := HostBulkIN\<rparr>) ?x (h_cycle h)"
    by (simp add: tc_bulkin_xfer_def start_bulk_def busy_def with_xfer_def Let_def)
  show "in_token (h_addr h) ep [0x69, x_tok1 ?x, x_tok2 ?x]"
    using token_word_ready by (simp add: in_token_def tc_bulkin_xfer_def start_bulk_def with_xfer_def Let_def)
qed (use assms in \<open>simp_all add: tc_bulkin_xfer_def start_bulk_def with_xfer_def Let_def toggling_def arrays_ok_def\<close>)

lemma await_data_receiving:
  assumes "x_endpoint x < 16" and "x_ep_seq x ! unat (x_endpoint x) \<in> {SIG0, SIG1}"
  shows "receiving (await_data x c) (in_pid (x_ep_seq x ! unat (x_endpoint x)))"
  using assms low_nibble [OF assms(1)]
  by (auto simp: receiving_def await_data_def in_pid_def check_seq_def)


text \<open>The transaction up to the host's wait for the packet.\<close>

lemma in_transaction_token:
  assumes "toggling ep h" and "9 \<le> lives rs" and "unat (h_cycle h) + 49 < 2 ^ 32"
  obtains x rs' u where "x_ep_seq x = x_ep_seq (h_xfer h)" and "arrays_ok x" and "x_rx_ptr x = 0" and "x_endpoint x = ep"
    and "x_stage x = NoXfer" and "receiving x (in_pid (toggle_of ep h))" and "lives rs - 9 \<le> lives rs'"
    and "unat (x_cycle x) = unat (h_cycle h) + 49" and "in_token (h_addr h) ep u" and "length u = 3"
    and "in_transaction w pkt rs ep h =
      bind_c (host_talk in_link data_over rs' (busy (h\<lparr>h_op := HostBulkIN\<rparr>) x (h_cycle h + 9)) (bus_released bus_zero) (w, link_start pkt))
        (\<lambda>(r, host, bus, _, rs). if r \<noteq> 0 then Inr (r, host, u)
         else bind_c (host_talk listen (\<lambda>_. False) rs host bus u) (\<lambda>(r, host, _, u, _). Inr (r, host, u)))"
proof -
  let ?g = "h\<lparr>h_op := HostBulkIN\<rparr>" and ?c = "h_cycle h + 9"
  obtain y where q: "tc_bulkin_xfer h ep = busy ?g y (h_cycle h)" and y: "x_type y = IN" "x_stage y = NoXfer"
      "x_endpoint y = ep" "x_rx_ptr y = 0" "x_ep_seq y = x_ep_seq (h_xfer h)" "arrays_ok y"
    and t: "in_token (h_addr h) ep [0x69, x_tok1 y, x_tok2 y]"
    by (rule bulkin_queued [OF assms(1)])
  let ?x = "await_data y ?c" and ?u = "[0x69, x_tok1 y, x_tok2 y]"
  have e: "ep < 16" and s: "toggle_of ep h \<in> {SIG0, SIG1}" using assms(1) by (simp_all add: toggling_def)
  have "reaches listen token_over 9 (busy ?g y (h_cycle h), ulpi_bus_idle bus_zero, [])
      (\<lambda>s. s = (busy ?g ?x ?c, bus_released bus_zero, [] @ ?u))"
    by (rule token_reaches) (use y e in \<open>simp_all add: arrays_ok_def\<close>)
  then obtain rs' where r: "host_talk listen token_over rs (busy ?g y (h_cycle h)) (ulpi_bus_idle bus_zero) [] =
      host_talk listen token_over rs' (busy ?g ?x ?c) (bus_released bus_zero) ([] @ ?u)" "lives rs - 9 \<le> lives rs'"
    by (rule talk_end [OF _ assms(2)])
  have "token_over (busy ?g ?x ?c)" by (simp add: token_over_def await_data_def)
  note over = host_talk_stop [where stop = token_over, OF this]
  have "unat ?c = unat (h_cycle h) + 9" using cycle_unat [of "h_cycle h" 9] assms(3) by simp
  then have d: "unat (x_cycle ?x) = unat (h_cycle h) + 49"
    using deadline_unat [of ?c] assms(3) by (simp add: await_data_def)
  show thesis
  proof (rule that [of ?x rs' ?u])
    show "receiving ?x (in_pid (toggle_of ep h))" using await_data_receiving [of y ?c] y e s by simp
    show "in_transaction w pkt rs ep h =
      bind_c (host_talk in_link data_over rs' (busy ?g ?x ?c) (bus_released bus_zero) (w, link_start pkt))
        (\<lambda>(r, host, bus, _, rs). if r \<noteq> 0 then Inr (r, host, ?u)
         else bind_c (host_talk listen (\<lambda>_. False) rs host bus ?u) (\<lambda>(r, host, _, u, _). Inr (r, host, u)))"
      unfolding in_transaction_def q r(1) over by simp
  qed (use y r(2) d t in \<open>simp_all add: await_data_def arrays_ok_def\<close>)
qed

text \<open>The transaction of a packet that comes in time.\<close>

lemma in_answered:
  assumes "toggling ep h" and "length ps \<le> 510" and "w \<le> 35" and "unat (h_cycle h) + 49 < 2 ^ 32"
    and "length ps + w + 27 \<le> lives rs"
  obtains x c u where "x_ep_seq x = x_ep_seq (h_xfer h)" and "arrays_ok x" and "x_endpoint x = ep"
    and "in_token (h_addr h) ep u"
    and "in_transaction w (in_pid (toggle_of ep h) # ps @ [c1, c2]) rs ep h = Inr
      (if crc_right ps c1 c2
       then (1, busy (h\<lparr>h_op := HostBulkIN\<rparr>) (acked ((received x ps c1 c2)\<lparr>x_type := DnACK, x_stage := NoXfer\<rparr>)) c, u @ [0xD2])
       else (-1, busy (h\<lparr>h_op := HostBulkIN\<rparr>) (received x ps c1 c2) c, u))"
proof -
  let ?g = "h\<lparr>h_op := HostBulkIN\<rparr>" and ?c = "h_cycle h + 9" and ?pkt = "in_pid (toggle_of ep h) # ps @ [c1, c2]"
  have n: "9 \<le> lives rs" using assms(5) by simp
  obtain x rs1 u where x: "x_ep_seq x = x_ep_seq (h_xfer h)" "arrays_ok x" "x_rx_ptr x = 0" "x_endpoint x = ep"
      "x_stage x = NoXfer" "receiving x (in_pid (toggle_of ep h))"
    and l: "lives rs - 9 \<le> lives rs1" and d: "unat (x_cycle x) = unat (h_cycle h) + 49"
    and u: "in_token (h_addr h) ep u" "length u = 3"
    and run: "in_transaction w ?pkt rs ep h =
      bind_c (host_talk in_link data_over rs1 (busy ?g x ?c) (bus_released bus_zero) (w, link_start ?pkt))
        (\<lambda>(r, host, bus, _, rs). if r \<noteq> 0 then Inr (r, host, u)
         else bind_c (host_talk listen (\<lambda>_. False) rs host bus u) (\<lambda>(r, host, _, u, _). Inr (r, host, u)))"
    by (rule in_transaction_token [OF assms(1) n assms(4)])
  have op: "h_op ?g = HostBulkIN" by simp
  have room: "length ps + 2 \<le> length (x_rx x)" using x(2) assms(2) by (simp add: arrays_ok_def)
  have time: "unat ?c + w + 4 < unat (x_cycle x)"
    using cycle_unat [of "h_cycle h" 9] d assms(3,4) by simp
  note data = op x(6,5,3) room time
  show thesis
  proof (cases "crc_right ps c1 c2")
    case True
    let ?y = "(received x ps c1 c2)\<lparr>x_type := DnACK, x_stage := NoXfer\<rparr>"
    have n: "length ps + w + 11 \<le> lives rs1" using l assms(5) by simp
    obtain c' rs2 where 1: "host_talk in_link data_over rs1 (busy ?g x ?c) (bus_released bus_zero) (w, link_start ?pkt) =
        Inr (0, busy ?g ?y c', ulpi_bus_idle bus_zero, sent_all, rs2)" and l2: "lives rs1 \<le> lives rs2 + (length ps + w + 11)"
      using data_talk_ok [OF data True n, of bus_zero] by blast
    have n2: "7 \<le> lives rs2" using l l2 assms(5) by simp
    have e: "x_endpoint ?y < 16" "length (x_ep_seq ?y) = 16"
      using assms(1) x(1,4) by (simp_all add: received_def Let_def toggling_def arrays_ok_def)
    obtain c'' rs3 where 2: "host_talk listen (\<lambda>_. False) rs2 (busy ?g ?y c') (ulpi_bus_idle bus_zero) u =
        Inr (1, busy ?g (acked ?y) c'', bus_released bus_zero, u @ [0xD2], rs3)"
      using ack_talk [OF op _ _ e n2] by fastforce
    show ?thesis by (rule that [OF x(1,2,4) u(1), of c'']) (use True 1 2 in \<open>simp add: run\<close>)
  next
    case False
    have n: "length ps + w + 7 \<le> lives rs1" using l assms(5) by simp
    obtain c' b' u' rs2 where 1: "host_talk in_link data_over rs1 (busy ?g x ?c) (bus_released bus_zero) (w, link_start ?pkt) =
        Inr (-1, busy ?g (received x ps c1 c2) c', b', u', rs2)"
      using data_talk_bad [OF data False n, of bus_zero] by blast
    show ?thesis by (rule that [OF x(1,2,4) u(1), of c']) (use False 1 in \<open>simp add: run\<close>)
  qed
qed

lemma acked_simps [simp]:
  "x_rx_len (acked x) = x_rx_len x" "x_rx (acked x) = x_rx x"
  "x_ep_seq (acked x) = (x_ep_seq x)[unat (x_endpoint x) := toggle (x_ep_seq x ! unat (x_endpoint x))]"
  by (simp_all add: acked_def)

text \<open>
  (C14) A whole bulk IN transaction, of a packet of at most 510 bytes that the link starts to send at
  most 35 clocks after the token and whose PID has the toggle the host expects, whatever pauses the host
  makes. The link hears an IN token with a right CRC for the host's address and the end-point. When the
  CRC of the packet is right the bytes are in the receive buffer, with their number, the host sends an
  ACK, it flips the toggle of this end-point and no other, and the last step returns 1. When it is not,
  the step returns -1 with the toggle unchanged, and the link hears no handshake.
\<close>

theorem bulk_in_transaction:
  assumes "toggling ep h" and "length ps \<le> 510" and "w \<le> 35" and "unat (h_cycle h) + 49 < 2 ^ 32"
    and "length ps + w + 27 \<le> lives rs"
  shows "\<exists>h' u. let ok = (c1 = lo8 (crc16_calc ps (length ps)) \<and> c2 = hi8 (crc16_calc ps (length ps))) in
    in_transaction w (in_pid (toggle_of ep h) # ps @ [c1, c2]) rs ep h =
      Inr (if ok then 1 else -1, h', u @ (if ok then [0xD2] else [])) \<and>
    in_token (h_addr h) ep u \<and> x_rx_len (h_xfer h') = int (length ps) \<and> take (length ps) (x_rx (h_xfer h')) = ps \<and>
    x_ep_seq (h_xfer h') = (if ok then (x_ep_seq (h_xfer h))[unat ep := toggle (toggle_of ep h)] else x_ep_seq (h_xfer h))"
proof -
  let ?g = "h\<lparr>h_op := HostBulkIN\<rparr>"
  obtain x c u where x: "x_ep_seq x = x_ep_seq (h_xfer h)" "x_endpoint x = ep" "in_token (h_addr h) ep u"
    and run: "in_transaction w (in_pid (toggle_of ep h) # ps @ [c1, c2]) rs ep h = Inr
      (if crc_right ps c1 c2 then (1, busy ?g (acked ((received x ps c1 c2)\<lparr>x_type := DnACK, x_stage := NoXfer\<rparr>)) c, u @ [0xD2])
       else (-1, busy ?g (received x ps c1 c2) c, u))"
    by (rule in_answered [OF assms])
  let ?h = "busy ?g (if crc_right ps c1 c2 then acked ((received x ps c1 c2)\<lparr>x_type := DnACK, x_stage := NoXfer\<rparr>)
    else received x ps c1 c2) c"
  show ?thesis
    unfolding crc_right_def [symmetric] Let_def
    by (intro exI [of _ ?h] exI [of _ u]) (use x run in \<open>cases "crc_right ps c1 c2"; simp\<close>)
qed

lemma bulk_in_transaction_witness:
  "\<exists>h' u. in_transaction 3 [0x43, 0x12, 0x01, 0x33, 0x2F] (replicate 32 0) 2 (usbh_init 0 undefined) = Inr (1, h', u @ [0xD2]) \<and>
     take 2 (x_rx (h_xfer h')) = [0x12, 0x01]"
proof -
  have l: "lives (replicate n 0) = n" for n by (simp add: lives_def live_def)
  have crc: "crc16_calc [0x12, 0x01] (Suc (Suc 0)) = 0x2F33"
    by (simp add: crc16_calc_def crc16_byte_def funpow_numeral crc16_bit_def)
  have t: "x_ep_seq (h_xfer (usbh_init 0 undefined)) ! 2 = SIG0" "h_cycle (usbh_init 0 undefined) = 0"
    by (simp_all add: usbh_init_def usbh_reset_def xfer_zero_def)
  have "\<exists>h' u. let ok = (0x33 = lo8 (crc16_calc [0x12, 0x01] (length [0x12, 0x01 :: u8])) \<and>
        0x2F = hi8 (crc16_calc [0x12, 0x01] (length [0x12, 0x01 :: u8]))) in
      in_transaction 3 (in_pid (toggle_of 2 (usbh_init 0 undefined)) # [0x12, 0x01] @ [0x33, 0x2F]) (replicate 32 0) 2 (usbh_init 0 undefined) =
        Inr (if ok then 1 else -1, h', u @ (if ok then [0xD2] else [])) \<and>
      in_token (h_addr (usbh_init 0 undefined)) 2 u \<and> x_rx_len (h_xfer h') = int (length [0x12, 0x01 :: u8]) \<and>
      take (length [0x12, 0x01 :: u8]) (x_rx (h_xfer h')) = [0x12, 0x01] \<and>
      x_ep_seq (h_xfer h') = (if ok then (x_ep_seq (h_xfer (usbh_init 0 undefined)))[unat (2 :: u8) := toggle (toggle_of 2 (usbh_init 0 undefined))]
        else x_ep_seq (h_xfer (usbh_init 0 undefined)))"
    by (rule bulk_in_transaction [OF toggling_init]) (simp_all add: l t(2))
  moreover have "(0x33 = lo8 (crc16_calc [0x12, 0x01] (length [0x12, 0x01 :: u8])) \<and>
      0x2F = hi8 (crc16_calc [0x12, 0x01] (length [0x12, 0x01 :: u8]))) = True"
    by (simp add: crc lo8_def hi8_def)
  moreover have "in_pid (toggle_of 2 (usbh_init 0 undefined)) = 0x43" by (simp add: in_pid_def t(1))
  moreover have "length [0x12, 0x01 :: u8] = 2" by simp
  ultimately show ?thesis by (simp only: Let_def append.simps if_True) blast
qed

end
