(* ===== verification/Bulk_Stream.thy ===== *)
theory Bulk_Stream
  imports Bulk_In
begin

text \<open>
  Sequences of bulk IN transactions of \<open>src/vpi/usb/usbhost.c\<close> against a device with a data toggle
  of its own: what the host takes is what the device sent, each packet once and in order.
\<close>

subsection \<open>A device that does not answer\<close>

lemma silent_wait:
  assumes "h_op h = HostBulkIN" and "x_type x \<in> {UpDATA0, UpDATA1}" and "x_stage x = NoXfer" and "x_rx_ptr x = 0"
  shows "unat c + k < unat (x_cycle x) \<Longrightarrow> reaches in_link data_over k
    (busy h x c, bus_released bus, (w + k, l)) (\<lambda>s. s = (busy h x (c + of_nat k), bus_released bus, (w, l)))"
proof (induction k arbitrary: c)
  case 0
  then show ?case by (intro reaches_refl) simp
next
  case (Suc k)
  have "datax_recv_step x (bus_released bus) (bus_released bus) = Inr (0, x, bus_released bus)"
    using assms(2,3) by (auto simp: datax_recv_step_def bus_released_def intro!: bus_eqI)
  from early_clock [OF assms(1,2) _ this assms(4) _ in_link.simps(1), of c "w + k" l]
  have 1: "reaches in_link data_over 1 (busy h x c, bus_released bus, (w + Suc k, l))
      (\<lambda>s. s = (busy h x (c + 1), bus_released bus, (w + k, l)))"
    using Suc.prems by simp
  have "unat (c + 1) = unat c + 1"
    using cycle_unat [of c 1] Suc.prems unat_u32 [of "x_cycle x"] by simp
  then have "reaches in_link data_over k (busy h x (c + 1), bus_released bus, (w + k, l))
      (\<lambda>s. s = (busy h x (c + of_nat (Suc k)), bus_released bus, (w, l)))"
    using Suc.IH [of "c + 1"] Suc.prems by (simp add: add.assoc)
  then have "reaches in_link data_over (1 + k) (busy h x c, bus_released bus, (w + Suc k, l))
      (\<lambda>s. s = (busy h x (c + of_nat (Suc k)), bus_released bus, (w, l)))"
    by (intro reaches_trans [OF 1]) simp
  then show ?case by simp
qed

text \<open>The clock at the deadline, and the one after it.\<close>

lemma silent_last:
  assumes "h_op h = HostBulkIN" and "x_type x \<in> {UpDATA0, UpDATA1}" and "x_stage x = NoXfer" and "x_rx_ptr x = 0"
    and "unat c + 1 = unat (x_cycle x)"
  shows "usbh_step r (busy h x c) (bus_released bus) = Inr (0, busy h (x\<lparr>x_type := TimeOut\<rparr>) (c + 1), bus_released bus)"
proof -
  have "datax_recv_step x (bus_released bus) (bus_released bus) = Inr (0, x, bus_released bus)"
    using assms(2,3) by (auto simp: datax_recv_step_def bus_released_def intro!: bus_eqI)
  moreover have "timed_out (busy h x (c + 1)) x"
    using assms(5) cycle_unat [of c 1] unat_u32 [of "x_cycle x"] by (simp add: timed_out_def word_le_nat_alt unat_ucast_deadline)
  ultimately show ?thesis
    using assms(2,4) in_clock [OF assms(1), of "bus_released bus" r x c] by (auto simp: bulk_in_step_def bulk_in_data_def)
qed

lemma silent_over:
  assumes "h_op h = HostBulkIN" and "x_type x = TimeOut" and "unat (x_cycle x) \<le> unat c" and "unat c + 1 < 2 ^ 32"
  shows "usbh_step r (busy h x c) (bus_released bus) =
    Inr (1, busy h (x\<lparr>x_type := XferIdle, x_stage := NoXfer\<rparr>) (c + 1), bus_released bus)"
proof -
  have "timed_out (busy h x (c + 1)) x"
    using assms(3,4) cycle_unat [of c 1] by (simp add: timed_out_def word_le_nat_alt unat_ucast_deadline)
  then show ?thesis
    using assms(2) in_clock [OF assms(1), of "bus_released bus" r x c] by (simp add: bulk_in_step_def bulk_in_timeout_def Let_def)
qed

lemma in_unanswered:
  assumes "toggling ep h" and "40 \<le> w" and "unat (h_cycle h) + 50 < 2 ^ 32" and "50 \<le> lives rs"
  obtains x c u where "x_ep_seq x = x_ep_seq (h_xfer h)" and "arrays_ok x" and "in_token (h_addr h) ep u"
    and "in_transaction w pkt rs ep h = Inr (1, busy (h\<lparr>h_op := HostBulkIN\<rparr>) x c, u)"
proof -
  let ?g = "h\<lparr>h_op := HostBulkIN\<rparr>" and ?c = "h_cycle h + 9" and ?l = "link_start pkt"
  have n: "9 \<le> lives rs" "unat (h_cycle h) + 49 < 2 ^ 32" using assms(3,4) by simp_all
  obtain x rs1 u where x: "x_ep_seq x = x_ep_seq (h_xfer h)" "arrays_ok x" "x_rx_ptr x = 0" "x_endpoint x = ep"
      "x_stage x = NoXfer" "receiving x (in_pid (toggle_of ep h))"
    and l: "lives rs - 9 \<le> lives rs1" and d: "unat (x_cycle x) = unat (h_cycle h) + 49"
    and u: "in_token (h_addr h) ep u" "length u = 3"
    and run: "in_transaction w pkt rs ep h =
      bind_c (host_talk in_link data_over rs1 (busy ?g x ?c) (bus_released bus_zero) (w, ?l))
        (\<lambda>(r, host, bus, _, rs). if r \<noteq> 0 then Inr (r, host, u)
         else bind_c (host_talk listen (\<lambda>_. False) rs host bus u) (\<lambda>(r, host, _, u, _). Inr (r, host, u)))"
    by (rule in_transaction_token [OF assms(1) n])
  have op: "h_op ?g = HostBulkIN" by simp
  have ty: "x_type x \<in> {UpDATA0, UpDATA1}" using x(6) by (simp add: receiving_def)
  let ?t = "x\<lparr>x_type := TimeOut\<rparr>"
  have c: "unat ?c = unat (h_cycle h) + 9" using cycle_unat [of "h_cycle h" 9] n(2) by simp
  define e where "e = ?c + of_nat 39"
  have e: "unat e = unat (h_cycle h) + 48" using cycle_unat [of ?c 39] c n(2) by (simp add: e_def)
  then have e': "unat (e + 1) = unat (h_cycle h) + 49" using cycle_unat [of e 1] assms(3) by simp
  define v where "v = w - 40"
  then have v: "w = Suc v + 39" using assms(2) by simp
  have r: "reaches in_link data_over 39 (busy ?g x ?c, bus_released bus_zero, (w, ?l))
      (\<lambda>s. s = (busy ?g x e, bus_released bus_zero, (Suc v, ?l)))"
    unfolding v e_def by (rule silent_wait [OF op ty x(5,3)]) (use c d in simp)
  have m: "39 \<le> lives rs1" using l assms(4) by simp
  obtain rs2 where 1: "host_talk in_link data_over rs1 (busy ?g x ?c) (bus_released bus_zero) (w, ?l) =
      host_talk in_link data_over rs2 (busy ?g x e) (bus_released bus_zero) (Suc v, ?l)" "lives rs1 - 39 \<le> lives rs2"
    by (rule talk_end [OF r m])
  have "2 \<le> lives rs2" using 1(2) l assms(4) by simp
  moreover have "lives rs2 \<le> length rs2" by (simp add: lives_def)
  ultimately have "2 \<le> length rs2" by simp
  then obtain r1 r2 rs3 where rs: "rs2 = r1 # r2 # rs3" by (cases rs2; cases "tl rs2") auto
  have over: "data_over (busy ?g ?t a)" for a by (simp add: data_over_def)
  have "\<not> data_over (busy ?g x e)" using ty by (auto simp: data_over_def)
  then have 2: "host_talk in_link data_over rs2 (busy ?g x e) (bus_released bus_zero) (Suc v, ?l) =
      Inr (0, busy ?g ?t (e + 1), bus_released bus_zero, (v, ?l), r2 # rs3)"
    using silent_last [OF op ty x(5,3), of e r1 bus_zero] e d unfolding rs by (simp add: over)
  have 3: "host_talk listen (\<lambda>_. False) (r2 # rs3) (busy ?g ?t (e + 1)) (bus_released bus_zero) u =
      Inr (1, busy ?g (?t\<lparr>x_type := XferIdle, x_stage := NoXfer\<rparr>) (e + 1 + 1), bus_released bus_zero, u, rs3)"
    using silent_over [OF op, of ?t "e + 1" r2 bus_zero] e' d assms(3) by (simp add: listen_released)
  show ?thesis
    by (rule that [of "?t\<lparr>x_type := XferIdle, x_stage := NoXfer\<rparr>" u "e + 1 + 1"])
      (use x u 1(1) 2 3 in \<open>simp_all add: run arrays_ok_def del: host_talk.simps\<close>)
qed

subsection \<open>The clocks of a transaction\<close>

lemma talk_cycle:
  "host_talk user stop rs h b u = Inr (r, h', b', u', rs') \<Longrightarrow>
    \<exists>k. length rs = k + length rs' \<and> h_cycle h' = h_cycle h + of_nat k"
proof (induction rs arbitrary: h b u)
  case Nil
  then show ?case by simp
next
  case (Cons r0 rs)
  show ?case
  proof (cases "stop h")
    case True
    then show ?thesis using Cons.prems by (intro exI [of _ 0]) simp
  next
    case False
    with Cons.prems obtain r1 h1 out z u1 b1 where st: "usbh_step r0 h b = Inr (r1, h1, out)" "user u out out = Inr (z, u1, b1)"
        and go: "(if r1 \<noteq> 0 then Inr (r1, h1, b1, u1, rs) else host_talk user stop rs h1 b1 u1) = Inr (r, h', b', u', rs')"
      by (auto simp: bind_c_eq_Inr)
    have c: "h_cycle h1 = h_cycle h + 1"
      using clock_frame [of h r0 b] st(1) by (simp add: clock_post_def)
    show ?thesis
    proof (cases "r1 = 0")
      case True
      with go Cons.IH [of h1 b1 u1] obtain k where "length rs = k + length rs'" "h_cycle h' = h_cycle h1 + of_nat k" by auto
      then show ?thesis using c by (intro exI [of _ "Suc k"]) (simp add: add.assoc)
    next
      case False
      then show ?thesis using go c by (intro exI [of _ 1]) auto
    qed
  qed
qed

lemma transaction_cycle:
  assumes "in_transaction w pkt rs ep h = Inr (r, h', u)"
  obtains k where "k \<le> length rs" and "h_cycle h' = h_cycle h + of_nat k"
proof -
  let ?g = "tc_bulkin_xfer h ep"
  have c: "h_cycle ?g = h_cycle h" by (simp add: tc_bulkin_xfer_def start_bulk_def with_xfer_def Let_def)
  from assms obtain r1 h1 b1 u1 rs1 where 1: "host_talk listen token_over rs ?g (ulpi_bus_idle bus_zero) [] = Inr (r1, h1, b1, u1, rs1)"
    and go: "(if r1 \<noteq> 0 then Inr (r1, h1, u1)
      else bind_c (host_talk in_link data_over rs1 h1 b1 (w, link_start pkt)) (\<lambda>(r, host, bus, _, rs).
      if r \<noteq> 0 then Inr (r, host, u1)
      else bind_c (host_talk listen (\<lambda>_. False) rs host bus u1) (\<lambda>(r, host, _, u, _). Inr (r, host, u)))) = Inr (r, h', u)"
    by (auto simp: in_transaction_def bind_c_eq_Inr)
  obtain k where k: "length rs = k + length rs1" "h_cycle h1 = h_cycle h + of_nat k" using talk_cycle [OF 1] c by auto
  show thesis
  proof (cases "r1 = 0")
    case False
    then show ?thesis using that [of k] go k by simp
  next
    case True
    then obtain r2 h2 b2 u2 rs2 where 2: "host_talk in_link data_over rs1 h1 b1 (w, link_start pkt) = Inr (r2, h2, b2, u2, rs2)"
      and go2: "(if r2 \<noteq> 0 then Inr (r2, h2, u1)
        else bind_c (host_talk listen (\<lambda>_. False) rs2 h2 b2 u1) (\<lambda>(r, host, _, u, _). Inr (r, host, u))) = Inr (r, h', u)"
      using go by (auto simp: bind_c_eq_Inr)
    obtain j where j: "length rs1 = j + length rs2" "h_cycle h2 = h_cycle h1 + of_nat j" using talk_cycle [OF 2] by auto
    show ?thesis
    proof (cases "r2 = 0")
      case False
      then show ?thesis using that [of "k + j"] go2 k j by (simp add: add.assoc)
    next
      case True
      then obtain r3 h3 b3 u3 rs3 where 3: "host_talk listen (\<lambda>_. False) rs2 h2 b2 u1 = Inr (r3, h3, b3, u3, rs3)" "h' = h3"
        using go2 by (auto simp: bind_c_eq_Inr)
      obtain i where "length rs2 = i + length rs3" "h_cycle h3 = h_cycle h2 + of_nat i" using talk_cycle [OF 3(1)] by auto
      then show ?thesis using that [of "k + (j + i)"] k j 3(2) by (simp add: add.assoc)
    qed
  qed
qed

subsection \<open>Streams of packets\<close>

text \<open>
  What the device does in a transaction: after \<open>w\<close> clocks it sends the bytes \<open>ps\<close> with the check bytes
  \<open>c1\<close>, \<open>c2\<close>, under the PID of its toggle; the random numbers are the host's.
\<close>

type_synonym offer = "nat \<times> u8 list \<times> u8 \<times> u8 \<times> u32 list"

text \<open>
  The device flips its toggle when it hears an ACK. What the host has taken is what its buffer
  holds whenever it sends one.
\<close>

primrec in_stream :: "u8 \<Rightarrow> offer list \<Rightarrow> bit_t \<Rightarrow> usb_host_t \<Rightarrow> (u8 list list \<times> bit_t \<times> usb_host_t) outcome" where
  "in_stream ep [] d host = Inr ([], d, host)"
| "in_stream ep (t # ts) d host =
     (case t of (w, ps, c1, c2, rs) \<Rightarrow>
        bind_c (in_transaction w (in_pid d # ps @ [c1, c2]) rs ep host) (\<lambda>(_, host, u).
          let ack = (drop 3 u = [0xD2]); x = h_xfer host in
          bind_c (in_stream ep ts (if ack then toggle d else d) host) (\<lambda>(got, d, host).
            Inr (if ack then take (nat (x_rx_len x)) (x_rx x) # got else got, d, host))))"

text \<open>The abstract stream: of the packets offered, those that come in time with a right CRC.\<close>

definition delivers :: "offer \<Rightarrow> bool" where
  "delivers = (\<lambda>(w, ps, c1, c2, rs). w \<le> 35 \<and> crc_right ps c1 c2)"

definition payloads :: "offer list \<Rightarrow> u8 list list" where
  "payloads ts = map (\<lambda>(w, ps, c1, c2, rs). ps) (filter delivers ts)"

definition offer_ok :: "offer \<Rightarrow> bool" where
  "offer_ok = (\<lambda>(w, ps, c1, c2, rs). length ps \<le> 510 \<and> (w \<le> 35 \<or> 40 \<le> w) \<and> length ps + 62 \<le> lives rs)"

definition offer_clocks :: "offer \<Rightarrow> nat" where
  "offer_clocks = (\<lambda>(w, ps, c1, c2, rs). length rs)"

lemma payloads_simps [simp]:
  "payloads [] = []"
  "payloads (t # ts) = (case t of (w, ps, c1, c2, rs) \<Rightarrow> if delivers t then ps # payloads ts else payloads ts)"
  by (auto simp: payloads_def split: prod.splits)

text \<open>One offer.\<close>

lemma offer_taken:
  assumes "toggling ep h" and "offer_ok (w, ps, c1, c2, rs)" and "unat (h_cycle h) + 50 < 2 ^ 32"
  obtains r h' u where "in_transaction w (in_pid (toggle_of ep h) # ps @ [c1, c2]) rs ep h = Inr (r, h', u)"
    and "toggling ep h'" and "drop 3 u = [0xD2] \<longleftrightarrow> delivers (w, ps, c1, c2, rs)"
    and "delivers (w, ps, c1, c2, rs) \<Longrightarrow> take (nat (x_rx_len (h_xfer h'))) (x_rx (h_xfer h')) = ps"
    and "x_ep_seq (h_xfer h') = (x_ep_seq (h_xfer h))
      [unat ep := if delivers (w, ps, c1, c2, rs) then toggle (toggle_of ep h) else toggle_of ep h]"
proof (cases "w \<le> 35")
  case True
  have o: "length ps \<le> 510" "length ps + w + 27 \<le> lives rs" "unat (h_cycle h) + 49 < 2 ^ 32"
    using assms(2,3) True by (simp_all add: offer_ok_def)
  let ?g = "h\<lparr>h_op := HostBulkIN\<rparr>"
  let ?y = "\<lambda>x. if crc_right ps c1 c2 then acked ((received x ps c1 c2)\<lparr>x_type := DnACK, x_stage := NoXfer\<rparr>) else received x ps c1 c2"
  obtain x c u where x: "x_ep_seq x = x_ep_seq (h_xfer h)" "arrays_ok x" "x_endpoint x = ep" "in_token (h_addr h) ep u"
    and run: "in_transaction w (in_pid (toggle_of ep h) # ps @ [c1, c2]) rs ep h = Inr
      (if crc_right ps c1 c2 then (1, busy ?g (acked ((received x ps c1 c2)\<lparr>x_type := DnACK, x_stage := NoXfer\<rparr>)) c, u @ [0xD2])
       else (-1, busy ?g (received x ps c1 c2) c, u))"
    by (rule in_answered [OF assms(1) o(1) True o(3,2)])
  have d: "delivers (w, ps, c1, c2, rs) = crc_right ps c1 c2" using True by (simp add: delivers_def)
  have u: "length u = 3" using x(4) by (auto simp: in_token_def)
  have e: "ep < 16" "toggle_of ep h \<in> {SIG0, SIG1}" using assms(1) by (simp_all add: toggling_def)
  have "arrays_ok (received x ps c1 c2)"
    using x(2) o(1) by (simp add: arrays_ok_def received_def Let_def)
  then have t: "toggling ep (busy ?g (?y x) c)"
    using e x(1,3) assms(1) by (auto simp: toggling_def arrays_ok_def acked_def toggle_def word_less_nat_alt)
  have run': "in_transaction w (in_pid (toggle_of ep h) # ps @ [c1, c2]) rs ep h =
      Inr (if crc_right ps c1 c2 then 1 else -1, busy ?g (?y x) c, if crc_right ps c1 c2 then u @ [0xD2] else u)"
    using run by simp
  show thesis by (rule that [OF run' t]) (use u x d in auto)
next
  case False
  then have o: "40 \<le> w" "50 \<le> lives rs" using assms(2) by (simp_all add: offer_ok_def)
  obtain x c u where x: "x_ep_seq x = x_ep_seq (h_xfer h)" "arrays_ok x" "in_token (h_addr h) ep u"
    and run: "in_transaction w (in_pid (toggle_of ep h) # ps @ [c1, c2]) rs ep h = Inr (1, busy (h\<lparr>h_op := HostBulkIN\<rparr>) x c, u)"
    by (rule in_unanswered [OF assms(1) o(1) assms(3) o(2)])
  have "length u = 3" using x(3) by (auto simp: in_token_def)
  then show thesis
    by (intro that [OF run]) (use x assms(1) False in \<open>simp_all add: toggling_def delivers_def\<close>)
qed

lemma stream_runs:
  "toggling ep h \<Longrightarrow> list_all offer_ok ts \<Longrightarrow> unat (h_cycle h) + sum_list (map offer_clocks ts) < 2 ^ 32 \<Longrightarrow>
    \<exists>h'. in_stream ep ts (toggle_of ep h) h = Inr (payloads ts, toggle_of ep h', h') \<and> toggling ep h' \<and>
      x_ep_seq (h_xfer h') = (x_ep_seq (h_xfer h))[unat ep := (toggle ^^ length (payloads ts)) (toggle_of ep h)]"
proof (induction ts arbitrary: h)
  case Nil
  then show ?case by simp
next
  case (Cons t ts)
  obtain w ps c1 c2 rs where t: "t = (w, ps, c1, c2, rs)" by (cases t)
  have ok: "offer_ok (w, ps, c1, c2, rs)" using Cons.prems(2) by (simp add: t)
  have "lives rs \<le> length rs" by (simp add: lives_def)
  then have "length rs \<ge> 50" using ok by (simp add: offer_ok_def)
  then have n: "unat (h_cycle h) + 50 < 2 ^ 32" using Cons.prems(3) by (simp add: t offer_clocks_def)
  let ?d = "delivers (w, ps, c1, c2, rs)" and ?t = "toggle_of ep h"
  obtain r g u where g: "in_transaction w (in_pid ?t # ps @ [c1, c2]) rs ep h = Inr (r, g, u)" "toggling ep g"
      "drop 3 u = [0xD2] \<longleftrightarrow> ?d" "?d \<Longrightarrow> take (nat (x_rx_len (h_xfer g))) (x_rx (h_xfer g)) = ps"
      "x_ep_seq (h_xfer g) = (x_ep_seq (h_xfer h))[unat ep := if ?d then toggle ?t else ?t]"
    by (rule offer_taken [OF Cons.prems(1) ok n]) blast
  obtain k where k: "k \<le> length rs" "h_cycle g = h_cycle h + of_nat k" by (rule transaction_cycle [OF g(1)])
  have "unat (h_cycle g) = unat (h_cycle h) + k"
    using cycle_unat [of "h_cycle h" k] k Cons.prems(3) by (simp add: t offer_clocks_def)
  then have c: "unat (h_cycle g) + sum_list (map offer_clocks ts) < 2 ^ 32"
    using Cons.prems(3) k(1) by (simp add: t offer_clocks_def)
  have e: "unat ep < length (x_ep_seq (h_xfer h))"
    using Cons.prems(1) by (simp add: toggling_def arrays_ok_def word_less_nat_alt)
  then have tg: "toggle_of ep g = (if ?d then toggle ?t else ?t)" using g(5) by simp
  from Cons.IH [OF g(2) _ c] Cons.prems(2) obtain h' where ih:
      "in_stream ep ts (toggle_of ep g) g = Inr (payloads ts, toggle_of ep h', h')" "toggling ep h'"
      "x_ep_seq (h_xfer h') = (x_ep_seq (h_xfer g))[unat ep := (toggle ^^ length (payloads ts)) (toggle_of ep g)]" by auto
  have "in_stream ep (t # ts) ?t h = Inr (payloads (t # ts), toggle_of ep h', h')"
    using ih(1) g(1,3,4) tg by (cases ?d) (simp_all add: t)
  moreover have "x_ep_seq (h_xfer h') = (x_ep_seq (h_xfer h))[unat ep := (toggle ^^ length (payloads (t # ts))) ?t]"
    using ih(3) g(5) tg by (cases ?d) (simp_all add: t funpow_swap1)
  ultimately show ?case using ih(2) by blast
qed

text \<open>
  (C13) Sequences of bulk IN transactions refine a reliable stream. A device that flips its toggle on
  each ACK it hears, and in each transaction sends a packet in time, sends one with wrong check bytes, or
  sends none before the deadline: the host takes exactly the packets that came in time with a right CRC,
  each once and in order, the two toggles agree at the end, and no other end-point's toggle changes.
\<close>

theorem bulk_ins_refine_stream:
  assumes "toggling ep h" and "list_all offer_ok ts" and "unat (h_cycle h) + sum_list (map offer_clocks ts) < 2 ^ 32"
  shows "\<exists>h'. in_stream ep ts (toggle_of ep h) h = Inr (payloads ts, toggle_of ep h', h') \<and>
    x_ep_seq (h_xfer h') = (x_ep_seq (h_xfer h))[unat ep := (toggle ^^ length (payloads ts)) (toggle_of ep h)]"
  using stream_runs [OF assms] by blast

lemma bulk_ins_refine_stream_witness:
  "\<exists>h'. in_stream 2 [(40, [], 0, 0, replicate 70 0), (0, [7], 1, 1, replicate 70 0), (3, [0x12, 0x01], 0x33, 0x2F, replicate 70 0)]
      (toggle_of 2 (usbh_init 0 undefined)) (usbh_init 0 undefined) = Inr ([[0x12, 0x01]], toggle_of 2 h', h')"
proof -
  have l: "lives (replicate n 0) = n" for n by (simp add: lives_def live_def)
  have c1: "crc16_calc [0x12, 0x01] (Suc (Suc 0)) = 0x2F33" and c2: "crc16_calc [7] (Suc 0) \<noteq> 0x0101"
    by (simp_all add: crc16_calc_def crc16_byte_def funpow_numeral crc16_bit_def)
  have "\<not> crc_right [7] 1 1" by (simp add: crc_right_def crc16_calc_def crc16_byte_def funpow_numeral crc16_bit_def lo8_def hi8_def)
  moreover have "crc_right [0x12, 0x01] 0x33 0x2F" using c1 by (simp add: crc_right_def lo8_def hi8_def)
  ultimately have p: "payloads [(40, [], 0, 0, replicate 70 0), (0, [7], 1, 1, replicate 70 0), (3, [0x12, 0x01], 0x33, 0x2F, replicate 70 0)] =
      [[0x12, 0x01]]"
    by (simp add: delivers_def)
  have "\<exists>h'. in_stream 2 [(40, [], 0, 0, replicate 70 0), (0, [7], 1, 1, replicate 70 0), (3, [0x12, 0x01], 0x33, 0x2F, replicate 70 0)]
      (toggle_of 2 (usbh_init 0 undefined)) (usbh_init 0 undefined) =
      Inr (payloads [(40, [], 0, 0, replicate 70 0), (0, [7], 1, 1, replicate 70 0), (3, [0x12, 0x01], 0x33, 0x2F, replicate 70 0)],
        toggle_of 2 h', h') \<and>
    x_ep_seq (h_xfer h') = (x_ep_seq (h_xfer (usbh_init 0 undefined)))[unat (2 :: u8) := (toggle ^^ length (payloads
      [(40, [], 0, 0, replicate 70 0), (0, [7], 1, 1, replicate 70 0), (3, [0x12, 0x01], 0x33, 0x2F, replicate 70 0)]))
        (toggle_of 2 (usbh_init 0 undefined))]"
    by (rule bulk_ins_refine_stream [OF toggling_init])
      (simp_all add: offer_ok_def offer_clocks_def l usbh_init_def usbh_reset_def)
  then show ?thesis unfolding p by blast
qed

end
