(* ===== verification/Ulpiphy.thy ===== *)
theory Ulpiphy
  imports Ulpi_Steps
begin

text \<open>
  The ULPI PHY of \<open>src/vpi/usb/ulpiphy.h\<close> and \<open>src/vpi/usb/ulpiphy.c\<close>: its register
  file, the register transactions that the link starts with a TX CMD, start-up, and the
  chirp sequence that ends in high speed. The line speed is the \<open>uint8_t\<close> the code steps
  with \<open>speed++\<close>. \<open>uphy_step\<close> first copies \<open>in\<close> to \<open>out\<close>, so \<open>out\<close> is only a
  result here.
\<close>

abbreviation UPHY_REG_FN_CTRL :: u8 where "UPHY_REG_FN_CTRL \<equiv> 4"
abbreviation UPHY_TXCMD_MASK :: u8 where "UPHY_TXCMD_MASK \<equiv> 0xC0"
abbreviation UPHY_XMIT_BITS :: u8 where "UPHY_XMIT_BITS \<equiv> 0x40"
abbreviation UPHY_REGW_BITS :: u8 where "UPHY_REGW_BITS \<equiv> 0x80"
abbreviation UPHY_REGR_BITS :: u8 where "UPHY_REGR_BITS \<equiv> 0xC0"
abbreviation UPHY_DELAY_2_5_US :: u32 where "UPHY_DELAY_2_5_US \<equiv> 150"
abbreviation UPHY_CHIRPK_TIMER :: u32 where "UPHY_CHIRPK_TIMER \<equiv> 60"
abbreviation HOST_CHIRPK_TIMER :: u32 where "HOST_CHIRPK_TIMER \<equiv> 30"

datatype phy_op =
    Disconnected | ErrorResetB | Undefined | PowerOn | RefClkValid | Starting | WaitForIdle
  | StatusRXCMD | PhyIdle | PhyRecv | PhySend | PhyREGW | PhyREGI | PhyStop | PhyREGR | PhyREGZ
  | PhyREGO | PhySuspend | PhyResume | PhyChirpJ | PhyChirpK | HostChirp

abbreviation FullSpeed :: u8 where "FullSpeed \<equiv> 0"
abbreviation HostSE0 :: u8 where "HostSE0 \<equiv> 1"
abbreviation FuncChirpK :: u8 where "FuncChirpK \<equiv> 2"
abbreviation HostChirpK1 :: u8 where "HostChirpK1 \<equiv> 3"
abbreviation HostChirpJ1 :: u8 where "HostChirpJ1 \<equiv> 4"
abbreviation HostChirpK2 :: u8 where "HostChirpK2 \<equiv> 5"
abbreviation HostChirpJ2 :: u8 where "HostChirpJ2 \<equiv> 6"
abbreviation HostChirpK3 :: u8 where "HostChirpK3 \<equiv> 7"
abbreviation HostChirpJ3 :: u8 where "HostChirpJ3 \<equiv> 8"
abbreviation HighSpeed :: u8 where "HighSpeed \<equiv> 9"

record phy_state_t =
  p_timer :: u32
  p_op :: phy_op
  p_rx_cmd :: u8
  p_regs :: "u8 list"
  p_regnum :: u8
  p_update :: u8
  p_speed :: u8

record ulpi_phy_t =
  phy_state :: phy_state_t
  phy_bus :: ulpi_bus_t
  phy_xfer :: transfer_t

text \<open>Assignments to fields of \<open>phy->state\<close>.\<close>

definition upd_state :: "(phy_state_t \<Rightarrow> phy_state_t) \<Rightarrow> ulpi_phy_t \<Rightarrow> ulpi_phy_t" where
  "upd_state f phy = phy\<lparr>phy_state := f (phy_state phy)\<rparr>"

lemma upd_state_simps [simp]:
  "phy_state (upd_state f phy) = f (phy_state phy)"
  "phy_bus (upd_state f phy) = phy_bus phy"
  "phy_xfer (upd_state f phy) = phy_xfer phy"
  by (simp_all add: upd_state_def)

definition phy_drive_rx_cmd :: "ulpi_phy_t \<Rightarrow> ulpi_phy_t" where
  "phy_drive_rx_cmd phy =
     phy\<lparr>phy_bus := set_b 0x00 (set_a (p_rx_cmd (phy_state phy))
       ((phy_bus phy)\<lparr>u_dir := SIG1, u_nxt := SIG0\<rparr>))\<rparr>"

definition ULPI_REG_DEFAULTS :: "u8 list" where
  "ULPI_REG_DEFAULTS = [0x24, 0x04, 0x06, 0x00, 0x41, 0x41, 0x41, 0x00, 0x00, 0x00]"

definition ulpi_phy_is_idle :: "ulpi_phy_t \<Rightarrow> bool" where
  "ulpi_phy_is_idle phy \<longleftrightarrow>
     p_op (phy_state phy) = PhyIdle \<and> ulpi_bus_is_idle (phy_bus phy) \<and>
     (x_type (phy_xfer phy) = XferIdle \<and> x_stage (phy_xfer phy) = NoXfer)"

text \<open>
  In C, \<open>==\<close> binds tighter than \<open>&\<close>: the tests read
  \<open>in->data.a & (UPHY_TXCMD_MASK == UPHY_REGR_BITS)\<close>, a conjunction with the constant 1 or 0.
\<close>

definition ulpi_phy_is_reg_read :: "ulpi_phy_t \<Rightarrow> ulpi_bus_t \<Rightarrow> bool" where
  "ulpi_phy_is_reg_read phy inb \<longleftrightarrow>
     ulpi_phy_is_idle phy \<and>
     (u_rst_n inb = SIG1 \<and> u_dir inb = SIG0 \<and> data_b inb = 0x00 \<and>
      (data_a inb AND of_bool (UPHY_TXCMD_MASK = UPHY_REGR_BITS)) \<noteq> 0)"

definition ulpi_phy_is_reg_write :: "ulpi_phy_t \<Rightarrow> ulpi_bus_t \<Rightarrow> bool" where
  "ulpi_phy_is_reg_write phy inb \<longleftrightarrow>
     ulpi_phy_is_idle phy \<and>
     (u_rst_n inb = SIG1 \<and> u_dir inb = SIG0 \<and> data_b inb = 0x00 \<and>
      (data_a inb AND of_bool (UPHY_TXCMD_MASK = UPHY_REGW_BITS)) \<noteq> 0)"

definition ulpi_phy_is_chirp :: "ulpi_phy_t \<Rightarrow> bool" where
  "ulpi_phy_is_chirp phy \<longleftrightarrow>
     (p_regs (phy_state phy) ! unat UPHY_REG_FN_CTRL AND 0x1C) = 0x14"

definition ulpi_bus_data_hex :: "ulpi_bus_t \<Rightarrow> u32" where
  "ulpi_bus_data_hex inb = push_bit 8 (ucast (data_b inb)) OR ucast (data_a inb)"

definition uphy_chirp_kj_step :: "ulpi_phy_t \<Rightarrow> int \<times> ulpi_phy_t" where
  "uphy_chirp_kj_step phy =
     (-1, if p_op (phy_state phy) = PhyChirpJ
          then upd_state (\<lambda>s. s\<lparr>p_timer := p_timer s + 1\<rparr>) phy else phy)"

type_synonym phy_result = "(int \<times> ulpi_phy_t \<times> ulpi_bus_t) outcome"

definition uphy_txcmd_step :: "ulpi_phy_t \<Rightarrow> ulpi_bus_t \<Rightarrow> ulpi_bus_t \<Rightarrow> phy_result" where
  "uphy_txcmd_step phy inb out =
     (let txcmd = data_a inb AND UPHY_TXCMD_MASK;
          regpid = data_a inb AND 0x3F in
      assert_c (u_dir inb = SIG0 \<and> u_nxt inb = SIG0)
        (if txcmd = UPHY_XMIT_BITS then
           Inr (0,
             upd_state (\<lambda>s. if regpid = 0x00
                then s\<lparr>p_op := PhyChirpK, p_timer := 0, p_speed := FuncChirpK\<rparr>
                else s\<lparr>p_op := PhySend\<rparr>) phy,
             out\<lparr>u_nxt := SIG1\<rparr>)
         else if txcmd = UPHY_REGR_BITS then
           Inr (0, upd_state (\<lambda>s. s\<lparr>p_regnum := regpid, p_op := PhyREGR\<rparr>) phy,
             out\<lparr>u_nxt := SIG1\<rparr>)
         else if txcmd = UPHY_REGW_BITS then
           Inr (0, upd_state (\<lambda>s. s\<lparr>p_regnum := regpid, p_op := PhyREGW\<rparr>) phy,
             out\<lparr>u_nxt := SIG1\<rparr>)
         else Inr (-1, phy, out)))"

definition uphy_reset :: "ulpi_phy_t \<Rightarrow> ulpi_phy_t" where
  "uphy_reset phy =
     upd_state (\<lambda>s. s\<lparr>p_regs := ULPI_REG_DEFAULTS, p_rx_cmd := 0x4C, p_op := PowerOn\<rparr>) phy"

text \<open>
  \<open>phy_init\<close> gets its memory from \<open>malloc\<close>: \<open>junk\<close> is what it held, and the fields the
  routine does not assign keep it.
\<close>

definition phy_init :: "ulpi_phy_t \<Rightarrow> ulpi_phy_t" where
  "phy_init junk =
     (uphy_reset junk)\<lparr>phy_bus := \<lparr>u_clock = SIGX, u_rst_n = SIGX, u_dir = SIGZ, u_stp = SIGX,
       u_nxt = SIGZ, u_data = \<lparr>byte_a = 0x00, byte_b = 0xFF\<rparr>\<rparr>\<rparr>"

subsection \<open>One clock of the PHY\<close>

definition set_op :: "phy_op \<Rightarrow> ulpi_phy_t \<Rightarrow> ulpi_phy_t" where
  "set_op op = upd_state (\<lambda>s. s\<lparr>p_op := op\<rparr>)"

text \<open>The end of \<open>uphy_step\<close>, reached by every \<open>break\<close>.\<close>

definition uphy_done :: "ulpi_phy_t \<Rightarrow> ulpi_bus_t \<Rightarrow> phy_result" where
  "uphy_done phy out =
     Inr (if p_op (phy_state phy) = PhyIdle \<and> p_speed (phy_state phy) = HighSpeed then 1 else 0,
       phy\<lparr>phy_bus := out\<rparr>, out)"

text \<open>The RX CMD bits and the timer, in the chirp mode of \<open>StatusRXCMD\<close>.\<close>

definition chirp_status :: "phy_state_t \<Rightarrow> phy_state_t option" where
  "chirp_status s =
     (let s = s\<lparr>p_rx_cmd := p_rx_cmd s AND 0xFC\<rparr> in
      if p_speed s = FullSpeed then Some (s\<lparr>p_speed := HostSE0, p_timer := 0\<rparr>)
      else if p_speed s = HostSE0 then Some s
      else if p_speed s = FuncChirpK then Some (s\<lparr>p_rx_cmd := p_rx_cmd s OR 0x01\<rparr>)
      else if p_speed s \<in> {HostChirpK1, HostChirpK2, HostChirpK3} then
        Some (s\<lparr>p_rx_cmd := p_rx_cmd s OR 0x01, p_timer := 0\<rparr>)
      else if p_speed s \<in> {HostChirpJ1, HostChirpJ2, HostChirpJ3} then
        Some (s\<lparr>p_rx_cmd := p_rx_cmd s OR 0x02, p_timer := 0\<rparr>)
      else if p_speed s = HighSpeed then Some (s\<lparr>p_timer := 0\<rparr>)
      else None)"

definition uphy_status :: "ulpi_phy_t \<Rightarrow> ulpi_bus_t \<Rightarrow> phy_result" where
  "uphy_status phy out =
     (let out = out\<lparr>u_dir := SIG1, u_nxt := SIG0\<rparr>;
          s = phy_state phy in
      case (if ulpi_phy_is_chirp phy then chirp_status s else Some s) of
        None \<Rightarrow> Inr (-1, upd_state (\<lambda>s. s\<lparr>p_rx_cmd := p_rx_cmd s AND 0xFC\<rparr>) phy, out)
      | Some s \<Rightarrow>
          uphy_done (phy\<lparr>phy_state := s\<lparr>p_update := 0, p_op := WaitForIdle\<rparr>\<rparr>)
            (set_b 0x00 (set_a (p_rx_cmd s) out)))"

definition uphy_starting :: "ulpi_phy_t \<Rightarrow> ulpi_bus_t \<Rightarrow> ulpi_bus_t \<Rightarrow> phy_result" where
  "uphy_starting phy inb out =
     (if u_clock inb \<noteq> SIG1 then uphy_done phy out
      else if u_rst_n inb \<noteq> SIG1 then uphy_done (set_op PowerOn phy) out
      else if data_a inb = 0x00 \<and> data_b inb = 0x00 then
        (let timer = p_timer (phy_state phy) + 1;
             phy = upd_state (\<lambda>s. s\<lparr>p_timer := timer\<rparr>) phy in
         uphy_done (if timer > UPHY_DELAY_2_5_US then set_op PhyIdle phy else phy) out)
      else if ulpi_bus_is_idle (phy_bus phy) \<and> data_b inb = 0x00 \<and> data_a inb \<noteq> 0x00 then
        assert_c (data_a inb AND 0x80 = 0x80) (uphy_txcmd_step phy inb out)
      else Inr (-1, set_op Undefined phy, out))"

definition uphy_idle :: "ulpi_phy_t \<Rightarrow> ulpi_bus_t \<Rightarrow> ulpi_bus_t \<Rightarrow> phy_result" where
  "uphy_idle phy inb out =
     (let s = phy_state phy in
      if ulpi_bus_is_idle (phy_bus phy) then
        (if data_b inb = 0x00 \<and> data_a inb \<noteq> 0x00 then uphy_txcmd_step phy inb out
         else if \<not> ulpi_bus_is_idle inb then Inr (-1, phy, out)
         else if p_update s \<noteq> 0 then
           uphy_done (set_op StatusRXCMD phy) (set_b 0xFF (out\<lparr>u_dir := SIG1\<rparr>))
         else if p_speed s > FuncChirpK \<and> p_speed s < HighSpeed then
           (let timer = p_timer s + 1 in
            uphy_done
              (phy\<lparr>phy_state := (if timer \<ge> HOST_CHIRPK_TIMER
                 then s\<lparr>p_timer := timer, p_update := 1, p_speed := p_speed s + 1\<rparr>
                 else s\<lparr>p_timer := timer\<rparr>)\<rparr>) out)
         else uphy_done phy out)
      else uphy_done phy out)"

text \<open>
  The cases of the switch of \<open>uphy_step\<close> in which a TX CMD is carried out: a register write
  (\<open>REGW\<close>, \<open>REGI\<close>, \<open>STOP\<close>), a register read (\<open>REGR\<close>, \<open>REGZ\<close>, \<open>REGO\<close>), a
  transfer, which is left to the USB host, and the chirp of the device; with the \<open>default\<close>.
\<close>

definition uphy_command :: "ulpi_phy_t \<Rightarrow> ulpi_bus_t \<Rightarrow> ulpi_bus_t \<Rightarrow> phy_result" where
  "uphy_command phy inb out =
     (let s = phy_state phy in
      if p_op s = PhyREGW then
        (if data_b inb = 0x00 then uphy_done (set_op PhyREGI phy) (out\<lparr>u_nxt := SIG1\<rparr>)
         else Inr (-1, set_op Undefined phy, out))
      else if p_op s = PhyREGI then
        (if data_b inb = 0x00 then
           bind_c (aput (p_regs s) (uint (p_regnum s)) (data_a inb)) (\<lambda>regs.
             uphy_done
               (upd_state (\<lambda>s. s\<lparr>p_update := of_bool (p_regnum s = UPHY_REG_FN_CTRL),
                  p_regs := regs, p_op := PhyStop\<rparr>) phy)
               (out\<lparr>u_dir := SIG0, u_nxt := SIG0\<rparr>))
         else Inr (-1, set_op Undefined phy, out))
      else if p_op s = PhyStop then
        assert_c (u_dir inb = SIG0 \<and> u_nxt inb = SIG0)
          (if u_stp inb = SIG1 then uphy_done (set_op PhyIdle phy) out
           else Inr (-1, set_op Undefined phy, out))
      else if p_op s = PhyREGR then
        uphy_done (set_op PhyREGZ phy)
          (set_b 0xFF (set_a 0x00 (out\<lparr>u_dir := SIG1, u_nxt := SIG0\<rparr>)))
      else if p_op s = PhyREGZ then
        bind_c (aget (p_regs s) (uint (p_regnum s))) (\<lambda>v.
          uphy_done (set_op PhyREGO phy)
            (set_b 0x00 (set_a v (out\<lparr>u_dir := SIG1, u_nxt := SIG1\<rparr>))))
      else if p_op s = PhyREGO then
        uphy_done (set_op PhyIdle phy)
          (set_b 0xFF (set_a 0x00 (out\<lparr>u_dir := SIG0, u_nxt := SIG0\<rparr>)))
      else if p_op s = PhySend \<or> p_op s = PhyRecv then uphy_done phy out
      else if p_op s = PhyChirpK then
        (let timer = p_timer s + 1;
             phy = upd_state (\<lambda>s. s\<lparr>p_timer := timer\<rparr>) phy in
         if u_stp inb = SIG1 \<and> timer > UPHY_CHIRPK_TIMER then
           uphy_done
             (upd_state (\<lambda>s. s\<lparr>p_op := WaitForIdle, p_update := 1, p_speed := HostChirpK1\<rparr>) phy)
             (out\<lparr>u_dir := SIG0, u_nxt := SIG0\<rparr>)
         else uphy_done phy out)
      else Inr (-1, set_op Undefined phy, out))"

definition uphy_step :: "ulpi_phy_t \<Rightarrow> ulpi_bus_t \<Rightarrow> phy_result" where
  "uphy_step phy inb =
     (let phy = (if u_rst_n inb = SIG0 then set_op PowerOn phy else phy);
          s = phy_state phy;
          out = inb in
      assert_c (u_clock inb = SIG1)
        (if p_op s = PowerOn then
           (if u_rst_n inb = SIG0 then
              (let phy = uphy_reset phy in
               uphy_done
                 (if u_clock inb = SIG1 \<and> u_dir inb = SIG0 \<and> u_nxt inb = SIG0
                  then set_op RefClkValid phy else phy)
                 (out\<lparr>u_dir := SIG0, u_nxt := SIG0\<rparr>))
            else uphy_done phy out)
         else if p_op s = RefClkValid then
           uphy_done
             (if u_clock inb = SIG1 \<and> u_rst_n inb = SIG1 \<and> data_a inb = 0x00 \<and> data_b inb = 0x00
              then upd_state (\<lambda>s. s\<lparr>p_timer := 0, p_op := Starting\<rparr>) phy else phy) out
         else if p_op s = Starting then uphy_starting phy inb out
         else if p_op s = WaitForIdle then
           (if ulpi_bus_is_idle inb then uphy_done (set_op PhyIdle phy) out
            else uphy_done phy (set_b 0xFF (set_a 0x00 (out\<lparr>u_dir := SIG0, u_nxt := SIG0\<rparr>))))
         else if p_op s = StatusRXCMD then uphy_status phy out
         else if p_op s = PhyIdle then uphy_idle phy inb out
         else uphy_command phy inb out))"

end
