(* ===== verification/Vpi.thy ===== *)
theory Vpi
  imports Ulpi
begin

text \<open>
  The Verilog simulator as the three system tasks of \<open>src/vpi/\<close> see it through the VPI. Handles
  are addresses, 0 is \<open>NULL\<close>. What the simulator answers at one point of the simulation is a
  record of arbitrary values, an argument of the definitions that ask for them; what the tasks write
  is a list of \<open>vpi_put_value\<close> calls, in their order.
\<close>

type_synonym handle = u64

text \<open>The codes of \<open>vpi_user.h\<close> that the sources compare with.\<close>

abbreviation vpiNet :: int where "vpiNet \<equiv> 36"
abbreviation vpiReg :: int where "vpiReg \<equiv> 48"

text \<open>
  \<open>v_systf\<close> is \<open>vpi_handle(vpiSysTfCall, NULL)\<close> and \<open>v_args\<close> what \<open>vpi_iterate\<close> over its
  arguments delivers (\<open>None\<close>: no iterator); \<open>v_type\<close> and \<open>v_size\<close> are \<open>vpi_get\<close>; \<open>v_scalar\<close>,
  \<open>v_vector\<close> and \<open>v_int\<close> are \<open>vpi_get_value\<close> in the three formats; \<open>v_time\<close> has the high and the
  low word of the simulation time; \<open>v_unit\<close> and \<open>v_prec\<close> are the powers of ten of the time-scale.
\<close>

record vpi =
  v_systf :: handle
  v_args :: "handle list option"
  v_type :: "handle \<Rightarrow> int"
  v_size :: "handle \<Rightarrow> int"
  v_scalar :: "handle \<Rightarrow> u32"
  v_vector :: "handle \<Rightarrow> u32 \<times> u32"
  v_int :: "handle \<Rightarrow> int"
  v_time :: "u32 \<times> u32"
  v_unit :: int
  v_prec :: int

definition net_or_reg :: "vpi \<Rightarrow> handle \<Rightarrow> bool" where
  "net_or_reg vpi h \<longleftrightarrow> v_type vpi h = vpiNet \<or> v_type vpi h = vpiReg"

text \<open>\<open>vpi_scan\<close> on what is left of the arguments: the next one, or \<open>NULL\<close>.\<close>

definition scan :: "handle list \<Rightarrow> handle \<times> handle list" where
  "scan hs = (case hs of [] \<Rightarrow> (0, []) | h # hs \<Rightarrow> (h, hs))"

text \<open>The documented type of \<open>NULL\<close> is undefined, and no argument is \<open>NULL\<close>.\<close>

definition vpi_sound :: "vpi \<Rightarrow> bool" where
  "vpi_sound vpi \<longleftrightarrow> \<not> net_or_reg vpi 0 \<and>
     (case v_args vpi of None \<Rightarrow> True | Some hs \<Rightarrow> list_all (\<lambda>h. h \<noteq> 0) hs)"

subsection \<open>Sampling\<close>

definition scalar_of :: "vpi \<Rightarrow> handle \<Rightarrow> bit_t" where
  "scalar_of vpi h = ucast (v_scalar vpi h)"

definition byte_of :: "vpi \<Rightarrow> handle \<Rightarrow> byte_t" where
  "byte_of vpi h = \<lparr>byte_a = ucast (fst (v_vector vpi h)), byte_b = ucast (snd (v_vector vpi h))\<rparr>"

subsection \<open>Driving\<close>

datatype put = PutScalar handle bit_t | PutVector handle byte_t

text \<open>The two forms in which the sources drive a signal that has to change.\<close>

definition put_bit :: "handle \<Rightarrow> bit_t \<Rightarrow> bit_t \<Rightarrow> put list" where
  "put_bit h old new = (if old \<noteq> new then [PutScalar h new] else [])"

definition put_byte :: "handle \<Rightarrow> byte_t \<Rightarrow> byte_t \<Rightarrow> put list" where
  "put_byte h old new =
     (if byte_a old \<noteq> byte_a new \<or> byte_b old \<noteq> byte_b new then [PutVector h new] else [])"

text \<open>The signals after puts with \<open>vpiNoDelay\<close>: a put value stays until the next one.\<close>

type_synonym signals = "(handle \<Rightarrow> bit_t) \<times> (handle \<Rightarrow> byte_t)"

fun apply_put :: "put \<Rightarrow> signals \<Rightarrow> signals" where
  "apply_put (PutScalar h v) (f, g) = (f(h := v), g)"
| "apply_put (PutVector h v) (f, g) = (f, g(h := v))"

abbreviation apply_puts :: "put list \<Rightarrow> signals \<Rightarrow> signals" where
  "apply_puts \<equiv> fold apply_put"

lemma put_bit_fold: "f h = old \<Longrightarrow> apply_puts (put_bit h old new) (f, g) = (f(h := new), g)"
  by (auto simp: put_bit_def)

lemma put_byte_fold: "g h = old \<Longrightarrow> apply_puts (put_byte h old new) (f, g) = (f, g(h := new))"
  by (auto simp: put_byte_def)

subsection \<open>Arguments\<close>

text \<open>
  The helper \<open>get_signal\<close> of \<open>ulpisim.c\<close>; \<open>None\<close>: the error was reported, the simulator asked
  to stop, and 0 returned.
\<close>

definition get_signal :: "vpi \<Rightarrow> handle list \<Rightarrow> (handle \<times> handle list) option" where
  "get_signal vpi iter =
     (let (arg, iter) = scan iter in
      if v_type vpi arg \<noteq> vpiNet \<and> v_type vpi arg \<noteq> vpiReg then None else Some (arg, iter))"

text \<open>\<open>n\<close> calls of it, one after the other until one fails.\<close>

primrec get_signals :: "vpi \<Rightarrow> nat \<Rightarrow> handle list \<Rightarrow> (handle list \<times> handle list) option" where
  "get_signals vpi 0 iter = Some ([], iter)"
| "get_signals vpi (Suc n) iter =
     (case get_signal vpi iter of
        None \<Rightarrow> None
      | Some (h, iter) \<Rightarrow>
          (case get_signals vpi n iter of None \<Rightarrow> None | Some (hs, iter) \<Rightarrow> Some (h # hs, iter)))"

lemma get_signals_iff:
  assumes "\<not> net_or_reg vpi 0"
  shows "get_signals vpi n iter = (if n \<le> length iter \<and> list_all (net_or_reg vpi) (take n iter)
     then Some (take n iter, drop n iter) else None)"
proof (induction n arbitrary: iter)
  case 0
  then show ?case by simp
next
  case (Suc n)
  then show ?case
    using assms by (cases iter) (auto simp: get_signal_def scan_def net_or_reg_def)
qed

text \<open>The arguments of a system task that takes exactly \<open>n\<close> signals, and its extra check.\<close>

definition task_args :: "vpi \<Rightarrow> nat \<Rightarrow> handle list option" where
  "task_args vpi n =
     (if v_systf vpi = 0 then None
      else case v_args vpi of
        None \<Rightarrow> None
      | Some iter \<Rightarrow>
          (case get_signals vpi n iter of
             None \<Rightarrow> None
           | Some (hs, iter) \<Rightarrow> if fst (scan iter) \<noteq> 0 then None else Some hs))"

lemma task_args_iff:
  assumes "vpi_sound vpi"
  shows "task_args vpi n = Some hs \<longleftrightarrow>
    v_systf vpi \<noteq> 0 \<and> v_args vpi = Some hs \<and> length hs = n \<and> list_all (net_or_reg vpi) hs"
proof -
  have null: "\<not> net_or_reg vpi 0" using assms by (simp add: vpi_sound_def)
  have "fst (scan (drop n iter)) = 0 \<longleftrightarrow> length iter \<le> n" if "v_args vpi = Some iter" for iter
  proof (cases "drop n iter")
    case (Cons h hs)
    then have "h \<in> set iter" by (metis in_set_dropD list.set_intros(1))
    then show ?thesis using assms that Cons by (auto simp: scan_def vpi_sound_def list_all_iff)
  qed (simp add: scan_def)
  then show ?thesis
    by (auto simp: task_args_def get_signals_iff [OF null] split: option.splits if_splits)
qed

subsection \<open>Time\<close>

text \<open>\<open>while (scale-- > 0) t_recip *= 10\<close>, from \<open>scale = -9 - precision\<close> and \<open>t_recip = 1\<close>.\<close>

primrec scale_loop :: "nat \<Rightarrow> u64 \<Rightarrow> u64" where
  "scale_loop 0 t_recip = t_recip"
| "scale_loop (Suc scale) t_recip = scale_loop scale (t_recip * 10)"

definition t_recip_of :: "int \<Rightarrow> u64" where
  "t_recip_of prec = scale_loop (nat (-9 - prec)) 1"

definition sim_time :: "vpi \<Rightarrow> u64" where
  "sim_time vpi = push_bit 32 (ucast (fst (v_time vpi))) OR ucast (snd (v_time vpi))"

text \<open>Division by zero stops the program.\<close>

definition tick_of :: "vpi \<Rightarrow> u64 \<Rightarrow> u64 outcome" where
  "tick_of vpi t_recip = (if t_recip = 0 then Inl Division_By_Zero else Inr (sim_time vpi div t_recip))"

lemma scale_loop_power: "scale_loop n t = t * 10 ^ n"
  by (induction n arbitrary: t) (simp_all add: algebra_simps)

lemma unat_small: "n < 2 ^ 64 \<Longrightarrow> unat (of_nat n :: u64) = n"
  by (simp add: unsigned_of_nat take_bit_nat_eq_self)

lemma t_recip_unat:
  assumes "-28 \<le> prec"
  shows "unat (t_recip_of prec) = 10 ^ nat (-9 - prec)"
proof -
  have "nat (-9 - prec) \<le> 19" using assms by simp
  then have "(10 :: nat) ^ nat (-9 - prec) \<le> 10 ^ 19" by (rule power_increasing) simp
  then have "(10 :: nat) ^ nat (-9 - prec) < 2 ^ 64" by simp
  moreover have "t_recip_of prec = of_nat (10 ^ nat (-9 - prec))"
    by (simp add: t_recip_of_def scale_loop_power)
  ultimately show ?thesis by (simp only: unat_small)
qed

lemma sim_time_unat: "unat (sim_time vpi) = unat (fst (v_time vpi)) * 2 ^ 32 + unat (snd (v_time vpi))"
proof -
  let ?h = "unat (fst (v_time vpi))" and ?l = "unat (snd (v_time vpi))"
  have b: "unat (w :: u32) < 2 ^ 32" for w by (rule order_less_le_trans [OF unsigned_less]) simp
  have u: "unat (ucast (w :: u32) :: u64) = unat w" for w
    using b [of w] by (simp add: unsigned_ucast_eq take_bit_nat_eq_self)
  have "push_bit 32 ?h AND ?l = 0"
  proof (rule bit_eqI)
    fix k
    have "\<not> bit ?l k" if "32 \<le> k"
    proof -
      have "?l < 2 ^ k" using b [of "snd (v_time vpi)"] that
        by (meson order_less_le_trans power_increasing one_le_numeral)
      then show ?thesis by (simp add: bit_iff_odd)
    qed
    then show "bit (push_bit 32 ?h AND ?l) k \<longleftrightarrow> bit (0 :: nat) k"
      by (auto simp: bit_and_iff bit_push_bit_iff)
  qed
  then have "push_bit 32 ?h OR ?l = push_bit 32 ?h + ?l" by (rule disjunctive_add_eq_or [symmetric])
  moreover have "unat (push_bit 32 (ucast (fst (v_time vpi)) :: u64)) = push_bit 32 ?h"
    using b [of "fst (v_time vpi)"] by (simp add: push_bit_eq_mult unat_word_ariths u)
  ultimately show ?thesis by (simp add: sim_time_def unsigned_or_eq u push_bit_eq_mult)
qed

end
