(* ===== verification/Ulpisim.thy ===== *)
theory Ulpisim
  imports Ulpiphy Vpi Tc_Control Tc_Bulk
begin

text \<open>
  The test-bench of \<open>src/vpi/ulpisim.h\<close> and \<open>src/vpi/ulpisim.c\<close>: the registry of
  test-cases, and the state machine that brings the PHY to high speed and then steps host and
  test-cases, one posedge of the ULPI clock at a time. \<open>s_finish\<close> records that the code has
  asked the simulator to stop (\<open>vpi_control(vpiFinish, ...)\<close>). Names and messages are only printed.
\<close>

subsection \<open>Test-cases as one type\<close>

text \<open>
  A \<open>testcase_t\<close> holds its data behind a \<open>void*\<close> and two function pointers: here a sum of
  the data types, and the dispatch on it. \<open>env\<close> is what the outside supplies to one call: the
  results of \<open>rand()\<close>, and the address from \<open>malloc\<close>.
\<close>

datatype testcase_t =
    TcGetdesc ctrl_step | TcGetconf ctrl_state | TcGetstrs ctrl_state | TcSetaddr setaddr_state
  | TcSetconf setconf_t | TcWaitsof waitsof_state_t | TcBulkin bulkin_state_t
  | TcBulkout bulkout_state_t | TcDdr3in ddr3in_state_t | TcDdr3out ddr3out_state_t
  | TcParity parity_state_t

record env_t =
  env_rand :: rand_t
  env_addr :: u64

definition as_tc :: "('d \<Rightarrow> testcase_t) \<Rightarrow> 'd tc_result \<Rightarrow> testcase_t tc_result" where
  "as_tc c m = bind_c m (\<lambda>(r, host, d). Inr (r, host, c d))"

fun test_init :: "env_t \<Rightarrow> usb_host_t \<Rightarrow> testcase_t \<Rightarrow> testcase_t tc_result" where
  "test_init env host (TcGetdesc d) = as_tc TcGetdesc (tc_getdesc_init (env_addr env) host d)"
| "test_init env host (TcGetconf d) = as_tc TcGetconf (tc_getconf_init host d)"
| "test_init env host (TcGetstrs d) = as_tc TcGetstrs (tc_getstrs_init (env_addr env) host d)"
| "test_init env host (TcSetaddr d) = as_tc TcSetaddr (tc_setaddr_init host d)"
| "test_init env host (TcSetconf d) = as_tc TcSetconf (tc_setconf_init host d)"
| "test_init env host (TcWaitsof d) = as_tc TcWaitsof (tc_waitsof_init host d)"
| "test_init env host (TcBulkin d) = as_tc TcBulkin (tc_bulkin_init host d)"
| "test_init env host (TcBulkout d) = as_tc TcBulkout (tc_bulkout_init (env_rand env) host d)"
| "test_init env host (TcDdr3in d) = as_tc TcDdr3in (tc_ddr3in_init host d)"
| "test_init env host (TcDdr3out d) = as_tc TcDdr3out (tc_ddr3out_init (env_rand env) host d)"
| "test_init env host (TcParity d) = as_tc TcParity (tc_parity_init (env_rand env) host d)"

fun test_advance :: "env_t \<Rightarrow> usb_host_t \<Rightarrow> testcase_t \<Rightarrow> testcase_t tc_result" where
  "test_advance env host (TcGetdesc d) = as_tc TcGetdesc (tc_getdesc_step host d)"
| "test_advance env host (TcGetconf d) = as_tc TcGetconf (tc_getconf_step host d)"
| "test_advance env host (TcGetstrs d) = as_tc TcGetstrs (tc_getstrs_step (env_addr env) host d)"
| "test_advance env host (TcSetaddr d) = as_tc TcSetaddr (tc_setaddr_step host d)"
| "test_advance env host (TcSetconf d) = as_tc TcSetconf (tc_setconf_step host d)"
| "test_advance env host (TcWaitsof d) = as_tc TcWaitsof (tc_waitsof_step host d)"
| "test_advance env host (TcBulkin d) = as_tc TcBulkin (tc_bulkin_step host d)"
| "test_advance env host (TcBulkout d) = as_tc TcBulkout (tc_bulkout_step (env_rand env) host d)"
| "test_advance env host (TcDdr3in d) = as_tc TcDdr3in (tc_ddr3in_step host d)"
| "test_advance env host (TcDdr3out d) = as_tc TcDdr3out (tc_ddr3out_step (env_rand env) host d)"
| "test_advance env host (TcParity d) = as_tc TcParity (tc_parity_step (env_rand env) host d)"

subsection \<open>The state of the test-bench\<close>

datatype ut_step_t = UT_PowerOn | UT_StartUp | UT_Idle | UT_Test | UT_Done

text \<open>A test-case whose constructor returned \<open>NULL\<close> is \<open>None\<close>.\<close>

record ut_state_t =
  s_clock :: handle
  s_rst_n :: handle
  s_dir :: handle
  s_nxt :: handle
  s_stp :: handle
  s_dati :: handle
  s_dato :: handle
  s_tick_ns :: u64
  s_t_recip :: u64
  s_cycle :: u64
  s_bus :: ulpi_bus_t
  s_phy :: ulpi_phy_t
  s_host :: usb_host_t
  s_sync_flag :: int
  s_test_curr :: int
  s_test_step :: int
  s_tests :: "testcase_t option list"
  s_op :: ut_step_t
  s_finish :: bool

text \<open>
  The registry, with the addresses of the buffers that three of the constructors allocate.
\<close>

definition ut_tests :: "rand_t \<Rightarrow> u64 \<times> u64 \<times> u64 \<Rightarrow> testcase_t option list" where
  "ut_tests rnd bufs =
     [Some (TcGetdesc SendSETUP),
      map_option TcSetaddr (test_setaddr 0x23),
      Some (TcGetconf (test_getconf (fst bufs))),
      map_option TcSetconf (test_setconf 0x01),
      Some (TcGetstrs (test_getstrs (fst (snd bufs)))),
      Some (TcWaitsof WaitIdle),
      Some (TcBulkout BulkOUT0),
      Some (TcDdr3out (test_ddr3out 0x02A8F0)),
      Some (TcWaitsof WaitIdle),
      Some (TcDdr3in (test_ddr3in rnd 0x02A8F0)),
      Some (TcBulkout BulkOUT0),
      Some (TcBulkin (test_bulkin 1)),
      Some (TcWaitsof WaitIdle),
      Some (TcGetconf (test_getconf (snd (snd bufs)))),
      Some (TcParity test_parity),
      Some (TcWaitsof WaitIdle)]"

definition phy_zero :: ulpi_phy_t where
  "phy_zero =
     \<lparr>phy_state = \<lparr>p_timer = 0, p_op = PowerOn, p_rx_cmd = 0, p_regs = replicate 10 0,
        p_regnum = 0, p_update = 0, p_speed = 0\<rparr>,
      phy_bus = bus_zero, phy_xfer = xfer_zero\<rparr>"

definition host_zero :: usb_host_t where
  "host_zero =
     \<lparr>h_cycle = 0, h_op = HostReset, h_step = 0, h_prev = bus_zero, h_xfer = xfer_zero, h_sof = 0,
      h_turnaround = 0, h_addr = 0, h_error_count = 0, h_len = 0, h_buf = 0, h_guard = 0\<rparr>"

text \<open>
  \<open>ut_compiletf\<close>: the state it leaves with the simulator, from zeroed memory, or \<open>None\<close> when it
  has reported an error and asked the simulator to stop. \<open>addr k\<close> is the result of the \<open>k\<close>-th call of
  \<open>malloc\<close>: the state is the first, the buffer of the host the next, then come the array of the tests
  and what the constructors allocate.
\<close>

definition ut_compiletf :: "vpi \<Rightarrow> rand_t \<Rightarrow> (nat \<Rightarrow> u64) \<Rightarrow> ut_state_t option" where
  "ut_compiletf vpi rnd addr =
     (case task_args vpi 7 of
        Some [clock, rst_n, dir, nxt, stp, dati, dato] \<Rightarrow>
          (if v_type vpi dir \<noteq> vpiReg \<or> v_size vpi dir \<noteq> 1 then None
           else if v_type vpi nxt \<noteq> vpiReg \<or> v_size vpi nxt \<noteq> 1 then None
           else if v_type vpi dati \<noteq> vpiNet \<or> v_size vpi dati \<noteq> 8 then None
           else if v_type vpi dato \<noteq> vpiReg \<or> v_size vpi dato \<noteq> 8 then None
           else Some
             \<lparr>s_clock = clock, s_rst_n = rst_n, s_dir = dir, s_nxt = nxt, s_stp = stp, s_dati = dati,
              s_dato = dato, s_tick_ns = 0, s_t_recip = 0, s_cycle = 0, s_bus = bus_zero,
              s_phy = phy_zero, s_host = usbh_init (addr 1) host_zero, s_sync_flag = 0, s_test_curr = 0,
              s_test_step = 0, s_tests = ut_tests rnd (addr 9, addr 14, addr 33), s_op = UT_PowerOn, s_finish = False\<rparr>)
      | _ \<Rightarrow> None)"

text \<open>\<open>ut_calltf\<close>, which also asks for \<open>cb_step_clock\<close> at each change of the clock.\<close>

definition ut_calltf :: "vpi \<Rightarrow> ut_state_t option \<Rightarrow> ut_state_t option" where
  "ut_calltf vpi data = map_option (\<lambda>state. state\<lparr>s_t_recip := t_recip_of (v_prec vpi)\<rparr>) data"

subsection \<open>Sampling and driving\<close>

definition ut_fetch_bus :: "vpi \<Rightarrow> ut_state_t \<Rightarrow> ut_state_t" where
  "ut_fetch_bus vpi state = state\<lparr>s_bus :=
     \<lparr>u_clock = scalar_of vpi (s_clock state), u_rst_n = scalar_of vpi (s_rst_n state),
      u_dir = scalar_of vpi (s_dir state), u_stp = scalar_of vpi (s_stp state),
      u_nxt = scalar_of vpi (s_nxt state), u_data = byte_of vpi (s_dati state)\<rparr>\<rparr>"

text \<open>
  The data is compared with what was sampled from \<open>dati\<close>, and driven through \<open>dato\<close>.
\<close>

definition ut_update_bus_state :: "ut_state_t \<Rightarrow> ulpi_bus_t \<Rightarrow> put list \<times> ut_state_t" where
  "ut_update_bus_state state nxt =
     (let curr = s_bus state in
      (put_bit (s_dir state) (u_dir curr) (u_dir nxt) @ put_bit (s_nxt state) (u_nxt curr) (u_nxt nxt) @
         put_byte (s_dato state) (u_data curr) (u_data nxt),
       state\<lparr>s_phy := (s_phy state)\<lparr>phy_bus := nxt\<rparr>\<rparr>))"

definition ut_set_phy_idle :: "ut_state_t \<Rightarrow> put list" where
  "ut_set_phy_idle state = [PutScalar (s_dir state) SIG0, PutScalar (s_nxt state) SIG0]"

subsection \<open>Steps\<close>

type_synonym ut_result = "(int \<times> ut_state_t \<times> ulpi_bus_t) outcome"

definition ut_failed :: "ut_state_t \<Rightarrow> ulpi_bus_t \<Rightarrow> ut_result" where
  "ut_failed state nxt = Inr (-1, state\<lparr>s_finish := True\<rparr>, nxt)"

text \<open>
  \<open>stim_step\<close>; a failing PHY step returns \<open>ut_error(...)\<close>, which asks the simulator to stop
  and is 0. \<open>next\<close> already holds a copy of \<open>curr\<close>.
\<close>

definition stim_step :: "u32 \<Rightarrow> ut_state_t \<Rightarrow> ut_result" where
  "stim_step rnd state =
     (let phy = s_phy state; host = s_host state; curr = s_bus state in
      if p_speed (phy_state phy) < HighSpeed \<or> p_op (phy_state phy) \<noteq> PhyIdle then
        bind_c (uphy_step phy curr) (\<lambda>(result, phy, nxt).
          let host = host\<lparr>h_cycle := h_cycle host + 1\<rparr>;
              host = (if result > 0 then host\<lparr>h_op := HostIdle\<rparr> else host);
              state = state\<lparr>s_phy := phy, s_host := host\<rparr> in
          if result < 0 then Inr (0, state\<lparr>s_finish := True\<rparr>, nxt) else Inr (result, state, nxt))
      else
        bind_c (usbh_step rnd host curr) (\<lambda>(result, host, nxt).
          Inr (result, state\<lparr>s_host := host\<rparr>, nxt)))"

definition test_step :: "env_t \<Rightarrow> ut_state_t \<Rightarrow> (int \<times> ut_state_t) outcome" where
  "test_step env state =
     (if s_test_curr state < int (length (s_tests state)) then
        bind_c (aget (s_tests state) (s_test_curr state)) (\<lambda>test.
        case test of
          None \<Rightarrow> Inl Null_Pointer
        | Some test \<Rightarrow>
            let first = (s_test_step state = 0);
                state = state\<lparr>s_test_step := s_test_step state + 1\<rparr> in
            bind_c (if first then test_init env (s_host state) test
                    else test_advance env (s_host state) test) (\<lambda>(result, host, test).
            let state = state\<lparr>s_host := host,
                  s_tests := (s_tests state)[nat (s_test_curr state) := Some test]\<rparr> in
            if result < 0 then Inr (-1, state\<lparr>s_finish := True\<rparr>)
            else if result > 0 then
              Inr (result, state\<lparr>s_test_step := 0, s_test_curr := s_test_curr state + 1\<rparr>)
            else Inr (0, state)))
      else Inr (2, state))"

definition ut_step :: "env_t \<Rightarrow> ut_state_t \<Rightarrow> ut_result" where
  "ut_step env state =
     (let state = state\<lparr>s_cycle := s_cycle state + 1\<rparr>;
          host = s_host state; curr = s_bus state; nxt = curr in
      case s_op state of
        UT_PowerOn \<Rightarrow>
          Inr (0, state\<lparr>s_host := host\<lparr>h_cycle := h_cycle host + 1\<rparr>, s_op := UT_StartUp\<rparr>, nxt)
      | UT_StartUp \<Rightarrow>
          bind_c (stim_step (env_rand env 0) state) (\<lambda>(result, state, nxt).
            if result < 0 then ut_failed state nxt
            else Inr (0, if result > 0 then state\<lparr>s_op := UT_Idle\<rparr> else state, nxt))
      | UT_Idle \<Rightarrow>
          (if \<not> ulpi_bus_is_idle curr then
             bind_c (usbh_step (env_rand env 0) host curr) (\<lambda>(result, host, nxt).
               let state = state\<lparr>s_host := host\<rparr> in
               if result < 0 then ut_failed state nxt else Inr (0, state, nxt))
           else
             bind_c (test_step env (state\<lparr>s_host := host\<lparr>h_cycle := h_cycle host + 1\<rparr>\<rparr>))
               (\<lambda>(result, state).
               if result < 0 then ut_failed state nxt
               else if result > 1 then Inr (0, state\<lparr>s_op := UT_Done\<rparr>, nxt)
               else if result > 0 then Inr (0, state, nxt)
               else Inr (0, state\<lparr>s_op := UT_Test\<rparr>, nxt)))
      | UT_Test \<Rightarrow>
          bind_c (usbh_step (env_rand env 0) host curr) (\<lambda>(result, host, nxt).
            let state = state\<lparr>s_host := host\<rparr> in
            if result < 0 then ut_failed state nxt
            else Inr (0, if result > 0 then state\<lparr>s_op := UT_Idle\<rparr> else state, nxt))
      | UT_Done \<Rightarrow> Inr (1, state, nxt))"

text \<open>
  \<open>cb_step_sync\<close>: the state machine steps on the sampled bus, and the new bus is driven. A state
  that is done only asks the simulator to stop.
\<close>

definition cb_step_sync :: "env_t \<Rightarrow> ut_state_t \<Rightarrow> (put list \<times> ut_state_t) outcome" where
  "cb_step_sync env state =
     (if s_op state = UT_Done then
        Inr ([], state\<lparr>s_cycle := s_cycle state + 1, s_finish := True\<rparr>)
      else
        bind_c (ut_step env state) (\<lambda>(result, state, nxt).
          let (puts, state) = ut_update_bus_state state nxt in
          Inr (puts, state\<lparr>s_sync_flag := 0\<rparr>)))"

text \<open>
  \<open>cb_step_clock\<close>: at a posedge of the clock the time and the bus are taken, and \<open>True\<close> stands for
  the request that \<open>cb_step_sync\<close> be called when the other events of this time are done.
\<close>

definition cb_step_clock :: "vpi \<Rightarrow> ut_state_t \<Rightarrow> (bool \<times> ut_state_t) outcome" where
  "cb_step_clock vpi state =
     (if v_int vpi (s_clock state) \<noteq> 1 then Inr (False, state)
      else
        bind_c (tick_of vpi (s_t_recip state)) (\<lambda>tick_ns.
          Inr (True, (ut_fetch_bus vpi (state\<lparr>s_tick_ns := tick_ns\<rparr>))\<lparr>s_sync_flag := 1\<rparr>)))"

text \<open>The simulator at a change of the clock: both callbacks, in this order.\<close>

definition clock_event :: "env_t \<Rightarrow> vpi \<Rightarrow> ut_state_t \<Rightarrow> (put list \<times> ut_state_t) outcome" where
  "clock_event env vpi state =
     bind_c (cb_step_clock vpi state) (\<lambda>(sync, state).
       if sync then cb_step_sync env state else Inr ([], state))"

end
