(* ===== verification/Tc_Complete.thy ===== *)
theory Tc_Complete
  imports Ulpisim
begin

text \<open>
  The life of a test-case in the registry: as its constructor leaves it, running after its
  \<open>init\<close>, completed by the step that returns 1. What the constructor was given (an address, a
  configuration, an end-point) is kept all the time.
\<close>

subsection \<open>The three parts of the life of a test-case\<close>

text \<open>A test-case that may be initialised: no stage of it has been run.\<close>

fun tc_fresh :: "testcase_t \<Rightarrow> bool" where
  "tc_fresh (TcGetconf d) = (c_stage d = 0)"
| "tc_fresh (TcGetstrs d) = (c_stage d = 0)"
| "tc_fresh (TcDdr3in d) = (di_iter d = 0)"
| "tc_fresh (TcDdr3out d) = (do_iter d = 0)"
| "tc_fresh (TcParity d) = (pa_stage d = 0)"
| "tc_fresh _ = True"

text \<open>The second test-case is the first one at work: it has stages, packets or commands still to run.\<close>

primrec tc_running :: "testcase_t \<Rightarrow> testcase_t \<Rightarrow> bool" where
  "tc_running (TcGetdesc d) t =
     (case t of TcGetdesc e \<Rightarrow> e \<noteq> CtrlDone | _ \<Rightarrow> False)"
| "tc_running (TcGetconf d) t =
     (case t of TcGetconf e \<Rightarrow> c_step e \<noteq> CtrlDone \<and> c_stage e < 3 | _ \<Rightarrow> False)"
| "tc_running (TcGetstrs d) t =
     (case t of TcGetstrs e \<Rightarrow> c_step e \<noteq> CtrlDone \<and> c_stage e < 5 | _ \<Rightarrow> False)"
| "tc_running (TcSetaddr d) t =
     (case t of TcSetaddr e \<Rightarrow> sa_stage e \<noteq> CtrlDone \<and> sa_addr e = sa_addr d | _ \<Rightarrow> False)"
| "tc_running (TcSetconf d) t =
     (case t of TcSetconf e \<Rightarrow> sc_stage e \<noteq> CtrlDone \<and> sc_conf e = sc_conf d | _ \<Rightarrow> False)"
| "tc_running (TcWaitsof d) t = (case t of TcWaitsof e \<Rightarrow> e = WaitIdle | _ \<Rightarrow> False)"
| "tc_running (TcBulkin d) t =
     (case t of TcBulkin e \<Rightarrow> bi_step e \<noteq> BINDone \<and> bi_ep e = bi_ep d | _ \<Rightarrow> False)"
| "tc_running (TcBulkout d) t =
     (case t of TcBulkout e \<Rightarrow> e \<noteq> BulkDone | _ \<Rightarrow> False)"
| "tc_running (TcDdr3in d) t =
     (case t of TcDdr3in e \<Rightarrow> di_step e \<noteq> DDR3InEnd \<and> di_iter e < 6 \<and> di_addr e = di_addr d \<and> di_id e = di_id d | _ \<Rightarrow> False)"
| "tc_running (TcDdr3out d) t =
     (case t of TcDdr3out e \<Rightarrow> do_step e \<noteq> DDR3OutEnd \<and> do_iter e < 7 \<and> do_addr e = do_addr d | _ \<Rightarrow> False)"
| "tc_running (TcParity d) t =
     (case t of TcParity e \<Rightarrow> pa_step e \<noteq> DonePar \<and> pa_stage e < 3 | _ \<Rightarrow> False)"

text \<open>
  The second test-case is the first one at its end: in its final state, with all its stages run (the three
  descriptors, the four strings and the status, the three faults of the parity test) and all its commands and
  answers counted.
\<close>

primrec tc_completed :: "testcase_t \<Rightarrow> testcase_t \<Rightarrow> bool" where
  "tc_completed (TcGetdesc d) t = (case t of TcGetdesc e \<Rightarrow> e = CtrlDone | _ \<Rightarrow> False)"
| "tc_completed (TcGetconf d) t =
     (case t of TcGetconf e \<Rightarrow> c_step e = CtrlDone \<and> c_stage e = 3 | _ \<Rightarrow> False)"
| "tc_completed (TcGetstrs d) t =
     (case t of TcGetstrs e \<Rightarrow> c_step e = CtrlDone \<and> c_stage e = 5 | _ \<Rightarrow> False)"
| "tc_completed (TcSetaddr d) t =
     (case t of TcSetaddr e \<Rightarrow> sa_stage e = CtrlDone \<and> sa_addr e = sa_addr d | _ \<Rightarrow> False)"
| "tc_completed (TcSetconf d) t =
     (case t of TcSetconf e \<Rightarrow> sc_stage e = CtrlDone \<and> sc_conf e = sc_conf d | _ \<Rightarrow> False)"
| "tc_completed (TcWaitsof d) t = (case t of TcWaitsof e \<Rightarrow> e = WaitDone | _ \<Rightarrow> False)"
| "tc_completed (TcBulkin d) t =
     (case t of TcBulkin e \<Rightarrow> bi_step e = BINDone \<and> bi_ep e = bi_ep d | _ \<Rightarrow> False)"
| "tc_completed (TcBulkout d) t = (case t of TcBulkout e \<Rightarrow> e = BulkDone | _ \<Rightarrow> False)"
| "tc_completed (TcDdr3in d) t =
     (case t of TcDdr3in e \<Rightarrow> di_step e = DDR3InEnd \<and> di_iter e = 6 \<and> di_addr e = di_addr d \<and> di_id e = di_id d | _ \<Rightarrow> False)"
| "tc_completed (TcDdr3out d) t =
     (case t of TcDdr3out e \<Rightarrow> do_step e = DDR3OutEnd \<and> do_iter e = 7 \<and> do_addr e = do_addr d | _ \<Rightarrow> False)"
| "tc_completed (TcParity d) t =
     (case t of TcParity e \<Rightarrow> pa_step e = DonePar \<and> pa_stage e = 3 | _ \<Rightarrow> False)"

lemma completed_not_running: "tc_completed t t' \<Longrightarrow> \<not> tc_running t t'"
  by (cases t; cases t') auto

text \<open>The registry that \<open>ut_compiletf\<close> builds has sixteen fresh test-cases.\<close>

lemma registry_fresh: "list_all (\<lambda>t. \<exists>d. t = Some d \<and> tc_fresh d) (ut_tests rnd bufs)" "length (ut_tests rnd bufs) = 16"
  by (simp_all add: ut_tests_def test_setaddr_def test_setconf_def test_getconf_def test_getstrs_def
    test_ddr3in_def test_ddr3out_def test_parity_def)

subsection \<open>Calls\<close>

text \<open>A next stage that is not the last is still below the bound.\<close>

lemma stage_bound: "(s :: u8) < n \<Longrightarrow> \<not> s + 1 < n \<Longrightarrow> s + 1 = n"
  by (metis inc_le order_le_less)

lemma as_tc_returns: "returns P (as_tc c m) = returns (\<lambda>(r, h, d). P (r, h, c d)) m"
  by (simp add: as_tc_def split_def)

lemma stage_cases:
  "(s :: u8) < 3 \<Longrightarrow> s = 0 \<or> s = 1 \<or> s = 2"
  "(s :: u8) < 5 \<Longrightarrow> s = 0 \<or> s = 1 \<or> s = 2 \<or> s = 3 \<or> s = 4"
  by (simp_all add: word_less_nat_alt word_unat_eq_iff, presburger+)

lemma getconf_init_runs: "c_stage c < 3 \<Longrightarrow>
  returns (\<lambda>(r, h', e). r \<le> 0 \<and> c_step e = SendSETUP \<and> c_stage e = c_stage c) (tc_getconf_init h c)"
  using stage_cases(1) [of "c_stage c"]
  by (auto simp: tc_getconf_init_def init_result_def ctrl_reset_def Let_def split_beta)

lemma getstrs_init_runs: "c_stage c < 5 \<Longrightarrow>
  returns (\<lambda>(r, h', e). r \<le> 0 \<and> c_step e = SendSETUP \<and> c_stage e = c_stage c) (tc_getstrs_init addr h c)"
  using stage_cases(2) [of "c_stage c"]
  by (auto simp: tc_getstrs_init_def init_result_def ctrl_reset_def Let_def split_beta)

lemma parity_init_runs: "pa_stage p < 3 \<Longrightarrow>
  returns (\<lambda>(r, h', e). r \<le> 0 \<and> pa_step e = ParIN0 \<and> pa_stage e = pa_stage p) (tc_parity_init rnd h p)"
  by (auto simp: tc_parity_init_def Let_def)

text \<open>\<open>init\<close> of a fresh test-case leaves it running, and never claims that it is complete.\<close>

lemma test_init_runs:
  assumes "tc_fresh t"
  shows "returns (\<lambda>(r, h', t'). r \<le> 0 \<and> tc_running t t') (test_init env h t)"
proof (cases t)
  case (TcGetconf d)
  then show ?thesis using assms returns_mono [OF getconf_init_runs [of d h]] by (fastforce simp: as_tc_returns)
next
  case (TcGetstrs d)
  then show ?thesis using assms returns_mono [OF getstrs_init_runs [of d "env_addr env" h]]
    by (fastforce simp: as_tc_returns)
next
  case (TcParity d)
  then show ?thesis using assms returns_mono [OF parity_init_runs [of d "env_rand env" h]]
    by (fastforce simp: as_tc_returns)
qed (use assms in \<open>auto simp: as_tc_returns split_beta Let_def tc_getdesc_init_def tc_setaddr_init_def
  tc_setconf_init_def tc_waitsof_init_def tc_bulkin_init_def tc_bulkout_init_def tc_ddr3in_init_def
  tc_ddr3out_init_def\<close>)

text \<open>A step returns 1 exactly with the test-case at its end.\<close>

definition step_runs :: "testcase_t \<Rightarrow> int \<times> usb_host_t \<times> testcase_t \<Rightarrow> bool" where
  "step_runs t = (\<lambda>(r, h', t'). if r > 0 then tc_completed t t' else tc_running t t')"

lemma ctrl_advance_runs: "st \<noteq> RecvACK1 \<Longrightarrow> st \<noteq> CtrlDone \<Longrightarrow> fst (ctrl_advance st h) \<noteq> CtrlDone"
  by (cases st) simp_all

lemma getconf_step_runs:
  assumes "c_step e \<noteq> CtrlDone" and "c_stage e < 3"
  shows "returns (\<lambda>(r, h', e'). if r > 0 then c_step e' = CtrlDone \<and> c_stage e' = 3
    else c_step e' \<noteq> CtrlDone \<and> c_stage e' < 3) (tc_getconf_step h e)"
proof (cases "c_step e = RecvACK1")
  case False
  with ctrl_advance_runs [OF False assms(1), of h] assms show ?thesis
    by (simp add: tc_getconf_step_def Let_def split_def)
next
  case True
  let ?e = "e\<lparr>c_stage := c_stage e + 1\<rparr>" and ?h = "(next_step h)\<lparr>h_op := HostIdle\<rparr>"
  show ?thesis
  proof (cases "c_stage e + 1 < 3")
    case False
    with True stage_bound [OF assms(2)] show ?thesis by (simp add: tc_getconf_step_def Let_def)
  next
    case less: True
    then have "c_stage ?e < 3" by simp
    from getconf_init_runs [OF this, of ?h] True less show ?thesis
      by (cases "tc_getconf_init ?h ?e") (simp_all add: tc_getconf_step_def Let_def split_def)
  qed
qed

lemma getstrs_step_runs:
  assumes "c_step e \<noteq> CtrlDone" and "c_stage e < 5"
  shows "returns (\<lambda>(r, h', e'). if r > 0 then c_step e' = CtrlDone \<and> c_stage e' = 5
    else c_step e' \<noteq> CtrlDone \<and> c_stage e' < 5) (tc_getstrs_step addr h e)"
proof (cases "c_step e = RecvACK1")
  case False
  with ctrl_advance_runs [OF False assms(1), of h] assms show ?thesis
    by (simp add: tc_getstrs_step_def Let_def split_def)
next
  case True
  let ?e = "e\<lparr>c_stage := c_stage e + 1\<rparr>" and ?h = "(next_step h)\<lparr>h_op := HostIdle\<rparr>"
  show ?thesis
  proof (cases "c_stage e + 1 < 5")
    case False
    with True stage_bound [OF assms(2)] show ?thesis by (simp add: tc_getstrs_step_def Let_def)
  next
    case less: True
    then have "c_stage ?e < 5" by simp
    from getstrs_init_runs [OF this, of addr ?h] True less show ?thesis
      by (cases "tc_getstrs_init addr ?h ?e") (simp_all add: tc_getstrs_step_def Let_def split_def)
  qed
qed

lemma parity_step_runs:
  assumes "pa_step e \<noteq> DonePar" and "pa_stage e < 3"
  shows "returns (\<lambda>(r, h', e'). if r > 0 then pa_step e' = DonePar \<and> pa_stage e' = 3
    else pa_step e' \<noteq> DonePar \<and> pa_stage e' < 3) (tc_parity_step rnd h e)"
proof (cases "pa_step e = ParOUT1")
  case False
  with assms show ?thesis by (cases "pa_step e") (simp_all add: tc_parity_step_def)
next
  case True
  let ?e = "e\<lparr>pa_stage := pa_stage e + 1\<rparr>"
  show ?thesis
  proof (cases "pa_stage e + 1 < 3")
    case False
    with True stage_bound [OF assms(2)] show ?thesis by (simp add: tc_parity_step_def Let_def)
  next
    case less: True
    then have "pa_stage ?e < 3" by simp
    from parity_init_runs [OF this, of rnd "host_idle h"] True less show ?thesis
      by (cases "tc_parity_init rnd (host_idle h) ?e") (simp_all add: tc_parity_step_def Let_def split_def)
  qed
qed

lemma setup_step_runs:
  "sa_stage e \<noteq> CtrlDone \<Longrightarrow> returns (\<lambda>(r, h', e'). (r > 0 \<longleftrightarrow> sa_stage e' = CtrlDone) \<and> sa_addr e' = sa_addr e)
    (tc_setaddr_step h e)"
  "sc_stage f \<noteq> CtrlDone \<Longrightarrow> returns (\<lambda>(r, h', f'). (r > 0 \<longleftrightarrow> sc_stage f' = CtrlDone) \<and> sc_conf f' = sc_conf f)
    (tc_setconf_step h f)"
  by (cases "sa_stage e"; simp add: tc_setaddr_step_def) (cases "sc_stage f"; simp add: tc_setconf_step_def)

lemma bulk_step_runs:
  "bi_step e \<noteq> BINDone \<Longrightarrow> returns (\<lambda>(r, h', e'). (r > 0 \<longleftrightarrow> bi_step e' = BINDone) \<and> bi_ep e' = bi_ep e)
    (tc_bulkin_step h e)"
  "st \<noteq> BulkDone \<Longrightarrow> returns (\<lambda>(r, h', st'). r > 0 \<longleftrightarrow> st' = BulkDone) (tc_bulkout_step rnd h st)"
  by (cases "bi_step e"; simp add: tc_bulkin_step_def) (cases st; simp add: tc_bulkout_step_def)

lemma ddr3in_step_runs:
  assumes "di_step d \<noteq> DDR3InEnd" and "di_iter d < 6"
  shows "returns (\<lambda>(r, h', d'). di_addr d' = di_addr d \<and> di_id d' = di_id d \<and>
      (if r > 0 then di_step d' = DDR3InEnd \<and> di_iter d' = 6 else di_step d' \<noteq> DDR3InEnd \<and> di_iter d' < 6))
    (tc_ddr3in_step h d)"
proof (cases "di_iter d + 1 < 6")
  case True
  moreover have "\<not> 6 \<le> di_iter d + 1" using True by (simp only: not_le)
  ultimately show ?thesis using assms(1) by (cases "di_step d") (simp_all add: tc_ddr3in_step_def Let_def)
next
  case False
  then show ?thesis using assms(1) stage_bound [OF assms(2) False]
    by (cases "di_step d") (simp_all add: tc_ddr3in_step_def Let_def)
qed

lemma ddr3out_step_runs:
  assumes "do_step e \<noteq> DDR3OutEnd" and "do_iter e < 7"
  shows "returns (\<lambda>(r, h', e'). do_addr e' = do_addr e \<and>
      (if r > 0 then do_step e' = DDR3OutEnd \<and> do_iter e' = 7 else do_step e' \<noteq> DDR3OutEnd \<and> do_iter e' < 7))
    (tc_ddr3out_step rnd h e)"
proof (cases "do_iter e + 1 < 7")
  case True
  then show ?thesis using assms(1) by (cases "do_step e") (simp_all add: tc_ddr3out_step_def Let_def)
next
  case False
  then show ?thesis using assms(1) stage_bound [OF assms(2) False]
    by (cases "do_step e") (simp_all add: tc_ddr3out_step_def Let_def)
qed

lemma getdesc_step_runs:
  "e \<noteq> CtrlDone \<Longrightarrow> returns (\<lambda>(r, h', e'). r > 0 \<longleftrightarrow> e' = CtrlDone) (tc_getdesc_step h e)"
  using ctrl_advance_runs [of e h] by (simp add: tc_getdesc_step_def Let_def split_def)

lemma waitsof_step_runs: "returns (\<lambda>(r, h', w). r > 0 \<longleftrightarrow> w = WaitDone) (tc_waitsof_step h WaitIdle)"
  by (simp add: tc_waitsof_step_def)

lemma step_runsI:
  assumes "returns P m"
    and "\<And>r h e. P (r, h, e) \<Longrightarrow> if r > 0 then tc_completed t (c e) else tc_running t (c e)"
  shows "returns (step_runs t) (as_tc c m)"
  unfolding as_tc_returns by (rule returns_mono [OF assms(1)]) (auto simp: step_runs_def dest!: assms(2))

lemma test_advance_runs:
  assumes "tc_running t t'"
  shows "returns (step_runs t) (test_advance env h t')"
proof (cases t)
  case (TcGetdesc d)
  then show ?thesis using assms by (cases t') (auto intro!: step_runsI [OF getdesc_step_runs])
next
  case (TcGetconf d)
  then show ?thesis using assms
    by (cases t') (auto intro!: step_runsI [OF getconf_step_runs] split: if_splits)
next
  case (TcGetstrs d)
  then show ?thesis using assms
    by (cases t') (auto intro!: step_runsI [OF getstrs_step_runs] split: if_splits)
next
  case (TcSetaddr d)
  then show ?thesis using assms by (cases t') (auto intro!: step_runsI [OF setup_step_runs(1)])
next
  case (TcSetconf d)
  then show ?thesis using assms by (cases t') (auto intro!: step_runsI [OF setup_step_runs(2)])
next
  case (TcWaitsof d)
  then show ?thesis using assms
    by (cases t') (auto intro!: step_runsI [OF waitsof_step_runs] intro: waitsof_state_t.exhaust)
next
  case (TcBulkin d)
  then show ?thesis using assms by (cases t') (auto intro!: step_runsI [OF bulk_step_runs(1)])
next
  case (TcBulkout d)
  then show ?thesis using assms by (cases t') (auto intro!: step_runsI [OF bulk_step_runs(2)])
next
  case (TcDdr3in d)
  then show ?thesis using assms
    by (cases t') (auto intro!: step_runsI [OF ddr3in_step_runs] split: if_splits)
next
  case (TcDdr3out d)
  then show ?thesis using assms
    by (cases t') (auto intro!: step_runsI [OF ddr3out_step_runs] split: if_splits)
next
  case (TcParity d)
  then show ?thesis using assms
    by (cases t') (auto intro!: step_runsI [OF parity_step_runs] split: if_splits)
qed

end
