(* ===== verification/Ulpiphy_Props.thy ===== *)
theory Ulpiphy_Props
  imports Ulpiphy
begin

text \<open>
  What the PHY of \<open>src/vpi/usb/ulpiphy.c\<close> does over several clocks: the register
  transactions, the start-up delay, and the chirps of the high-speed negotiation. Each claim
  runs \<open>uphy_step\<close> on the bus values a link drives.
\<close>

text \<open>A clock cycle of the bus, out of reset.\<close>

definition cycle :: "bit_t \<Rightarrow> bit_t \<Rightarrow> bit_t \<Rightarrow> u8 \<Rightarrow> u8 \<Rightarrow> ulpi_bus_t" where
  "cycle dir nxt stp a b = \<lparr>u_clock = SIG1, u_rst_n = SIG1, u_dir = dir, u_stp = stp, u_nxt = nxt,
     u_data = \<lparr>byte_a = a, byte_b = b\<rparr>\<rparr>"

abbreviation quiet :: ulpi_bus_t where "quiet \<equiv> cycle SIG0 SIG0 SIG0 0x00 0x00"

lemma cycle_fields [simp]:
  "u_clock (cycle d n s a b) = SIG1" "u_rst_n (cycle d n s a b) = SIG1"
  "u_dir (cycle d n s a b) = d" "u_nxt (cycle d n s a b) = n" "u_stp (cycle d n s a b) = s"
  "data_a (cycle d n s a b) = a" "data_b (cycle d n s a b) = b"
  by (simp_all add: cycle_def)

lemma cycle_updates [simp]:
  "cycle d n s a b\<lparr>u_dir := d'\<rparr> = cycle d' n s a b"
  "cycle d n s a b\<lparr>u_nxt := n'\<rparr> = cycle d n' s a b"
  "set_a a' (cycle d n s a b) = cycle d n s a' b"
  "set_b b' (cycle d n s a b) = cycle d n s a b'"
  by (simp_all add: cycle_def set_a_def set_b_def)

lemma cycle_idle [simp]:
  "ulpi_bus_is_idle (cycle d n s a b) \<longleftrightarrow> a = 0 \<and> b = 0 \<and> d = SIG0 \<and> n = SIG0 \<and> s = SIG0"
  by (simp add: ulpi_bus_is_idle_def)

primrec phy_run :: "ulpi_bus_t list \<Rightarrow> ulpi_phy_t \<Rightarrow> ((int \<times> ulpi_bus_t) list \<times> ulpi_phy_t) outcome" where
  "phy_run [] phy = Inr ([], phy)"
| "phy_run (i # is) phy =
     bind_c (uphy_step phy i) (\<lambda>(r, phy, out).
     bind_c (phy_run is phy) (\<lambda>(outs, phy). Inr ((r, out) # outs, phy)))"

lemma phy_run_append:
  "phy_run (is @ js) phy =
     bind_c (phy_run is phy) (\<lambda>(outs, phy).
     bind_c (phy_run js phy) (\<lambda>(outs', phy). Inr (outs @ outs', phy)))"
  by (induction "is" arbitrary: phy) (auto simp: bind_c_def split: sum.splits prod.splits)

text \<open>The PHY is well formed when its register file has the ten registers of the structure.\<close>

definition phy_ok :: "ulpi_phy_t \<Rightarrow> bool" where
  "phy_ok phy \<longleftrightarrow> length (p_regs (phy_state phy)) = 10"

definition phy_at_rest :: "ulpi_phy_t \<Rightarrow> bool" where
  "phy_at_rest phy \<longleftrightarrow> phy_ok phy \<and> p_op (phy_state phy) = PhyIdle \<and> phy_bus phy = quiet"

text \<open>The outcome of a completed clock: 1 in high speed while idle.\<close>

definition high_speed :: "u8 \<Rightarrow> int" where
  "high_speed speed = of_bool (speed = HighSpeed)"

lemma uphy_done_eq:
  "uphy_done phy out = Inr (if p_op (phy_state phy) = PhyIdle then high_speed (p_speed (phy_state phy)) else 0,
     phy\<lparr>phy_bus := out\<rparr>, out)"
  by (simp add: uphy_done_def high_speed_def)

subsection \<open>Register transactions\<close>

text \<open>
  The link's side of a register write: the TX CMD, held until \<open>NXT\<close> has been seen, the value,
  then \<open>STP\<close>, and an idle clock. Of a read: the TX CMD and the turn-around of the bus.
\<close>

definition write_cycles :: "u8 \<Rightarrow> u8 \<Rightarrow> ulpi_bus_t list" where
  "write_cycles r v = [cycle SIG0 SIG0 SIG0 (0x80 OR r) 0x00, cycle SIG0 SIG1 SIG0 (0x80 OR r) 0x00,
     cycle SIG0 SIG1 SIG0 v 0x00, cycle SIG0 SIG0 SIG1 0x00 0x00, quiet]"

definition read_cycles :: "u8 \<Rightarrow> ulpi_bus_t list" where
  "read_cycles r = [cycle SIG0 SIG0 SIG0 (0xC0 OR r) 0x00, cycle SIG0 SIG1 SIG0 (0xC0 OR r) 0x00,
     cycle SIG1 SIG0 SIG0 0x00 0xFF, cycle SIG1 SIG1 SIG0 0x00 0x00, quiet]"

lemma reg_take: "r < 0x40 \<Longrightarrow> take_bit 6 r = (r :: u8)"
  by (rule word_uint_eqI) (simp add: unsigned_take_bit_eq take_bit_int_eq_self word_less_def)

lemma reg_bits:
  fixes r :: u8
  assumes "r < 0x40"
  shows "(0x80 OR r) AND 0xC0 = 0x80" "(0xC0 OR r) AND 0xC0 = 0xC0"
    "(0x80 OR r) AND 0x3F = r" "(0xC0 OR r) AND 0x3F = r" "0x80 OR r \<noteq> 0" "0xC0 OR r \<noteq> 0"
proof -
  have "take_bit 6 r = r"
    using assms by (simp add: reg_take)
  then have low: "r AND 0x3F = r" by (simp add: take_bit_eq_mask mask_eq_exp_minus_1)
  then have high: "r AND 0xC0 = 0" using and.assoc [of r "0x3F" "0xC0"] by simp
  show "(0x80 OR r) AND 0xC0 = 0x80" "(0xC0 OR r) AND 0xC0 = 0xC0"
      "(0x80 OR r) AND 0x3F = r" "(0xC0 OR r) AND 0x3F = r"
    by (simp_all add: bit.conj_disj_distrib2 low high)
  then show "0x80 OR r \<noteq> 0" "0xC0 OR r \<noteq> 0" by auto
qed

lemma aput_uint: "aput xs (uint (r :: u8)) v =
    (if unat r < length xs then Inr (xs[unat r := v]) else Inl Out_Of_Bounds)"
  and aget_uint: "aget xs (uint r) =
    (if unat r < length xs then Inr (xs ! unat r) else Inl Out_Of_Bounds)"
  by (simp_all add: aput_def aget_def flip: unat_eq_nat_uint)

text \<open>One clock out of reset, by the operation in progress.\<close>

lemma step_cycle:
  "uphy_step phy (cycle d n s a b) = (let inb = cycle d n s a b; st = phy_state phy in
     case p_op st of
       PowerOn \<Rightarrow> uphy_done phy inb
     | RefClkValid \<Rightarrow>
         uphy_done (if a = 0 \<and> b = 0 then upd_state (\<lambda>s. s\<lparr>p_timer := 0, p_op := Starting\<rparr>) phy else phy) inb
     | Starting \<Rightarrow> uphy_starting phy inb inb
     | WaitForIdle \<Rightarrow>
         (if ulpi_bus_is_idle inb then uphy_done (set_op PhyIdle phy) inb
          else uphy_done phy (cycle SIG0 SIG0 s 0x00 0xFF))
     | StatusRXCMD \<Rightarrow> uphy_status phy inb
     | PhyIdle \<Rightarrow> uphy_idle phy inb inb
     | PhyREGW \<Rightarrow>
         (if b = 0 then uphy_done (set_op PhyREGI phy) (cycle d SIG1 s a b)
          else Inr (-1, set_op Undefined phy, inb))
     | PhyREGI \<Rightarrow>
         (if b = 0 then
            (if unat (p_regnum st) < length (p_regs st) then
               uphy_done (upd_state (\<lambda>s. s\<lparr>p_update := of_bool (p_regnum s = UPHY_REG_FN_CTRL),
                 p_regs := (p_regs s)[unat (p_regnum s) := a], p_op := PhyStop\<rparr>) phy)
                 (cycle SIG0 SIG0 s a b)
             else Inl Out_Of_Bounds)
          else Inr (-1, set_op Undefined phy, inb))
     | PhyStop \<Rightarrow>
         (if d = SIG0 \<and> n = SIG0 then
            (if s = SIG1 then uphy_done (set_op PhyIdle phy) inb
             else Inr (-1, set_op Undefined phy, inb))
          else Inl Assert_Failed)
     | PhyREGR \<Rightarrow> uphy_done (set_op PhyREGZ phy) (cycle SIG1 SIG0 s 0x00 0xFF)
     | PhyREGZ \<Rightarrow>
         (if unat (p_regnum st) < length (p_regs st)
          then uphy_done (set_op PhyREGO phy) (cycle SIG1 SIG1 s (p_regs st ! unat (p_regnum st)) 0x00)
          else Inl Out_Of_Bounds)
     | PhyREGO \<Rightarrow> uphy_done (set_op PhyIdle phy) (cycle SIG0 SIG0 s 0x00 0xFF)
     | PhySend \<Rightarrow> uphy_done phy inb
     | PhyRecv \<Rightarrow> uphy_done phy inb
     | PhyChirpK \<Rightarrow>
         (let timer = p_timer st + 1; phy = upd_state (\<lambda>s. s\<lparr>p_timer := timer\<rparr>) phy in
          if s = SIG1 \<and> timer > UPHY_CHIRPK_TIMER then
            uphy_done
              (upd_state (\<lambda>s. s\<lparr>p_op := WaitForIdle, p_update := 1, p_speed := HostChirpK1\<rparr>) phy)
              (cycle SIG0 SIG0 s a b)
          else uphy_done phy inb)
     | _ \<Rightarrow> Inr (-1, set_op Undefined phy, inb))"
  by (cases "p_op (phy_state phy)")
    (simp_all add: uphy_step_def uphy_command_def assert_c_def aput_uint aget_uint Let_def upd_state_def)

lemmas phy_clock = step_cycle uphy_done_eq set_op_def upd_state_def uphy_idle_def uphy_txcmd_step_def Let_def

lemma reg_write:
  assumes "phy_at_rest phy" and "r < 10"
  shows "phy_run (write_cycles r v) phy = Inr (
     [(0, cycle SIG0 SIG1 SIG0 (0x80 OR r) 0x00), (0, cycle SIG0 SIG1 SIG0 (0x80 OR r) 0x00),
      (0, cycle SIG0 SIG0 SIG0 v 0x00),
      (high_speed (p_speed (phy_state phy)), cycle SIG0 SIG0 SIG1 0x00 0x00),
      (high_speed (p_speed (phy_state phy)), quiet)],
     upd_state (\<lambda>s. s\<lparr>p_regnum := r, p_update := of_bool (r = UPHY_REG_FN_CTRL),
       p_regs := (p_regs s)[unat r := v]\<rparr>) phy)"
proof -
  from assms(2) have "r < 0x40" and r: "unat r < 10" by (auto simp: word_less_nat_alt)
  note b = reg_bits [OF this(1)]
  obtain tm rx regs reg up sp bus x where
    phy: "phy = \<lparr>phy_state = \<lparr>p_timer = tm, p_op = PhyIdle, p_rx_cmd = rx, p_regs = regs,
      p_regnum = reg, p_update = up, p_speed = sp\<rparr>, phy_bus = quiet, phy_xfer = x\<rparr>" and
    l: "length regs = 10"
    using assms(1) by (cases phy; cases "phy_state phy") (auto simp: phy_at_rest_def phy_ok_def)
  show ?thesis by (simp add: write_cycles_def phy phy_clock b r l)
qed

lemma reg_read:
  assumes "phy_at_rest phy" and "r < 10"
  shows "phy_run (read_cycles r) phy = Inr (
     [(0, cycle SIG0 SIG1 SIG0 (0xC0 OR r) 0x00), (0, cycle SIG1 SIG0 SIG0 0x00 0xFF),
      (0, cycle SIG1 SIG1 SIG0 (p_regs (phy_state phy) ! unat r) 0x00),
      (high_speed (p_speed (phy_state phy)), cycle SIG0 SIG0 SIG0 0x00 0xFF),
      (high_speed (p_speed (phy_state phy)), quiet)],
     upd_state (\<lambda>s. s\<lparr>p_regnum := r\<rparr>) phy)"
proof -
  from assms(2) have "r < 0x40" and r: "unat r < 10" by (auto simp: word_less_nat_alt)
  note b = reg_bits [OF this(1)]
  obtain tm rx regs reg up sp bus x where
    phy: "phy = \<lparr>phy_state = \<lparr>p_timer = tm, p_op = PhyIdle, p_rx_cmd = rx, p_regs = regs,
      p_regnum = reg, p_update = up, p_speed = sp\<rparr>, phy_bus = quiet, phy_xfer = x\<rparr>" and
    l: "length regs = 10"
    using assms(1) by (cases phy; cases "phy_state phy") (auto simp: phy_at_rest_def phy_ok_def)
  show ?thesis by (simp add: read_cycles_def phy phy_clock b r l)
qed

lemma reg_write_rest:
  assumes "phy_at_rest phy"
  shows "phy_at_rest (upd_state (\<lambda>s. s\<lparr>p_regnum := r, p_update := u, p_regs := (p_regs s)[i := v]\<rparr>) phy)"
  using assms by (simp add: phy_at_rest_def phy_ok_def)

text \<open>
  (C34) Register access: a value the link writes to one of the ten registers is read back, and a
  read of another register returns what that register held. The PHY ends at rest, with only this
  register changed, and reports its status next exactly when the register was function control.
\<close>

theorem reg_write_read:
  assumes "phy_at_rest phy" and "w < 10" and "r < 10"
  shows "\<exists>outs phy'. phy_run (write_cycles w v @ read_cycles r) phy = Inr (outs, phy') \<and>
    u_dir (snd (outs ! 7)) = SIG1 \<and>
    data_a (snd (outs ! 7)) = (if r = w then v else p_regs (phy_state phy) ! unat r) \<and>
    phy_at_rest phy' \<and> p_regs (phy_state phy') = (p_regs (phy_state phy))[unat w := v] \<and>
    p_update (phy_state phy') = of_bool (w = UPHY_REG_FN_CTRL)"
proof -
  let ?phy = "upd_state (\<lambda>s. s\<lparr>p_regnum := w, p_update := of_bool (w = UPHY_REG_FN_CTRL),
    p_regs := (p_regs s)[unat w := v]\<rparr>) phy"
  have rest: "phy_at_rest ?phy" by (rule reg_write_rest [OF assms(1)])
  have "unat w < 10" using assms(2) by (simp add: word_less_nat_alt)
  moreover have "unat r = unat w \<longleftrightarrow> r = w" by (simp add: word_unat_eq_iff)
  ultimately show ?thesis
    using assms(1) rest
    by (auto simp: phy_run_append reg_write [OF assms(1,2)] reg_read [OF rest assms(3)]
        nth_list_update phy_at_rest_def phy_ok_def)
qed

lemma reg_fault:
  assumes "phy_at_rest phy" and "10 \<le> r" and "r < 0x40"
  shows "phy_run (write_cycles r v) phy = Inl Out_Of_Bounds"
    and "phy_run (read_cycles r) phy = Inl Out_Of_Bounds"
proof -
  from assms(2) have r: "\<not> unat r < 10" by (simp add: word_le_nat_alt)
  note b = reg_bits [OF assms(3)]
  obtain tm rx regs reg up sp bus x where
    phy: "phy = \<lparr>phy_state = \<lparr>p_timer = tm, p_op = PhyIdle, p_rx_cmd = rx, p_regs = regs,
      p_regnum = reg, p_update = up, p_speed = sp\<rparr>, phy_bus = quiet, phy_xfer = x\<rparr>" and
    l: "length regs = 10"
    using assms(1) by (cases phy; cases "phy_state phy") (auto simp: phy_at_rest_def phy_ok_def)
  show "phy_run (write_cycles r v) phy = Inl Out_Of_Bounds"
    by (simp add: write_cycles_def phy phy_clock b r l)
  show "phy_run (read_cycles r) phy = Inl Out_Of_Bounds"
    by (simp add: read_cycles_def phy phy_clock b r l)
qed

text \<open>
  (C36) The register number is six bits wide and not checked: an access to any register from 10
  to 63 leaves the array \<open>regs\<close>, on a write as on a read.
\<close>

theorem reg_out_of_bounds:
  assumes "phy_at_rest phy" and "10 \<le> r" and "r < 0x40"
  shows "phy_run (write_cycles r v) phy = Inl Out_Of_Bounds \<and>
    phy_run (read_cycles r) phy = Inl Out_Of_Bounds"
  using reg_fault [OF assms] by simp

text \<open>A PHY after power-on, at rest.\<close>

definition phy_example :: ulpi_phy_t where
  "phy_example = \<lparr>phy_state = \<lparr>p_timer = 0, p_op = PhyIdle, p_rx_cmd = 0x4C,
     p_regs = ULPI_REG_DEFAULTS, p_regnum = 0, p_update = 0, p_speed = FullSpeed\<rparr>,
     phy_bus = quiet, phy_xfer = xfer_zero\<rparr>"

lemma phy_example_rest: "phy_at_rest phy_example"
  by (simp add: phy_at_rest_def phy_ok_def phy_example_def ULPI_REG_DEFAULTS_def)

lemma reg_write_read_witness:
  "\<exists>outs phy'. phy_run (write_cycles 4 0x54 @ read_cycles 4) phy_example = Inr (outs, phy') \<and>
    data_a (snd (outs ! 7)) = 0x54 \<and> p_update (phy_state phy') = 1"
  using reg_write_read [OF phy_example_rest, of 4 4 "0x54"] by fastforce

lemma reg_out_of_bounds_witness:
  "phy_run (write_cycles 10 0xFF) phy_example = Inl Out_Of_Bounds \<and>
    phy_run (read_cycles 10) phy_example = Inl Out_Of_Bounds"
  by (rule reg_out_of_bounds [OF phy_example_rest]) simp_all

subsection \<open>Start-up\<close>

lemma starting_clock:
  assumes "p_op (phy_state phy) = Starting" and "p_timer (phy_state phy) = of_nat k" and "k \<le> 150"
  shows "uphy_step phy quiet = Inr (if k < 150 then 0 else high_speed (p_speed (phy_state phy)),
    (upd_state (\<lambda>s. s\<lparr>p_timer := of_nat (Suc k), p_op := if k < 150 then Starting else PhyIdle\<rparr>) phy)
      \<lparr>phy_bus := quiet\<rparr>, quiet)"
proof -
  have "(of_nat k :: u32) + 1 > 150 \<longleftrightarrow> \<not> k < 150"
    using assms(3) by (auto simp: word_less_nat_alt unat_word_ariths unat_of_nat)
  then show ?thesis using assms(1,2)
    by (cases phy; cases "phy_state phy") (simp add: phy_clock uphy_starting_def add.commute)
qed

text \<open>What start-up keeps, and how far it has come.\<close>

definition started :: "ulpi_phy_t \<Rightarrow> nat \<Rightarrow> ulpi_phy_t \<Rightarrow> bool" where
  "started phy k phy' \<longleftrightarrow> p_op (phy_state phy') = (if k \<le> 150 then Starting else PhyIdle) \<and>
     p_timer (phy_state phy') = of_nat k \<and> phy_bus phy' = quiet \<and>
     p_regs (phy_state phy') = p_regs (phy_state phy) \<and>
     p_rx_cmd (phy_state phy') = p_rx_cmd (phy_state phy)"

lemma starting_run:
  "started phy k phy' \<Longrightarrow> k + n \<le> 151 \<Longrightarrow>
     \<exists>outs phy''. phy_run (replicate n quiet) phy' = Inr (outs, phy'') \<and> started phy (k + n) phy''"
proof (induction n arbitrary: k phy')
  case 0
  then show ?case by simp
next
  case (Suc n)
  let ?phy = "(upd_state (\<lambda>s. s\<lparr>p_timer := of_nat (Suc k),
    p_op := if k < 150 then Starting else PhyIdle\<rparr>) phy')\<lparr>phy_bus := quiet\<rparr>"
  from Suc.prems have "started phy (Suc k) ?phy" by (auto simp: started_def)
  then obtain outs phy'' where
      "phy_run (replicate n quiet) ?phy = Inr (outs, phy'')" "started phy (Suc k + n) phy''"
    using Suc.IH [of "Suc k" ?phy] Suc.prems by auto
  moreover have "uphy_step phy' quiet =
      Inr (if k < 150 then 0 else high_speed (p_speed (phy_state phy')), ?phy, quiet)"
    by (rule starting_clock) (use Suc.prems in \<open>auto simp: started_def\<close>)
  ultimately show ?case by simp
qed

text \<open>
  (C35) Power-on: a reset clock and then a bus at SE0 bring the PHY to rest after exactly 152
  clocks, the register file at its defaults, whatever \<open>malloc\<close> gave \<open>phy_init\<close>.
\<close>

theorem power_on:
  assumes "u_clock i = SIG1" and "u_rst_n i = SIG0" and "u_dir i = SIG0" and "u_nxt i = SIG0"
    and "n \<le> 152"
  shows "\<exists>outs phy. phy_run (i # replicate n quiet) (phy_init junk) = Inr (outs, phy) \<and>
    p_op (phy_state phy) = (if n = 0 then RefClkValid else if n < 152 then Starting else PhyIdle) \<and>
    p_regs (phy_state phy) = ULPI_REG_DEFAULTS \<and> p_rx_cmd (phy_state phy) = 0x4C \<and>
    (phy_at_rest phy \<longleftrightarrow> n = 152)"
proof -
  let ?phy = "(upd_state (\<lambda>s. s\<lparr>p_op := RefClkValid\<rparr>) (uphy_reset (phy_init junk)))
    \<lparr>phy_bus := i\<lparr>u_dir := SIG0, u_nxt := SIG0\<rparr>\<rparr>"
  have reset: "\<exists>out. uphy_step (phy_init junk) i = Inr (0, ?phy, out)"
    using assms by (simp add: uphy_step_def set_op_def uphy_done_def uphy_reset_def upd_state_def phy_init_def Let_def)
  show ?thesis
  proof (cases n)
    case 0
    then show ?thesis using reset
      by (auto simp: uphy_reset_def phy_at_rest_def)
  next
    case (Suc m)
    let ?phy1 = "(upd_state (\<lambda>s. s\<lparr>p_timer := 0, p_op := Starting\<rparr>) ?phy)\<lparr>phy_bus := quiet\<rparr>"
    have first: "uphy_step ?phy quiet = Inr (0, ?phy1, quiet)"
      by (simp add: phy_clock)
    have "started ?phy1 0 ?phy1" by (simp add: started_def)
    with starting_run [of ?phy1 0 ?phy1 m] obtain outs phy where
        run: "phy_run (replicate m quiet) ?phy1 = Inr (outs, phy)" "started ?phy1 m phy"
      using Suc assms(5) by auto
    have "length ULPI_REG_DEFAULTS = 10" by (simp add: ULPI_REG_DEFAULTS_def)
    then show ?thesis
      using reset first run Suc assms(5)
      by (auto simp: started_def uphy_reset_def phy_at_rest_def phy_ok_def)
  qed
qed

lemma power_on_witness:
  "\<exists>outs phy. phy_run (bus_zero\<lparr>u_clock := SIG1\<rparr> # replicate 152 quiet) (phy_init phy_example) = Inr (outs, phy) \<and>
    phy_at_rest phy"
  using power_on [of "bus_zero\<lparr>u_clock := SIG1\<rparr>" 152 phy_example] by (auto simp: bus_zero_def)

subsection \<open>High-speed negotiation\<close>

text \<open>
  The PHY and a link at rest: while the PHY drives the bus the link keeps \<open>STP\<close> low, and from
  the clock after \<open>DIR\<close> falls it drives zero. The values are the RX CMDs the PHY has sent, the
  PHY and the next bus values.
\<close>

definition link_rest :: "ulpi_bus_t \<Rightarrow> ulpi_bus_t" where
  "link_rest out = (if u_dir out = SIG0 then quiet else out\<lparr>u_stp := SIG0\<rparr>)"

definition rx_cmds :: "ulpi_bus_t \<Rightarrow> u8 list" where
  "rx_cmds out = (if u_dir out = SIG1 \<and> data_b out = 0x00 then [data_a out] else [])"

primrec phy_link ::
  "nat \<Rightarrow> ulpi_phy_t \<Rightarrow> ulpi_bus_t \<Rightarrow> (u8 list \<times> ulpi_phy_t \<times> ulpi_bus_t) outcome" where
  "phy_link 0 phy inb = Inr ([], phy, inb)"
| "phy_link (Suc n) phy inb =
     bind_c (uphy_step phy inb) (\<lambda>(_, phy, out).
     bind_c (phy_link n phy (link_rest out)) (\<lambda>(cmds, phy, inb). Inr (rx_cmds out @ cmds, phy, inb)))"

lemma phy_link_add:
  "phy_link (m + n) phy inb =
     bind_c (phy_link m phy inb) (\<lambda>(cmds, phy, inb).
     bind_c (phy_link n phy inb) (\<lambda>(cmds', phy, inb). Inr (cmds @ cmds', phy, inb)))"
  by (induction m arbitrary: phy inb) (auto simp: bind_c_def split: sum.splits prod.splits)

lemma cycle_stp [simp]: "cycle d n s a b\<lparr>u_stp := s'\<rparr> = cycle d n s' a b"
  by (simp add: cycle_def)

text \<open>A PHY in the midst of the chirps: everything but its timer, update flag, speed and RX CMD.\<close>

definition chirping :: "u8 list \<Rightarrow> u8 \<Rightarrow> transfer_t \<Rightarrow> phy_op \<Rightarrow> u32 \<Rightarrow> u8 \<Rightarrow> u8 \<Rightarrow> u8 \<Rightarrow> ulpi_phy_t" where
  "chirping regs regnum x op timer rx update speed =
     \<lparr>phy_state = \<lparr>p_timer = timer, p_op = op, p_rx_cmd = rx, p_regs = regs, p_regnum = regnum,
        p_update = update, p_speed = speed\<rparr>, phy_bus = quiet, phy_xfer = x\<rparr>"

definition line_state :: "u8 \<Rightarrow> u8" where
  "line_state speed = (if speed = HighSpeed then 0
     else if speed \<in> {HostChirpK1, HostChirpK2, HostChirpK3} then 1 else 2)"

text \<open>Four clocks report the line state and come back to rest.\<close>

lemma chirp_report:
  assumes "regs ! 4 AND 0x1C = 0x14" and "u \<noteq> 0"
    and "sp \<in> {HostChirpK1, HostChirpJ1, HostChirpK2, HostChirpJ2, HostChirpK3, HostChirpJ3, HighSpeed}"
  shows "phy_link 4 (chirping regs reg x PhyIdle tm rx u sp) quiet =
    Inr ([(rx AND 0xFC) OR line_state sp],
      chirping regs reg x PhyIdle 0 ((rx AND 0xFC) OR line_state sp) 0 sp, quiet)"
proof -
  have "chirp_status \<lparr>p_timer = tm, p_op = StatusRXCMD, p_rx_cmd = rx, p_regs = regs, p_regnum = reg,
      p_update = u, p_speed = sp\<rparr> =
    Some \<lparr>p_timer = 0, p_op = StatusRXCMD, p_rx_cmd = (rx AND 0xFC) OR line_state sp, p_regs = regs,
      p_regnum = reg, p_update = u, p_speed = sp\<rparr>"
    using assms(3) by (elim insertE emptyE) (simp_all add: chirp_status_def line_state_def Let_def)
  moreover have four: "(4::nat) = Suc (Suc (Suc (Suc 0)))" by simp
  ultimately show ?thesis
    using assms(1,2)
    by (subst four) (simp add: chirping_def phy_clock uphy_status_def ulpi_phy_is_chirp_def
        link_rest_def rx_cmds_def)
qed

text \<open>Then the host holds each line state for thirty clocks.\<close>

lemma chirp_hold:
  assumes "sp > FuncChirpK" and "sp < HighSpeed" and "k + n \<le> 30" and "k < 30"
  shows "phy_link n (chirping regs reg x PhyIdle (of_nat k) rx 0 sp) quiet =
    Inr ([], if k + n < 30 then chirping regs reg x PhyIdle (of_nat (k + n)) rx 0 sp
       else chirping regs reg x PhyIdle 30 rx 1 (sp + 1), quiet)"
  using assms(3,4)
proof (induction n arbitrary: k)
  case 0
  then show ?case by simp
next
  case (Suc n)
  have t: "(of_nat k :: u32) + 1 \<ge> 30 \<longleftrightarrow> Suc k = 30"
    using Suc.prems by (auto simp: word_le_nat_alt unat_word_ariths unat_of_nat)
  have "uphy_step (chirping regs reg x PhyIdle (of_nat k) rx 0 sp) quiet =
      Inr (if Suc k < 30 then 0 else high_speed (sp + 1),
        if Suc k < 30 then chirping regs reg x PhyIdle (of_nat (Suc k)) rx 0 sp
        else chirping regs reg x PhyIdle 30 rx 1 (sp + 1), quiet)"
    using assms(1,2) t Suc.prems by (auto simp: chirping_def phy_clock high_speed_def add.commute)
  then show ?case using Suc.IH [of "Suc k"] Suc.prems
    by (cases "Suc k = 30") (simp_all add: link_rest_def rx_cmds_def)
qed


lemma chirp_phase:
  assumes "regs ! 4 AND 0x1C = 0x14" and "u \<noteq> 0"
    and "sp \<in> {HostChirpK1, HostChirpJ1, HostChirpK2, HostChirpJ2, HostChirpK3, HostChirpJ3}"
  shows "phy_link 34 (chirping regs reg x PhyIdle tm rx u sp) quiet =
    Inr ([(rx AND 0xFC) OR line_state sp],
      chirping regs reg x PhyIdle 30 ((rx AND 0xFC) OR line_state sp) 1 (sp + 1), quiet)"
proof -
  have "phy_link (4 + 30) (chirping regs reg x PhyIdle tm rx u sp) quiet =
    Inr ([(rx AND 0xFC) OR line_state sp],
      chirping regs reg x PhyIdle 30 ((rx AND 0xFC) OR line_state sp) 1 (sp + 1), quiet)"
    unfolding phy_link_add
    using assms chirp_hold [of sp 0 30 regs reg x "(rx AND 0xFC) OR line_state sp"]
    by (subst chirp_report) auto
  then show ?thesis by simp
qed

lemma line_state_mask [simp]: "((rx AND 0xFC) OR line_state sp) AND 0xFC = rx AND 0xFC"
  by (simp add: line_state_def bit.conj_disj_distrib2 and.assoc)

text \<open>The clocks of a phase: the report is on the bus after two, and the speed changes with the last.\<close>

lemma chirp_first:
  assumes "regs ! 4 AND 0x1C = 0x14" and "u \<noteq> 0" and "i < 4"
    and "sp \<in> {HostChirpK1, HostChirpJ1, HostChirpK2, HostChirpJ2, HostChirpK3, HostChirpJ3, HighSpeed}"
  shows "\<exists>phy b. phy_link i (chirping regs reg x PhyIdle tm rx u sp) quiet =
    Inr (if i < 2 then [] else [(rx AND 0xFC) OR line_state sp], phy, b) \<and> p_speed (phy_state phy) = sp"
proof -
  have status: "chirp_status \<lparr>p_timer = tm, p_op = StatusRXCMD, p_rx_cmd = rx, p_regs = regs, p_regnum = reg,
      p_update = u, p_speed = sp\<rparr> =
    Some \<lparr>p_timer = 0, p_op = StatusRXCMD, p_rx_cmd = (rx AND 0xFC) OR line_state sp, p_regs = regs,
      p_regnum = reg, p_update = u, p_speed = sp\<rparr>"
    using assms(4) by (elim insertE emptyE) (simp_all add: chirp_status_def line_state_def Let_def)
  have "i = 0 \<or> i = Suc 0 \<or> i = Suc (Suc 0) \<or> i = Suc (Suc (Suc 0))" using assms(3) by linarith
  then show ?thesis
    using assms(1,2)
    by (elim disjE) (simp_all add: status chirping_def phy_clock uphy_status_def ulpi_phy_is_chirp_def
      link_rest_def rx_cmds_def)
qed

lemma chirp_within:
  assumes "regs ! 4 AND 0x1C = 0x14" and "u \<noteq> 0" and "i < 34"
    and "sp \<in> {HostChirpK1, HostChirpJ1, HostChirpK2, HostChirpJ2, HostChirpK3, HostChirpJ3}"
  shows "\<exists>phy b. phy_link i (chirping regs reg x PhyIdle tm rx u sp) quiet =
    Inr (if i < 2 then [] else [(rx AND 0xFC) OR line_state sp], phy, b) \<and> p_speed (phy_state phy) = sp"
proof -
  have all: "sp \<in> {HostChirpK1, HostChirpJ1, HostChirpK2, HostChirpJ2, HostChirpK3, HostChirpJ3, HighSpeed}"
    using assms(4) by blast
  show ?thesis
  proof (cases "i < 4")
    case True
    then show ?thesis using chirp_first [OF assms(1,2) _ all] by blast
  next
    case False
    then obtain n where n: "i = 4 + n" "n < 30" using assms(3) le_Suc_ex [of 4 i] by auto
    have sp: "sp > FuncChirpK" "sp < HighSpeed" using assms(4) by auto
    show ?thesis
      unfolding n(1) phy_link_add chirp_report [OF assms(1,2) all]
      using chirp_hold [OF sp, of 0 n regs reg x "(rx AND 0xFC) OR line_state sp"] n(2)
      by (simp add: chirping_def)
  qed
qed

text \<open>The seven line states of the negotiation: K-J-K-J-K-J, then high speed.\<close>

definition chirp_states :: "u8 \<Rightarrow> u8 list" where
  "chirp_states rx = map (\<lambda>l. (rx AND 0xFC) OR l) [1, 2, 1, 2, 1, 2, 0]"

lemma chirp_states_nth: "j \<le> 6 \<Longrightarrow> chirp_states rx ! j = (rx AND 0xFC) OR line_state (3 + of_nat j)"
proof -
  assume "j \<le> 6"
  then consider "j = 0" | "j = 1" | "j = 2" | "j = 3" | "j = 4" | "j = 5" | "j = 6" by linarith
  then show ?thesis by cases (simp_all add: chirp_states_def line_state_def)
qed

lemma chirp_speed_cases: "j < 6 \<Longrightarrow>
  (3 + of_nat j :: u8) \<in> {HostChirpK1, HostChirpJ1, HostChirpK2, HostChirpJ2, HostChirpK3, HostChirpJ3}"
proof -
  assume "j < 6"
  then consider "j = 0" | "j = 1" | "j = 2" | "j = 3" | "j = 4" | "j = 5" by linarith
  then show ?thesis by cases simp_all
qed

lemma chirp_phases:
  assumes "regs ! 4 AND 0x1C = 0x14" and "u \<noteq> 0" and "j \<le> 6"
  shows "\<exists>tm' rx' u'. phy_link (34 * j) (chirping regs reg x PhyIdle tm rx u HostChirpK1) quiet =
    Inr (take j (chirp_states rx), chirping regs reg x PhyIdle tm' rx' u' (3 + of_nat j), quiet) \<and>
    rx' AND 0xFC = rx AND 0xFC \<and> u' \<noteq> 0"
  using assms(3)
proof (induction j)
  case 0
  then show ?case using assms(2) by auto
next
  case (Suc j)
  then obtain tm' rx' u' where IH: "phy_link (34 * j) (chirping regs reg x PhyIdle tm rx u HostChirpK1) quiet =
      Inr (take j (chirp_states rx), chirping regs reg x PhyIdle tm' rx' u' (3 + of_nat j), quiet)"
    "rx' AND 0xFC = rx AND 0xFC" "u' \<noteq> 0" by auto
  have "length (chirp_states rx) = 7" by (simp add: chirp_states_def)
  then have "take (Suc j) (chirp_states rx) = take j (chirp_states rx) @ [(rx' AND 0xFC) OR line_state (3 + of_nat j)]"
    using Suc.prems chirp_states_nth [of j rx] IH(2) by (simp add: take_Suc_conv_app_nth)
  moreover have n: "34 * Suc j = 34 * j + 34" by simp
  moreover have "(3 + of_nat j + 1 :: u8) = 3 + of_nat (Suc j)" by simp
  ultimately show ?case
    unfolding n phy_link_add IH(1)
    using chirp_phase [OF assms(1) IH(3) chirp_speed_cases, of j reg x tm' rx'] Suc.prems IH(2)
    by (intro exI [of _ 30] exI [of _ "(rx' AND 0xFC) OR line_state (3 + of_nat j)"] exI [of _ 1])
      (simp only: bind_c_simps prod.case simp_thms less_eq_Suc_le line_state_mask one_neq_zero not_False_eq_True)
qed

text \<open>At high speed the report comes after two clocks, the rest after four, and then nothing changes.\<close>

lemma high_speed_within:
  assumes "regs ! 4 AND 0x1C = 0x14" and "u \<noteq> 0"
  shows "\<exists>phy b. phy_link i (chirping regs reg x PhyIdle tm rx u HighSpeed) quiet =
    Inr (if i < 2 then [] else [rx AND 0xFC], phy, b) \<and> p_speed (phy_state phy) = HighSpeed"
proof (cases "i < 4")
  case True
  have "(rx AND 0xFC) OR line_state HighSpeed = rx AND 0xFC" by (simp add: line_state_def)
  then show ?thesis using chirp_first [OF assms True, of HighSpeed reg x tm rx] by (simp only: insert_iff simp_thms)
next
  case False
  then obtain n where n: "i = 4 + n" using le_Suc_ex [of 4 i] by auto
  let ?p = "chirping regs reg x PhyIdle 0 (rx AND 0xFC) 0 HighSpeed"
  have "phy_link n ?p quiet = Inr ([], ?p, quiet)" for n
    by (induction n) (simp_all add: chirping_def phy_clock high_speed_def link_rest_def rx_cmds_def)
  then show ?thesis
    unfolding n phy_link_add
    by (subst chirp_report [OF assms]) (simp_all add: line_state_def, simp add: chirping_def)
qed

text \<open>All clocks of the negotiation from the first report on.\<close>

lemma chirp_timeline:
  assumes "regs ! 4 AND 0x1C = 0x14" and "u \<noteq> 0"
  shows "\<exists>phy b. phy_link n (chirping regs reg x PhyIdle tm rx u HostChirpK1) quiet =
    Inr (take ((n + 32) div 34) (chirp_states rx), phy, b) \<and>
    p_speed (phy_state phy) = 3 + of_nat (min 6 (n div 34))"
proof -
  define j i where "j = min 6 (n div 34)" and "i = n - 34 * j"
  have n: "n = 34 * j + i" and j: "j \<le> 6" and i: "j < 6 \<Longrightarrow> i < 34"
    by (auto simp: j_def i_def min_def)
  obtain tm' rx' u' where ph: "phy_link (34 * j) (chirping regs reg x PhyIdle tm rx u HostChirpK1) quiet =
      Inr (take j (chirp_states rx), chirping regs reg x PhyIdle tm' rx' u' (3 + of_nat j), quiet)"
    "rx' AND 0xFC = rx AND 0xFC" "u' \<noteq> 0"
    using chirp_phases [OF assms j] by blast
  have "chirp_states rx ! j = (rx' AND 0xFC) OR line_state (3 + of_nat j)"
    using chirp_states_nth [OF j] ph(2) by simp
  moreover have "\<exists>phy b. phy_link i (chirping regs reg x PhyIdle tm' rx' u' (3 + of_nat j)) quiet =
      Inr (if i < 2 then [] else [(rx' AND 0xFC) OR line_state (3 + of_nat j)], phy, b) \<and>
      p_speed (phy_state phy) = 3 + of_nat j"
  proof (cases "j = 6")
    case True
    have "(rx' AND 0xFC) OR line_state HighSpeed = rx' AND 0xFC" by (simp add: line_state_def)
    moreover have "(3 + of_nat j :: u8) = HighSpeed" using True by simp
    ultimately show ?thesis using high_speed_within [OF assms(1) ph(3), of i reg x tm' rx'] by (simp only:)
  next
    case False
    then show ?thesis
      using j i chirp_within [OF assms(1) ph(3) _ chirp_speed_cases] by simp
  qed
  moreover have "take ((n + 32) div 34) (chirp_states rx) =
      take j (chirp_states rx) @ (if i < 2 then [] else [chirp_states rx ! j])"
  proof -
    have len: "length (chirp_states rx) = 7" by (simp add: chirp_states_def)
    have d: "(n + 32) div 34 = j + (i + 32) div 34" by (simp add: n add.assoc)
    consider "i < 2" | "2 \<le> i" "j < 6" | "2 \<le> i" "j = 6" using j by linarith
    then show ?thesis
    proof cases
      case 1
      then have "(i + 32) div 34 = 0" by simp
      then show ?thesis using 1 d by simp
    next
      case 2
      then have "(i + 32) div 34 = 1" using i by linarith
      then show ?thesis using 2 d len by (simp add: take_Suc_conv_app_nth)
    next
      case 3
      then have "7 \<le> (n + 32) div 34" using d by linarith
      then have "take ((n + 32) div 34) (chirp_states rx) = take (Suc j) (chirp_states rx)"
        using 3 len by simp
      also have "\<dots> = take j (chirp_states rx) @ [chirp_states rx ! j]"
        using 3 len by (intro take_Suc_conv_app_nth) simp
      finally show ?thesis using leD [OF 3(1)] by (simp only: if_False)
    qed
  qed
  moreover have "min 6 (n div 34) = j" by (simp add: j_def)
  ultimately show ?thesis
    unfolding n phy_link_add ph(1) by (auto simp flip: n)
qed

text \<open>
  The link's side of a chirp: the NOPID transmit command, \<open>k\<close> clocks in which it drives K, and
  \<open>STP\<close>.
\<close>

definition chirp_cycles :: "nat \<Rightarrow> ulpi_bus_t list" where
  "chirp_cycles k = [cycle SIG0 SIG0 SIG0 0x40 0x00] @ replicate k (cycle SIG0 SIG1 SIG0 0x00 0x00) @
     [cycle SIG0 SIG1 SIG1 0x00 0x00]"

lemma chirp_run:
  "p_op (phy_state phy) = PhyChirpK \<Longrightarrow>
    \<exists>outs. phy_run (replicate k (cycle SIG0 SIG1 SIG0 0x00 0x00)) phy = Inr (outs,
      if k = 0 then phy else (upd_state (\<lambda>s. s\<lparr>p_timer := p_timer s + of_nat k\<rparr>) phy)
        \<lparr>phy_bus := cycle SIG0 SIG1 SIG0 0x00 0x00\<rparr>)"
proof (induction k arbitrary: phy)
  case 0
  then show ?case by simp
next
  case (Suc k)
  let ?phy = "(upd_state (\<lambda>s. s\<lparr>p_timer := p_timer s + 1\<rparr>) phy)\<lparr>phy_bus := cycle SIG0 SIG1 SIG0 0x00 0x00\<rparr>"
  have "uphy_step phy (cycle SIG0 SIG1 SIG0 0x00 0x00) = Inr (0, ?phy, cycle SIG0 SIG1 SIG0 0x00 0x00)"
    using Suc.prems by (simp add: phy_clock)
  with Suc.IH [of ?phy] Suc.prems show ?case
    by (auto simp: upd_state_def add.assoc)
qed

lemma chirp_accepted:
  assumes "phy_at_rest phy" and "k < 2 ^ 32 - 1"
  shows "\<exists>outs phy'. phy_run (chirp_cycles k) phy = Inr (outs, phy') \<and>
    phy' = phy\<lparr>phy_state := (phy_state phy)\<lparr>p_timer := of_nat (Suc k),
        p_op := if 60 \<le> k then WaitForIdle else PhyChirpK,
        p_update := if 60 \<le> k then 1 else p_update (phy_state phy),
        p_speed := if 60 \<le> k then HostChirpK1 else FuncChirpK\<rparr>,
      phy_bus := if 60 \<le> k then cycle SIG0 SIG0 SIG1 0 0 else cycle SIG0 SIG1 SIG1 0 0\<rparr>"
proof -
  let ?phy = "upd_state (\<lambda>s. s\<lparr>p_op := PhyChirpK, p_timer := 0, p_speed := FuncChirpK\<rparr>) phy"
  have cmd: "uphy_step phy (cycle SIG0 SIG0 SIG0 0x40 0x00) = Inr (0, ?phy, cycle SIG0 SIG1 SIG0 0x40 0x00)"
    using assms(1) by (simp add: phy_at_rest_def phy_clock)
  obtain outs where hold: "phy_run (replicate k (cycle SIG0 SIG1 SIG0 0x00 0x00)) ?phy = Inr (outs,
      if k = 0 then ?phy else (upd_state (\<lambda>s. s\<lparr>p_timer := p_timer s + of_nat k\<rparr>) ?phy)
        \<lparr>phy_bus := cycle SIG0 SIG1 SIG0 0x00 0x00\<rparr>)"
    using chirp_run [of ?phy k] by auto
  have t: "(of_nat k :: u32) + 1 > 60 \<longleftrightarrow> 60 \<le> k"
    using assms(2) by (auto simp: word_less_nat_alt unat_word_ariths unat_of_nat)
  let ?hold = "if k = 0 then ?phy else (upd_state (\<lambda>s. s\<lparr>p_timer := p_timer s + of_nat k\<rparr>) ?phy)
    \<lparr>phy_bus := cycle SIG0 SIG1 SIG0 0x00 0x00\<rparr>"
  let ?bus = "if 60 \<le> k then cycle SIG0 SIG0 SIG1 0 0 else cycle SIG0 SIG1 SIG1 0 0"
  have stop: "uphy_step ?hold (cycle SIG0 SIG1 SIG1 0x00 0x00) =
    Inr (0, phy\<lparr>phy_state := (phy_state phy)\<lparr>p_timer := of_nat (Suc k),
        p_op := if 60 \<le> k then WaitForIdle else PhyChirpK,
        p_update := if 60 \<le> k then 1 else p_update (phy_state phy),
        p_speed := if 60 \<le> k then HostChirpK1 else FuncChirpK\<rparr>, phy_bus := ?bus\<rparr>, ?bus)"
    using t by (auto simp: phy_clock add.commute [of 1 "of_nat k"])
  show ?thesis
    unfolding chirp_cycles_def
    by (simp only: append.simps phy_run_append phy_run.simps cmd hold stop bind_c_simps prod.case
        Inr_inject Pair_inject) blast
qed

text \<open>How far the negotiation is \<open>n\<close> clocks after the \<open>STP\<close> of the chirp.\<close>

definition reports_after :: "nat \<Rightarrow> nat" where
  "reports_after n = (n + 31) div 34"

definition speed_after :: "nat \<Rightarrow> u8" where
  "speed_after n = HostChirpK1 + of_nat (min 6 ((n - 1) div 34))"

lemma speed_after_high: "speed_after n = HighSpeed \<longleftrightarrow> 205 \<le> n"
proof -
  have "(3 + of_nat j :: u8) = 9 \<longleftrightarrow> j = 6" if "j \<le> 6" for j :: nat
  proof (cases "j = 6")
    case False
    then have "j < 6" using that by simp
    from chirp_speed_cases [OF this] False show ?thesis by auto
  qed simp
  from this [of "min 6 ((n - 1) div 34)"] have "speed_after n = HighSpeed \<longleftrightarrow> min 6 ((n - 1) div 34) = 6"
    by (simp add: speed_after_def)
  also have "\<dots> \<longleftrightarrow> 205 \<le> n" by auto
  finally show ?thesis .
qed

lemma chirps_to_high_speed:
  assumes "phy_at_rest phy" and "p_regs (phy_state phy) ! 4 AND 0x1C = 0x14"
    and "60 \<le> k" and "k < 2 ^ 32 - 1"
  shows "\<exists>outs phy1 phy2. phy_run (chirp_cycles k) phy = Inr (outs, phy1) \<and>
    phy_link 209 phy1 quiet = Inr (chirp_states (p_rx_cmd (phy_state phy)), phy2, quiet) \<and>
    phy_at_rest phy2 \<and> p_speed (phy_state phy2) = HighSpeed \<and>
    uphy_step phy2 quiet = Inr (1, phy2, quiet) \<and>
    (\<forall>n. \<exists>phyn inb. phy_link n phy1 quiet =
        Inr (take (reports_after n) (chirp_states (p_rx_cmd (phy_state phy))), phyn, inb) \<and>
      p_speed (phy_state phyn) = speed_after n)"
proof -
  obtain tm rx regs reg up sp bus x where
    phy: "phy = chirping regs reg x PhyIdle tm rx up sp" and l: "length regs = 10"
    using assms(1)
    by (cases phy; cases "phy_state phy") (auto simp: phy_at_rest_def phy_ok_def chirping_def)
  let ?wait = "\<lparr>phy_state = \<lparr>p_timer = of_nat (Suc k), p_op = WaitForIdle, p_rx_cmd = rx, p_regs = regs,
      p_regnum = reg, p_update = 1, p_speed = HostChirpK1\<rparr>, phy_bus = cycle SIG0 SIG0 SIG1 0 0, phy_xfer = x\<rparr>"
  let ?start = "chirping regs reg x PhyIdle (of_nat (Suc k)) rx 1 HostChirpK1"
  obtain outs where run: "phy_run (chirp_cycles k) phy = Inr (outs, ?wait)"
    using chirp_accepted [OF assms(1,4)] assms(3) by (auto simp: phy chirping_def)
  have chirp: "regs ! 4 AND 0x1C = 0x14" using assms(2) by (simp add: phy chirping_def)
  have "uphy_step ?wait quiet = Inr (0, ?start, quiet)"
    by (simp add: phy_clock chirping_def high_speed_def)
  then have first: "phy_link (Suc n) ?wait quiet = phy_link n ?start quiet" for n
    by (cases "phy_link n ?start quiet") (auto simp: link_rest_def rx_cmds_def)
  obtain tm' rx' u' where ph: "phy_link 204 ?start quiet =
      Inr (take 6 (chirp_states rx), chirping regs reg x PhyIdle tm' rx' u' HighSpeed, quiet)"
    "rx' AND 0xFC = rx AND 0xFC" "u' \<noteq> 0"
  proof -
    have "34 * 6 = (204 :: nat)" "(3 + of_nat 6 :: u8) = 9" by simp_all
    with chirp_phases [OF chirp one_neq_zero order_refl, of reg x "of_nat (Suc k)" rx] that show thesis
      by (simp only:) blast
  qed
  let ?rest = "chirping regs reg x PhyIdle 0 (rx AND 0xFC) 0 HighSpeed"
  have "phy_link (204 + 4) ?start quiet = Inr (take 6 (chirp_states rx) @ [rx AND 0xFC], ?rest, quiet)"
    unfolding phy_link_add ph(1) using chirp_report [OF chirp ph(3), of HighSpeed reg x tm' rx'] ph(2)
    by (simp add: line_state_def)
  then have "phy_link 209 ?wait quiet = Inr (chirp_states rx, ?rest, quiet)"
    using first [of 208] by (simp add: chirp_states_def)
  moreover have "uphy_step ?rest quiet = Inr (1, ?rest, quiet)"
    by (simp add: phy_clock chirping_def high_speed_def)
  moreover have "\<exists>phyn inb. phy_link n ?wait quiet = Inr (take (reports_after n) (chirp_states rx), phyn, inb) \<and>
      p_speed (phy_state phyn) = speed_after n" for n
  proof (cases n)
    case 0
    then show ?thesis by (simp add: reports_after_def speed_after_def)
  next
    case (Suc m)
    then show ?thesis
      using chirp_timeline [OF chirp one_neq_zero, of m reg x "of_nat (Suc k)" rx]
      unfolding Suc first by (simp add: reports_after_def speed_after_def add.commute [of 32])
  qed
  ultimately show ?thesis
    using run l by (simp add: phy phy_at_rest_def phy_ok_def chirping_def)
qed

text \<open>
  (C33) High-speed negotiation: with function control set to chirp mode, a K chirp of at least 61
  clocks, ended by \<open>STP\<close>, makes the PHY report K-J-K-J-K-J and then high speed, each line state once and
  in this order. The times are exact: after any number of clocks the PHY has sent just the reports that
  are due, one every 34 clocks from the third on, and has the speed of the phase it is in, high speed from
  clock 205 on and not before. After 209 clocks it is at rest, and every idle clock returns 1.
\<close>

theorem chirp_negotiation:
  assumes "phy_at_rest phy" and "p_regs (phy_state phy) ! 4 AND 0x1C = 0x14"
    and "60 \<le> k" and "k < 2 ^ 32 - 1"
  shows "\<exists>outs phy1 phy2. phy_run (chirp_cycles k) phy = Inr (outs, phy1) \<and>
    phy_link 209 phy1 quiet =
      Inr (map (\<lambda>l. (p_rx_cmd (phy_state phy) AND 0xFC) OR l) [1, 2, 1, 2, 1, 2, 0], phy2, quiet) \<and>
    phy_at_rest phy2 \<and> p_speed (phy_state phy2) = HighSpeed \<and>
    uphy_step phy2 quiet = Inr (1, phy2, quiet) \<and>
    (\<forall>n. \<exists>phyn inb. phy_link n phy1 quiet =
        Inr (take ((n + 31) div 34)
          (map (\<lambda>l. (p_rx_cmd (phy_state phy) AND 0xFC) OR l) [1, 2, 1, 2, 1, 2, 0]), phyn, inb) \<and>
      p_speed (phy_state phyn) = HostChirpK1 + of_nat (min 6 ((n - 1) div 34)) \<and>
      (p_speed (phy_state phyn) = HighSpeed \<longleftrightarrow> 205 \<le> n))"
  using chirps_to_high_speed [OF assms] speed_after_high
  by (simp only: chirp_states_def reports_after_def speed_after_def) metis

definition phy_chirp_example :: ulpi_phy_t where
  "phy_chirp_example = upd_state (\<lambda>s. s\<lparr>p_regs := (p_regs s)[4 := 0x54]\<rparr>) phy_example"

lemma chirp_negotiation_witness:
  "\<exists>outs phy1 phy2. phy_run (chirp_cycles 60) phy_chirp_example = Inr (outs, phy1) \<and>
    phy_link 209 phy1 quiet = Inr ([0x4D, 0x4E, 0x4D, 0x4E, 0x4D, 0x4E, 0x4C], phy2, quiet) \<and>
    uphy_step phy2 quiet = Inr (1, phy2, quiet)"
proof -
  have "phy_at_rest phy_chirp_example" "p_regs (phy_state phy_chirp_example) ! 4 AND 0x1C = 0x14"
      "p_rx_cmd (phy_state phy_chirp_example) = 0x4C"
    using phy_example_rest
    by (simp_all add: phy_chirp_example_def phy_at_rest_def phy_ok_def phy_example_def ULPI_REG_DEFAULTS_def)
  then show ?thesis using chirp_negotiation [of phy_chirp_example 60] by fastforce
qed

text \<open>
  A chirp of at most 60 clocks is not enough: the PHY ignores its \<open>STP\<close> and still waits for
  the end of the chirp, at its chirp speed.
\<close>

lemma short_chirp_ignored:
  assumes "phy_at_rest phy" and "k < 60"
  shows "\<exists>outs phy'. phy_run (chirp_cycles k) phy = Inr (outs, phy') \<and>
    p_op (phy_state phy') = PhyChirpK \<and> p_speed (phy_state phy') = FuncChirpK \<and>
    p_regs (phy_state phy') = p_regs (phy_state phy)"
  using chirp_accepted [OF assms(1), of k] assms(2) by auto

lemma short_chirp_ignored_witness:
  "\<exists>outs phy'. phy_run (chirp_cycles 59) phy_example = Inr (outs, phy') \<and>
    p_op (phy_state phy') = PhyChirpK"
  using short_chirp_ignored [OF phy_example_rest, of 59] by auto

subsection \<open>The tests for a register command\<close>

text \<open>
  The tests for a register command do not test the command: a write is never recognised, and a
  read is taken from the lowest bit of the data, whatever the two command bits are.
\<close>

theorem reg_tests_misread:
  "\<not> ulpi_phy_is_reg_write phy inb \<and>
   (ulpi_phy_is_reg_read phy inb \<longleftrightarrow> ulpi_phy_is_idle phy \<and> u_rst_n inb = SIG1 \<and>
     u_dir inb = SIG0 \<and> data_b inb = 0x00 \<and> odd (data_a inb))"
proof -
  have "data_a inb AND 1 \<noteq> 0 \<longleftrightarrow> odd (data_a inb)"
    by (simp add: and_one_eq odd_iff_mod_2_eq_one)
  then show ?thesis
    by (auto simp: ulpi_phy_is_reg_write_def ulpi_phy_is_reg_read_def)
qed

end
