(* ===== verification/Ulpisim_Props.thy ===== *)
theory Ulpisim_Props
  imports Tc_Complete Usbhost_Props Ulpiphy_Props
begin

text \<open>
  The test-bench: what its test-cases may do to the host, which arguments it accepts, what it
  drives, and the states it can be in.
\<close>

subsection \<open>Test-cases and the host\<close>

text \<open>What a call of a test-case may change: not the clock, nor what no step of the host changes.\<close>

definition test_frame :: "usb_host_t \<Rightarrow> usb_host_t \<Rightarrow> bool" where
  "test_frame h h' \<longleftrightarrow> host_frame h h' \<and> h_cycle h' = h_cycle h"

definition call_post :: "usb_host_t \<Rightarrow> int \<times> usb_host_t \<times> 'd \<Rightarrow> bool" where
  "call_post h = (\<lambda>(r, h', d). -1 \<le> r \<and> r \<le> 1 \<and> test_frame h h')"

lemma test_frame_refl [simp]: "test_frame h h"
  by (simp add: test_frame_def)

lemma test_frame_trans: "test_frame h h1 \<Longrightarrow> test_frame h1 h2 \<Longrightarrow> test_frame h h2"
  using host_frame_trans by (auto simp: test_frame_def)

lemma test_frame_updates [simp]:
  "test_frame h (h'\<lparr>h_op := p\<rparr>) = test_frame h h'"
  "test_frame h (h'\<lparr>h_step := s\<rparr>) = test_frame h h'"
  "test_frame h (h'\<lparr>h_addr := a\<rparr>) = test_frame h h'"
  "test_frame h (next_step h') = test_frame h h'"
  "test_frame h (host_idle h') = test_frame h h'"
  "test_frame (h\<lparr>h_op := p\<rparr>) h' = test_frame h h'"
  "test_frame (next_step h) h' = test_frame h h'"
  "test_frame (host_idle h) h' = test_frame h h'"
  by (simp_all add: test_frame_def host_frame_def next_step_def host_idle_def)

lemma test_frame_xfer:
  "(arrays_ok (h_xfer h') \<Longrightarrow> arrays_ok x) \<Longrightarrow> test_frame h h' \<Longrightarrow> test_frame h (with_xfer h' x)"
  by (auto simp: test_frame_def host_frame_def)

lemma test_frame_seq [simp]: "test_frame h h' \<Longrightarrow> test_frame h (set_seq s h')"
  by (auto simp: set_seq_def set_seq0_def arrays_ok_def intro!: test_frame_xfer)

lemma test_frame_bulk [simp]: "test_frame h h' \<Longrightarrow> test_frame h (start_bulk op ty ep h')"
  by (simp add: start_bulk_def Let_def test_frame_xfer)

lemma copy_front_size: "copy_front src dst = Inr b \<Longrightarrow> length b = length dst"
  by (auto simp: copy_front_def split: if_splits)

lemma start_frame: "stdreq_start h req = Inr (r, h') \<Longrightarrow> r = 1 \<and> test_frame h h'"
  by (auto simp: stdreq_start_def Let_def bind_c_eq_Inr aput_eq_Inr dest!: copy_front_size
    intro!: test_frame_xfer) (auto simp: arrays_ok_def)

lemma requests_frame:
  "returns (\<lambda>(r, h'). -1 \<le> r \<and> r \<le> 1 \<and> test_frame h h') (stdreq_start h req)"
  "returns (\<lambda>(r, h'). -1 \<le> r \<and> r \<le> 1 \<and> test_frame h h') (stdreq_get_descriptor addr h num)"
  "returns (\<lambda>(r, h'). -1 \<le> r \<and> r \<le> 1 \<and> test_frame h h') (stdreq_get_status h)"
  "returns (\<lambda>(r, h'). -1 \<le> r \<and> r \<le> 1 \<and> test_frame h h') (stdreq_get_desc_device h)"
  "returns (\<lambda>(r, h'). -1 \<le> r \<and> r \<le> 1 \<and> test_frame h h') (stdreq_get_desc_config h len)"
  "returns (\<lambda>(r, h'). -1 \<le> r \<and> r \<le> 1 \<and> test_frame h h') (stdreq_set_address h a)"
  "returns (\<lambda>(r, h'). -1 \<le> r \<and> r \<le> 1 \<and> test_frame h h') (stdreq_set_config h c)"
proof -
  show start: "returns (\<lambda>(r, h'). -1 \<le> r \<and> r \<le> 1 \<and> test_frame h h') (stdreq_start h req)" for req
    using start_frame [of h req] by (cases "stdreq_start h req") auto
  show "returns (\<lambda>(r, h'). -1 \<le> r \<and> r \<le> 1 \<and> test_frame h h') (stdreq_get_descriptor addr h num)"
    "returns (\<lambda>(r, h'). -1 \<le> r \<and> r \<le> 1 \<and> test_frame h h') (stdreq_get_status h)"
    "returns (\<lambda>(r, h'). -1 \<le> r \<and> r \<le> 1 \<and> test_frame h h') (stdreq_get_desc_device h)"
    "returns (\<lambda>(r, h'). -1 \<le> r \<and> r \<le> 1 \<and> test_frame h h') (stdreq_get_desc_config h len)"
    "returns (\<lambda>(r, h'). -1 \<le> r \<and> r \<le> 1 \<and> test_frame h h') (stdreq_set_address h a)"
    "returns (\<lambda>(r, h'). -1 \<le> r \<and> r \<le> 1 \<and> test_frame h h') (stdreq_set_config h c)"
    using start by (simp_all add: stdreq_get_descriptor_def get_descriptor_def stdreq_get_status_def
      stdreq_get_desc_device_def stdreq_get_desc_config_def stdreq_set_address_def stdreq_set_config_def Let_def)
qed

lemma fill_size: "fill_rand rnd n a = Inr b \<Longrightarrow> length b = length a"
  using fill_rand_length [of a rnd n] by simp

lemma words_size: "fill_words rnd n a = Inr b \<Longrightarrow> length b = length a"
  by (induction n arbitrary: a rnd) (fastforce simp: bind_c_eq_Inr put_word_def le32_def split: if_splits)+

lemma crc_frame: "set_tx_crc n x = Inr y \<Longrightarrow> arrays_ok y = arrays_ok x"
  by (auto simp: set_tx_crc_def bind_c_eq_Inr)

lemma queued_frame:
  assumes "set_tx_crc n ((h_xfer (start_bulk op ty ep h))\<lparr>x_tx_len := m, x_tx_ptr := p, x_tx := tx\<rparr>) = Inr x"
    and "length tx = length (x_tx (h_xfer (start_bulk op ty ep h)))"
  shows "test_frame h (with_xfer (start_bulk op ty ep h) x)"
  using assms crc_frame [OF assms(1)] by (intro test_frame_xfer) (auto simp: arrays_ok_def)

lemma xfers_frame:
  "tc_bulkout_xfer rnd h n ep = Inr h' \<Longrightarrow> test_frame h h'"
  "tc_ddr3in_cmd h k st = Inr h' \<Longrightarrow> test_frame h h'"
  "tc_ddr3out_cmd rnd h k st' = Inr h' \<Longrightarrow> test_frame h h'"
  by (auto simp: tc_bulkout_xfer_def tc_ddr3in_cmd_def tc_ddr3out_cmd_def Let_def bind_c_eq_Inr
    dest!: fill_size words_size copy_front_size intro!: queued_frame)

lemma parity_frame: "tc_parity_xfer rnd h ep = Inr h' \<Longrightarrow> test_frame h h'"
proof (cases "ep = BULK_IN_EP")
  case True
  then show "tc_parity_xfer rnd h ep = Inr h' \<Longrightarrow> test_frame h h'"
    by (auto simp: tc_parity_xfer_def Let_def intro!: test_frame_xfer)
next
  case False
  then show "tc_parity_xfer rnd h ep = Inr h' \<Longrightarrow> test_frame h h'"
    by (auto simp: tc_parity_xfer_def Let_def bind_c_eq_Inr dest!: fill_size intro!: queued_frame)
qed

lemma adjust_frame: "adjust_host f h = Inr h' \<Longrightarrow> test_frame h h'"
proof -
  assume "adjust_host f h = Inr h'"
  then obtain x where x: "adjust f (h_xfer h) = Inr x" "h' = with_xfer h x"
    by (auto simp: adjust_host_def bind_c_eq_Inr)
  have "arrays_ok (h_xfer h) \<Longrightarrow> arrays_ok x"
    using x(1) transfer_ack_returns [of "h_xfer h"]
    by (cases f) (auto simp: adjust_seq_def adjust_crc_def adjust_ept_def transfer_tok_def Let_def split: if_splits)
  then show ?thesis using x(2) by (simp add: test_frame_xfer)
qed

lemma bulkin_frame [simp]: "test_frame h h' \<Longrightarrow> test_frame h (tc_bulkin_xfer h' ep)"
  by (simp add: tc_bulkin_xfer_def test_frame_xfer Let_def)

lemma advance_frame: "ctrl_advance st h = (st', h') \<Longrightarrow> test_frame h h'"
  by (cases st) (auto simp: next_step_def intro!: test_frame_xfer)

text \<open>Calls whose value is a host, or a result and a host.\<close>

lemma host_then:
  assumes "\<And>h'. m = Inr h' \<Longrightarrow> test_frame g h'" and "\<And>h'. test_frame g h' \<Longrightarrow> returns P (k h')"
  shows "returns P (bind_c m k)"
  using assms by (cases m) auto

lemma request_then:
  assumes "returns (\<lambda>(r, h'). -1 \<le> r \<and> r \<le> 1 \<and> test_frame g h') m"
    and "\<And>r h'. -1 \<le> r \<Longrightarrow> r \<le> 1 \<Longrightarrow> test_frame g h' \<Longrightarrow> returns P (k (r, h'))"
  shows "returns P (bind_c m k)"
  using assms by (cases m) auto

lemma call_post_simps [simp]: "call_post h (r, h', d) \<longleftrightarrow> -1 \<le> r \<and> r \<le> 1 \<and> test_frame h h'"
  by (simp add: call_post_def)

lemma call_then:
  assumes "returns (call_post g) m" and "\<And>r h' d. -1 \<le> r \<Longrightarrow> r \<le> 1 \<Longrightarrow> test_frame g h' \<Longrightarrow> returns P (k (r, h', d))"
  shows "returns P (bind_c m k)"
  using assms by (cases m) auto

lemma init_result_post:
  "returns (\<lambda>(r, h'). -1 \<le> r \<and> r \<le> 1 \<and> test_frame h h') m \<Longrightarrow> returns (call_post h) (init_result st m)"
  unfolding init_result_def by (auto simp del: returns_bind intro!: request_then)

lemma control_init_post:
  "returns (call_post h) (tc_getdesc_init addr h s)"
  "returns (call_post h) (tc_getconf_init h c)"
  "returns (call_post h) (tc_getstrs_init addr h c)"
  "returns (call_post h) (tc_setaddr_init h a)"
  "returns (call_post h) (tc_setconf_init h b)"
  unfolding tc_getdesc_init_def tc_getconf_init_def tc_getstrs_init_def tc_setaddr_init_def tc_setconf_init_def Let_def
  by (auto simp del: returns_bind intro!: init_result_post request_then [OF requests_frame(2)]
    request_then [OF requests_frame(6)] request_then [OF requests_frame(7)] requests_frame)

lemma control_step_post:
  "returns (call_post h) (tc_getdesc_step h s)"
  "returns (call_post h) (tc_getconf_step h c)"
  "returns (call_post h) (tc_getstrs_step addr h c)"
  "returns (call_post h) (tc_setaddr_step h a)"
  "returns (call_post h) (tc_setconf_step h b)"
  unfolding tc_getdesc_step_def tc_getconf_step_def tc_getstrs_step_def tc_setaddr_step_def tc_setconf_step_def Let_def
  by (auto simp del: returns_bind split: prod.splits ctrl_step.splits dest: advance_frame
    intro!: call_then [OF control_init_post(2)] call_then [OF control_init_post(3)] test_frame_xfer)

lemma bulk_init_post:
  "returns (call_post h) (tc_waitsof_init h w)"
  "returns (call_post h) (tc_bulkin_init h i)"
  "returns (call_post h) (tc_bulkout_init rnd h b)"
  "returns (call_post h) (tc_ddr3in_init h di)"
  "returns (call_post h) (tc_ddr3out_init rnd h do')"
  "returns (call_post h) (tc_parity_init rnd h p)"
  unfolding tc_waitsof_init_def tc_bulkin_init_def tc_bulkout_init_def tc_ddr3in_init_def tc_ddr3out_init_def
    tc_parity_init_def Let_def
  by (auto simp del: returns_bind simp: bulkin_frame intro!: aget_then host_then dest!: xfers_frame parity_frame adjust_frame
    elim: test_frame_trans)

lemma bulk_step_post:
  "returns (call_post h) (tc_waitsof_step h w)"
  "returns (call_post h) (tc_bulkin_step h i)"
  "returns (call_post h) (tc_bulkout_step rnd h b)"
  unfolding tc_waitsof_step_def tc_bulkin_step_def tc_bulkout_step_def
  by (auto simp del: returns_bind intro!: host_then dest!: xfers_frame
    split: waitsof_state_t.splits bulkin_step_t.splits option.splits)

lemma ddr3_step_post:
  "returns (call_post h) (tc_ddr3in_step h di)"
  "returns (call_post h) (tc_ddr3out_step rnd h do')"
  unfolding tc_ddr3in_step_def tc_ddr3out_step_def tc_ddr3in_dat_def tc_ddr3out_res_def Let_def
  by (auto simp del: returns_bind intro!: aget_then host_then bulkin_frame test_frame_xfer dest!: xfers_frame
    split: ddr3in_step_t.splits ddr3out_step_t.splits)

lemma parity_step_post: "returns (call_post h) (tc_parity_step rnd h p)"
  unfolding tc_parity_step_def Let_def
  by (auto simp del: returns_bind intro!: host_then call_then [OF bulk_init_post(6)]
    dest!: parity_frame adjust_frame elim: test_frame_trans split: parity_step_t.splits)

lemma as_tc_post: "returns (call_post h) m \<Longrightarrow> returns (call_post h) (as_tc c m)"
  unfolding as_tc_def by (auto simp del: returns_bind intro!: call_then)

lemma test_init_post: "returns (call_post h) (test_init env h t)"
  by (cases t) (auto intro!: as_tc_post control_init_post bulk_init_post)

lemma test_advance_post: "returns (call_post h) (test_advance env h t)"
  by (cases t) (auto intro!: as_tc_post control_step_post bulk_step_post ddr3_step_post parity_step_post)

subsection \<open>The PHY\<close>

text \<open>
  What a clock of the PHY keeps: its ten registers and a speed not beyond high speed; and 1 is
  returned only at rest in high speed.
\<close>

definition phy_good :: "ulpi_phy_t \<Rightarrow> bool" where
  "phy_good phy \<longleftrightarrow> length (p_regs (phy_state phy)) = 10 \<and> p_speed (phy_state phy) \<le> HighSpeed"

definition phy_post :: "ulpi_phy_t \<Rightarrow> int \<times> ulpi_phy_t \<times> ulpi_bus_t \<Rightarrow> bool" where
  "phy_post phy = (\<lambda>(r, phy', out). -1 \<le> r \<and> r \<le> 1 \<and> (phy_good phy \<longrightarrow> phy_good phy') \<and>
     (r > 0 \<longrightarrow> p_op (phy_state phy') = PhyIdle \<and> p_speed (phy_state phy') = HighSpeed))"

lemma phy_post_simps [simp]:
  "phy_post phy (r, phy', out) \<longleftrightarrow> -1 \<le> r \<and> r \<le> 1 \<and> (phy_good phy \<longrightarrow> phy_good phy') \<and>
     (r > 0 \<longrightarrow> p_op (phy_state phy') = PhyIdle \<and> p_speed (phy_state phy') = HighSpeed)"
  by (simp add: phy_post_def)

lemma done_post [simp]: "returns (phy_post phy) (uphy_done phy' out) = (phy_good phy \<longrightarrow> phy_good phy')"
  by (simp add: uphy_done_def phy_good_def)

lemma phy_good_updates [simp]:
  "phy_good (set_op op phy) = phy_good phy"
  "phy_good phy \<Longrightarrow> phy_good (uphy_reset phy)"
  "phy_good (upd_state (\<lambda>s. s\<lparr>p_timer := t, p_op := op\<rparr>) phy) = phy_good phy"
  "phy_good (upd_state (\<lambda>s. s\<lparr>p_timer := t\<rparr>) phy) = phy_good phy"
  "phy_good phy \<Longrightarrow> phy_good (upd_state (\<lambda>s. s\<lparr>p_update := of_bool (p_regnum s = UPHY_REG_FN_CTRL),
     p_regs := regs, p_op := op\<rparr>) phy) \<longleftrightarrow> length regs = 10"
  "phy_good phy \<Longrightarrow> v \<le> HighSpeed \<Longrightarrow>
     phy_good (upd_state (\<lambda>s. s\<lparr>p_op := op, p_update := u, p_speed := v\<rparr>) phy)"
  by (simp_all add: phy_good_def set_op_def uphy_reset_def ULPI_REG_DEFAULTS_def)

lemma phy_good_length: "phy_good phy \<Longrightarrow> length (p_regs (phy_state phy)) = 10"
  by (simp add: phy_good_def)

lemma chirp_status_good:
  "chirp_status s = Some s' \<Longrightarrow> p_regs s' = p_regs s \<and> (p_speed s \<le> HighSpeed \<longrightarrow> p_speed s' \<le> HighSpeed)"
  by (auto simp: chirp_status_def Let_def split: if_splits)

lemma txcmd_post: "returns (phy_post phy) (uphy_txcmd_step phy inb out)"
  by (simp add: uphy_txcmd_step_def Let_def phy_good_def)

lemma status_post: "returns (phy_post phy) (uphy_status phy out)"
  using chirp_status_good [of "phy_state phy"]
  by (auto simp: uphy_status_def Let_def phy_good_def split: option.split)

lemma starting_post: "returns (phy_post phy) (uphy_starting phy inb out)"
  using txcmd_post [of phy inb out] by (simp add: uphy_starting_def Let_def)

lemma idle_post: "returns (phy_post phy) (uphy_idle phy inb out)"
  using txcmd_post [of phy inb out] by (simp add: uphy_idle_def Let_def) (simp add: phy_good_def inc_le)

lemma uphy_step_post: "returns (phy_post phy) (uphy_step phy inb)"
proof -
  define p where "p = (if u_rst_n inb = SIG0 then set_op PowerOn phy else phy)"
  have "phy_post p v \<Longrightarrow> phy_post phy v" for v by (cases v) (simp add: p_def split: if_splits)
  moreover have "returns (phy_post p) (uphy_step phy inb)"
    unfolding uphy_step_def uphy_command_def Let_def p_def [symmetric]
    using starting_post status_post idle_post by (simp add: phy_good_length)
  ultimately show ?thesis by (meson returns_mono)
qed

subsection \<open>The states of the test-bench\<close>

text \<open>
  \<open>sound n\<close>: the arrays of host and PHY have their sizes, the guard word is intact, and the
  registry has \<open>n\<close> test-cases of which the current one is not beyond the end.
\<close>

definition sound :: "nat \<Rightarrow> ut_state_t \<Rightarrow> bool" where
  "sound n s \<longleftrightarrow> arrays_ok (h_xfer (s_host s)) \<and> h_guard (s_host s) = GUARDIAN \<and> phy_good (s_phy s) \<and>
     length (s_tests s) = n \<and> list_all (\<lambda>t. t \<noteq> None) (s_tests s) \<and>
     0 \<le> s_test_curr s \<and> s_test_curr s \<le> int n"

text \<open>
  \<open>in_order n\<close>: no test runs before the PHY is at rest in high speed, the bench is done only when
  all tests have completed, and till then host and bench count the same cycles.
\<close>

definition in_order :: "nat \<Rightarrow> ut_state_t \<Rightarrow> bool" where
  "in_order n s \<longleftrightarrow>
     (s_op s \<in> {UT_Idle, UT_Test, UT_Done} \<longrightarrow>
       p_op (phy_state (s_phy s)) = PhyIdle \<and> p_speed (phy_state (s_phy s)) = HighSpeed) \<and>
     (s_op s = UT_Done \<longrightarrow> s_test_curr s = int n) \<and>
     (s_op s \<noteq> UT_Done \<longrightarrow> h_cycle (s_host s) = s_cycle s) \<and>
     (s_op s \<in> {UT_PowerOn, UT_StartUp} \<longrightarrow> s_test_curr s = 0)"

definition bench_inv :: "nat \<Rightarrow> ut_state_t \<Rightarrow> bool" where
  "bench_inv n s \<longleftrightarrow> sound n s \<and> in_order n s"

lemma usbh_step_then:
  assumes "\<And>r h' out. -3 \<le> r \<Longrightarrow> r \<le> 1 \<Longrightarrow> host_frame h h' \<Longrightarrow> h_cycle h' = h_cycle h + 1 \<Longrightarrow> returns P (k (r, h', out))"
  shows "returns P (bind_c (usbh_step rnd h b) k)"
  using clock_frame [of h rnd b] assms by (cases "usbh_step rnd h b") (auto simp: clock_post_def)

lemma uphy_step_then:
  assumes "\<And>r p' out. phy_post p (r, p', out) \<Longrightarrow> returns P (k (r, p', out))"
  shows "returns P (bind_c (uphy_step p b) k)"
  using uphy_step_post [of p b] assms by (cases "uphy_step p b") auto

text \<open>A step of the tests, while the cycle of the bench has been counted for the host.\<close>

lemma test_step_post:
  assumes "sound n s"
  shows "returns (\<lambda>(r, s'). sound n s' \<and> h_cycle (s_host s') = h_cycle (s_host s) \<and> s_cycle s' = s_cycle s \<and>
      s_phy s' = s_phy s \<and> s_op s' = s_op s \<and> s_bus s' = s_bus s \<and> r \<le> 2 \<and> (1 < r \<longrightarrow> s_test_curr s' = int n))
    (test_step env s)"
proof (cases "s_test_curr s < int (length (s_tests s))")
  case False
  then show ?thesis using assms by (simp add: test_step_def sound_def)
next
  case True
  let ?i = "nat (s_test_curr s)"
  have i: "0 \<le> s_test_curr s" "?i < length (s_tests s)" using assms True by (auto simp: sound_def)
  then have "s_tests s ! ?i \<noteq> None" using assms by (simp add: sound_def list_all_length)
  then obtain t where t: "s_tests s ! ?i = Some t" by blast
  then have get: "aget (s_tests s) (s_test_curr s) = Inr (Some t)" using i by (simp add: aget_def)
  let ?call = "if s_test_step s = 0 then test_init env (s_host s) t else test_advance env (s_host s) t"
  have call: "returns (call_post (s_host s)) ?call" by (simp add: test_init_post test_advance_post)
  have step: "test_step env s = bind_c ?call (\<lambda>(r, h', t').
      let s' = s\<lparr>s_test_step := s_test_step s + 1, s_host := h', s_tests := (s_tests s)[?i := Some t']\<rparr> in
      if r < 0 then Inr (-1, s'\<lparr>s_finish := True\<rparr>)
      else if r > 0 then Inr (r, s'\<lparr>s_test_step := 0, s_test_curr := s_test_curr s + 1\<rparr>)
      else Inr (0, s'))"
    using True by (simp add: test_step_def get Let_def cong: if_cong)
  show ?thesis
  proof (cases ?call)
    case (Inl e)
    then show ?thesis by (simp only: step bind_c_simps returns_Inl)
  next
    case (Inr v)
    obtain r h' t' where v: "v = (r, h', t')" by (cases v)
    then have r: "-1 \<le> r" "r \<le> 1" and f: "test_frame (s_host s) h'"
      using call unfolding Inr by simp_all
    have "arrays_ok (h_xfer h')" "h_guard h' = GUARDIAN" "h_cycle h' = h_cycle (s_host s)"
      using f assms by (simp_all add: test_frame_def host_frame_def sound_def)
    moreover have "list_all (\<lambda>t. t \<noteq> None) ((s_tests s)[?i := Some t'])"
      using assms by (auto simp: sound_def list_all_iff dest: set_update_subset_insert [THEN subsetD])
    ultimately show ?thesis
      unfolding step Inr v bind_c_simps prod.case Let_def
      using r i True assms by (auto simp: sound_def)
  qed
qed

text \<open>A step of PHY or host.\<close>

lemma sound_host: "sound n s \<Longrightarrow> host_frame (s_host s) h \<Longrightarrow> sound n (s\<lparr>s_host := h\<rparr>)"
  by (auto simp: sound_def host_frame_def)

lemma sound_updates [simp]:
  "sound n (s\<lparr>s_op := op\<rparr>) = sound n s"
  "sound n (s\<lparr>s_cycle := c\<rparr>) = sound n s"
  "sound n (s\<lparr>s_finish := f\<rparr>) = sound n s"
  "sound n (s\<lparr>s_bus := b\<rparr>) = sound n s"
  "sound n (s\<lparr>s_tick_ns := t\<rparr>) = sound n s"
  "sound n (s\<lparr>s_sync_flag := g\<rparr>) = sound n s"
  "sound n (s\<lparr>s_phy := (s_phy s)\<lparr>phy_bus := b\<rparr>\<rparr>) = sound n s"
  by (simp_all add: sound_def phy_good_def)

lemma sound_host_cycle [simp]: "sound n (s\<lparr>s_host := (s_host s)\<lparr>h_cycle := c\<rparr>\<rparr>) = sound n s"
  by (simp add: sound_def)

text \<open>What \<open>stim_step\<close> returns: 1 only with the PHY at rest in high speed.\<close>

lemma stim_post:
  assumes "sound n s"
  shows "returns (\<lambda>(r, s', out). sound n s' \<and> h_cycle (s_host s') = h_cycle (s_host s) + 1 \<and> s_cycle s' = s_cycle s \<and>
      s_op s' = s_op s \<and> s_test_curr s' = s_test_curr s \<and>
      (r > 0 \<longrightarrow> p_op (phy_state (s_phy s')) = PhyIdle \<and> p_speed (phy_state (s_phy s')) = HighSpeed))
    (stim_step rnd s)"
proof (cases "p_speed (phy_state (s_phy s)) < HighSpeed \<or> p_op (phy_state (s_phy s)) \<noteq> PhyIdle")
  case True
  show ?thesis
    unfolding stim_step_def Let_def using True assms
    by (auto simp del: returns_bind simp: sound_def intro!: uphy_step_then)
next
  case False
  then show ?thesis
    unfolding stim_step_def Let_def using assms
    by (auto simp del: returns_bind simp: phy_good_def sound_def host_frame_def intro!: usbh_step_then sound_host)
qed

lemma in_order_updates [simp]:
  "in_order n (s\<lparr>s_finish := f\<rparr>) = in_order n s"
  "in_order n (s\<lparr>s_bus := b\<rparr>) = in_order n s"
  "in_order n (s\<lparr>s_tick_ns := t\<rparr>) = in_order n s"
  "in_order n (s\<lparr>s_sync_flag := g\<rparr>) = in_order n s"
  "in_order n (s\<lparr>s_phy := (s_phy s)\<lparr>phy_bus := b\<rparr>\<rparr>) = in_order n s"
  by (simp_all add: in_order_def)

text \<open>The cycle of the bench, counted before anything else; the host has not yet followed.\<close>

definition counted :: "nat \<Rightarrow> ut_state_t \<Rightarrow> bool" where
  "counted n s \<longleftrightarrow> sound n s \<and> in_order n (s\<lparr>s_cycle := h_cycle (s_host s)\<rparr>) \<and>
     s_cycle s = h_cycle (s_host s) + 1 \<and> s_op s \<noteq> UT_Done"

lemma counted_step: "bench_inv n s \<Longrightarrow> s_op s \<noteq> UT_Done \<Longrightarrow> counted n (s\<lparr>s_cycle := s_cycle s + 1\<rparr>)"
  by (simp add: counted_def bench_inv_def in_order_def)

lemma failed_post: "returns (\<lambda>(r, s', out). bench_inv n s') (ut_failed s out) = bench_inv n s"
  by (simp add: ut_failed_def bench_inv_def)

text \<open>A clock of the host in the states \<open>UT_Idle\<close> and \<open>UT_Test\<close>.\<close>

lemma counted_host:
  "counted n s \<Longrightarrow> host_frame (s_host s) h \<Longrightarrow> h_cycle h = h_cycle (s_host s) + 1 \<Longrightarrow> bench_inv n (s\<lparr>s_host := h\<rparr>)"
  by (auto simp: counted_def bench_inv_def in_order_def sound_host)

lemma bench_to_idle: "bench_inv n s \<Longrightarrow> s_op s = UT_Test \<Longrightarrow> bench_inv n (s\<lparr>s_op := UT_Idle\<rparr>)"
  by (simp add: bench_inv_def in_order_def)

lemma startup_post:
  assumes "counted n s" and "s_op s = UT_StartUp"
  shows "returns (\<lambda>(r, s', out). bench_inv n s') (bind_c (stim_step rnd s) (\<lambda>(result, s, nxt).
    if result < 0 then ut_failed s nxt
    else Inr (0, if result > 0 then s\<lparr>s_op := UT_Idle\<rparr> else s, nxt)))"
proof (cases "stim_step rnd s")
  case (Inl e)
  then show ?thesis by simp
next
  case (Inr v)
  obtain r s' out where v: "v = (r, s', out)" by (cases v)
  have "sound n s" using assms(1) by (simp add: counted_def)
  from stim_post [OF this, of rnd] Inr v have "sound n s'" "h_cycle (s_host s') = h_cycle (s_host s) + 1"
      "s_cycle s' = s_cycle s" "s_op s' = s_op s" "s_test_curr s' = s_test_curr s"
      "r > 0 \<longrightarrow> p_op (phy_state (s_phy s')) = PhyIdle \<and> p_speed (phy_state (s_phy s')) = HighSpeed"
    by simp_all
  then show ?thesis
    using Inr v assms by (auto simp: ut_failed_def bench_inv_def in_order_def counted_def)
qed

lemma idle_test_post:
  assumes "counted n s" and "s_op s = UT_Idle"
  shows "returns (\<lambda>(r, s', out). bench_inv n s')
    (bind_c (test_step env (s\<lparr>s_host := (s_host s)\<lparr>h_cycle := h_cycle (s_host s) + 1\<rparr>\<rparr>)) (\<lambda>(result, s).
       if result < 0 then ut_failed s nxt
       else if result > 1 then Inr (0, s\<lparr>s_op := UT_Done\<rparr>, nxt)
       else if result > 0 then Inr (0, s, nxt)
       else Inr (0, s\<lparr>s_op := UT_Test\<rparr>, nxt)))"
proof (cases "test_step env (s\<lparr>s_host := (s_host s)\<lparr>h_cycle := h_cycle (s_host s) + 1\<rparr>\<rparr>)")
  case (Inl e)
  then show ?thesis by simp
next
  case (Inr v)
  let ?s = "s\<lparr>s_host := (s_host s)\<lparr>h_cycle := h_cycle (s_host s) + 1\<rparr>\<rparr>"
  obtain r s' where v: "v = (r, s')" by (cases v)
  have "sound n ?s" using assms(1) by (simp add: counted_def)
  from test_step_post [OF this, of env] Inr v have "sound n s'" "h_cycle (s_host s') = h_cycle (s_host s) + 1"
      "s_cycle s' = s_cycle s" "s_op s' = s_op s" "s_phy s' = s_phy s" "1 < r \<longrightarrow> s_test_curr s' = int n"
    by simp_all
  then show ?thesis
    using Inr v assms by (auto simp: ut_failed_def bench_inv_def in_order_def counted_def)
qed

lemma ut_step_post:
  assumes "bench_inv n s" and "s_op s \<noteq> UT_Done"
  shows "returns (\<lambda>(r, s', out). bench_inv n s') (ut_step env s)"
proof -
  let ?s = "s\<lparr>s_cycle := s_cycle s + 1\<rparr>"
  have c: "counted n ?s" by (rule counted_step [OF assms])
  have idle: "returns (\<lambda>(r, s', out). bench_inv n s') (bind_c (usbh_step rnd (s_host ?s) b) (\<lambda>(r, h, out).
      if r < 0 then ut_failed (?s\<lparr>s_host := h\<rparr>) out else Inr (0, ?s\<lparr>s_host := h\<rparr>, out)))" for rnd b
    using counted_host [OF c] by (auto simp del: returns_bind simp: failed_post intro!: usbh_step_then)
  have test: "returns (\<lambda>(r, s', out). bench_inv n s') (bind_c (usbh_step rnd (s_host ?s) b) (\<lambda>(r, h, out).
      if r < 0 then ut_failed (?s\<lparr>s_host := h\<rparr>) out
      else Inr (0, if r > 0 then ?s\<lparr>s_host := h\<rparr>\<lparr>s_op := UT_Idle\<rparr> else ?s\<lparr>s_host := h\<rparr>, out)))"
    if "s_op s = UT_Test" for rnd b
    using counted_host [OF c] bench_to_idle that
    by (fastforce simp del: returns_bind simp: failed_post intro!: usbh_step_then)
  show ?thesis
  proof (cases "s_op s")
    case UT_PowerOn
    then show ?thesis using c
      by (simp add: ut_step_def Let_def bench_inv_def counted_def in_order_def sound_def)
  next
    case UT_StartUp
    then show ?thesis using startup_post [OF c] by (simp add: ut_step_def Let_def)
  next
    case UT_Idle
    then show ?thesis
      using idle [of "env_rand env 0" "s_bus ?s"] idle_test_post [OF c, of env "s_bus ?s"]
      unfolding ut_step_def Let_def by (simp del: returns_bind)
  next
    case UT_Test
    then show ?thesis
      using test [of "env_rand env 0" "s_bus ?s"] unfolding ut_step_def Let_def by (simp del: returns_bind)
  next
    case UT_Done
    then show ?thesis using assms(2) by simp
  qed
qed

subsection \<open>Clock events\<close>

lemma sync_post:
  assumes "bench_inv n s"
  shows "returns (\<lambda>(puts, s'). bench_inv n s') (cb_step_sync env s)"
proof (cases "s_op s = UT_Done")
  case True
  then show ?thesis using assms by (simp add: cb_step_sync_def bench_inv_def in_order_def)
next
  case False
  then show ?thesis
    using ut_step_post [OF assms False, of env] by (cases "ut_step env s")
      (auto simp: cb_step_sync_def ut_update_bus_state_def bench_inv_def Let_def)
qed

lemma clock_event_post:
  assumes "bench_inv n s"
  shows "returns (\<lambda>(puts, s'). bench_inv n s') (clock_event env vpi s)"
proof -
  have "returns (\<lambda>(sync, s'). bench_inv n s') (cb_step_clock vpi s)"
    using assms by (simp add: cb_step_clock_def tick_of_def ut_fetch_bus_def bench_inv_def)
  then show ?thesis
    using assms sync_post by (cases "cb_step_clock vpi s") (auto simp: clock_event_def bench_inv_def)
qed

subsection \<open>The progress of the registry\<close>

text \<open>
  Against the registry \<open>ts\<close> of the start: the test-cases before the current one are completed, the current
  one is running once its \<open>init\<close> has been called, and the others are as their constructors left them.
\<close>

definition test_part :: "int \<Rightarrow> int \<Rightarrow> int \<Rightarrow> testcase_t option \<Rightarrow> testcase_t option \<Rightarrow> bool" where
  "test_part c stp k t0 t \<longleftrightarrow> (\<exists>d d'. t0 = Some d \<and> t = Some d' \<and>
     (if k < c then tc_completed d d' else if k = c \<and> stp \<noteq> 0 then tc_running d d' else d' = d))"

definition progress :: "testcase_t option list \<Rightarrow> ut_state_t \<Rightarrow> bool" where
  "progress ts s \<longleftrightarrow> list_all (\<lambda>t. \<exists>d. t = Some d \<and> tc_fresh d) ts \<and>
     length (s_tests s) = length ts \<and> 0 \<le> s_test_curr s \<and> 0 \<le> s_test_step s \<and>
     (\<forall>k<length ts. test_part (s_test_curr s) (s_test_step s) (int k) (ts ! k) (s_tests s ! k))"

lemma progress_updates [simp]:
  "progress ts (s\<lparr>s_op := op\<rparr>) = progress ts s"
  "progress ts (s\<lparr>s_cycle := c\<rparr>) = progress ts s"
  "progress ts (s\<lparr>s_finish := f\<rparr>) = progress ts s"
  "progress ts (s\<lparr>s_bus := b\<rparr>) = progress ts s"
  "progress ts (s\<lparr>s_host := h\<rparr>) = progress ts s"
  "progress ts (s\<lparr>s_phy := p\<rparr>) = progress ts s"
  "progress ts (s\<lparr>s_tick_ns := t\<rparr>) = progress ts s"
  "progress ts (s\<lparr>s_sync_flag := g\<rparr>) = progress ts s"
  by (simp_all add: progress_def)

text \<open>The current test-case is called and stored back; the counters move with its result.\<close>

lemma progress_store:
  assumes "progress ts s" and "s_test_curr s < int (length ts)" and "ts ! nat (s_test_curr s) = Some d"
    and "if 0 < r then tc_completed d t else tc_running d t"
  shows "progress ts (s\<lparr>s_test_step := if 0 < r then 0 else s_test_step s + 1, s_host := h,
    s_tests := (s_tests s)[nat (s_test_curr s) := Some t],
    s_test_curr := if 0 < r then s_test_curr s + 1 else s_test_curr s\<rparr>)"
proof -
  have "test_part (if 0 < r then s_test_curr s + 1 else s_test_curr s) (if 0 < r then 0 else s_test_step s + 1)
      (int k) (ts ! k) ((s_tests s)[nat (s_test_curr s) := Some t] ! k)" if k: "k < length ts" for k
  proof -
    have c: "0 \<le> s_test_curr s" "0 \<le> s_test_step s" "length (s_tests s) = length ts" "k < length (s_tests s)"
      and old: "test_part (s_test_curr s) (s_test_step s) (int k) (ts ! k) (s_tests s ! k)"
      using assms(1) k by (auto simp: progress_def)
    show ?thesis
    proof (cases "nat (s_test_curr s) = k")
      case True
      then have "int k = s_test_curr s" using c(1) by simp
      then show ?thesis using True assms(3,4) c by (simp add: test_part_def split: if_splits)
    next
      case False
      then have "int k \<noteq> s_test_curr s" by auto
      then show ?thesis using False old by (auto simp: test_part_def split: if_splits)
    qed
  qed
  then show ?thesis using assms(1) by (simp add: progress_def)
qed

lemma test_step_progress:
  assumes "progress ts s"
  shows "returns (\<lambda>(r, s'). progress ts s') (test_step env s)"
proof (cases "s_test_curr s < int (length (s_tests s))")
  case False
  then show ?thesis using assms by (simp add: test_step_def)
next
  case True
  let ?i = "nat (s_test_curr s)"
  have i: "0 \<le> s_test_curr s" "?i < length ts" "s_test_curr s < int (length ts)" "length (s_tests s) = length ts"
    using assms True by (auto simp: progress_def)
  have "test_part (s_test_curr s) (s_test_step s) (int ?i) (ts ! ?i) (s_tests s ! ?i)"
    "\<exists>d. ts ! ?i = Some d \<and> tc_fresh d"
    using assms i(2) by (auto simp: progress_def list_all_length)
  then obtain d t where t: "ts ! ?i = Some d" "s_tests s ! ?i = Some t" "tc_fresh d"
    "if s_test_step s \<noteq> 0 then tc_running d t else t = d"
    using i(1) by (auto simp: test_part_def)
  then have get: "aget (s_tests s) (s_test_curr s) = Inr (Some t)" using i by (simp add: aget_def)
  let ?call = "if s_test_step s = 0 then test_init env (s_host s) t else test_advance env (s_host s) t"
  have call: "returns (step_runs d) ?call"
  proof (cases "s_test_step s = 0")
    case True
    then have "returns (\<lambda>(r, h', t'). r \<le> 0 \<and> tc_running d t') ?call"
      using test_init_runs [OF t(3), of env "s_host s"] t(4) by simp
    then show ?thesis by (rule returns_mono) (auto simp: step_runs_def)
  next
    case False
    then show ?thesis using test_advance_runs t(4) by simp
  qed
  have step: "test_step env s = bind_c ?call (\<lambda>(r, h', t').
      let s' = s\<lparr>s_test_step := s_test_step s + 1, s_host := h', s_tests := (s_tests s)[?i := Some t']\<rparr> in
      if r < 0 then Inr (-1, s'\<lparr>s_finish := True\<rparr>)
      else if r > 0 then Inr (r, s'\<lparr>s_test_step := 0, s_test_curr := s_test_curr s + 1\<rparr>)
      else Inr (0, s'))"
    using True by (simp add: test_step_def get Let_def cong: if_cong)
  show ?thesis
  proof (cases ?call)
    case (Inl e)
    then show ?thesis by (simp only: step bind_c_simps returns_Inl)
  next
    case (Inr v)
    obtain r h' t' where v: "v = (r, h', t')" by (cases v)
    then have "if 0 < r then tc_completed d t' else tc_running d t'"
      using call unfolding Inr by (simp add: step_runs_def)
    from progress_store [OF assms i(3) t(1) this, of h'] show ?thesis
      unfolding step Inr v bind_c_simps prod.case Let_def by (auto simp: progress_def split: if_splits)
  qed
qed

lemma progress_then2:
  assumes "returns (\<lambda>(r, s'). progress ts s') m" and "\<And>r s'. progress ts s' \<Longrightarrow> returns P (k (r, s'))"
  shows "returns P (bind_c m k)"
  using assms by (cases m) auto

lemma progress_then3:
  assumes "returns (\<lambda>(r, s', out). progress ts s') m" and "\<And>r s' out. progress ts s' \<Longrightarrow> returns P (k (r, s', out))"
  shows "returns P (bind_c m k)"
  using assms by (cases m) auto

lemma stim_progress:
  assumes "progress ts s"
  shows "returns (\<lambda>(r, s', out). progress ts s') (stim_step rnd s)"
  using assms by (auto simp del: returns_bind simp: stim_step_def Let_def intro!: uphy_step_then usbh_step_then)

lemma ut_step_progress:
  assumes "progress ts s"
  shows "returns (\<lambda>(r, s', out). progress ts s') (ut_step env s)"
proof -
  let ?s = "s\<lparr>s_cycle := s_cycle s + 1\<rparr>"
  have s: "progress ts ?s" "\<And>h. progress ts (?s\<lparr>s_host := h\<rparr>)" using assms by simp_all
  have stim: "returns (\<lambda>(r, s', out). progress ts s') (stim_step rnd ?s)" for rnd
    using s(1) by (rule stim_progress)
  have test: "returns (\<lambda>(r, s'). progress ts s') (test_step env (?s\<lparr>s_host := h\<rparr>))" for h
    using s(2) by (rule test_step_progress)
  show ?thesis
    unfolding ut_step_def Let_def ut_failed_def using assms
    by (cases "s_op s") (auto simp del: returns_bind
      intro!: progress_then3 [OF stim] progress_then2 [OF test] usbh_step_then)
qed

lemma clock_event_progress:
  assumes "progress ts s"
  shows "returns (\<lambda>(puts, s'). progress ts s') (clock_event env vpi s)"
proof -
  have sync: "returns (\<lambda>(puts, s'). progress ts s') (cb_step_sync env s)" if "progress ts s" for s
    using ut_step_progress [OF that, of env] that
    by (cases "ut_step env s") (auto simp: cb_step_sync_def ut_update_bus_state_def Let_def)
  have "returns (\<lambda>(b, s'). progress ts s') (cb_step_clock vpi s)"
    using assms by (simp add: cb_step_clock_def tick_of_def ut_fetch_bus_def)
  then show ?thesis
    using assms sync by (cases "cb_step_clock vpi s") (auto simp: clock_event_def)
qed

subsection \<open>Simulations\<close>

text \<open>A simulation: at each change of the clock the bench gets its random numbers and what it samples.\<close>

primrec bench_run :: "(env_t \<times> vpi) list \<Rightarrow> ut_state_t \<Rightarrow> (put list list \<times> ut_state_t) outcome" where
  "bench_run [] s = Inr ([], s)"
| "bench_run (e # es) s =
     bind_c (clock_event (fst e) (snd e) s) (\<lambda>(puts, s).
     bind_c (bench_run es s) (\<lambda>(pss, s). Inr (puts # pss, s)))"

lemma bench_run_post: "bench_inv n s \<Longrightarrow> bench_run es s = Inr (pss, s') \<Longrightarrow> bench_inv n s'"
proof (induction es arbitrary: s pss)
  case (Cons e es)
  then show ?case using clock_event_post [of n s "fst e" "snd e"] by (fastforce simp: bind_c_eq_Inr)
qed simp

lemma bench_run_progress: "progress ts s \<Longrightarrow> bench_run es s = Inr (pss, s') \<Longrightarrow> progress ts s'"
proof (induction es arbitrary: s pss)
  case (Cons e es)
  then show ?case using clock_event_progress [of ts s "fst e" "snd e"] by (fastforce simp: bind_c_eq_Inr)
qed simp

text \<open>The state in which a simulation starts.\<close>

definition started :: "ut_state_t \<Rightarrow> bool" where
  "started s \<longleftrightarrow> (\<exists>vpi vpi' rnd addr s0. ut_compiletf vpi rnd addr = Some s0 \<and> ut_calltf vpi' (Some s0) = Some s)"

lemma compiled_inv: "ut_compiletf vpi rnd addr = Some s \<Longrightarrow> bench_inv 16 s"
  by (auto simp: ut_compiletf_def bench_inv_def sound_def in_order_def phy_good_def ut_tests_def test_setaddr_def
    test_setconf_def usbh_init_def usbh_reset_def phy_zero_def arrays_ok_def xfer_zero_def
    split: option.splits list.splits if_splits)

lemma started_inv: "started s \<Longrightarrow> bench_inv 16 s"
  using compiled_inv by (auto simp: started_def ut_calltf_def bench_inv_def sound_def in_order_def)

text \<open>
  The data of the test-bench stay well formed in any simulation that no fault ends:
  the transfer arrays of the host have their sizes and its guard word is intact, the PHY has its ten
  registers and a valid speed, no test-case is missing and the current one is in the registry.
\<close>

lemma bench_types:
  assumes "started s" and "bench_run es s = Inr (pss, s')"
  shows "arrays_ok (h_xfer (s_host s')) \<and> h_guard (s_host s') = GUARDIAN \<and>
    length (p_regs (phy_state (s_phy s'))) = 10 \<and> p_speed (phy_state (s_phy s')) \<le> HighSpeed \<and>
    length (s_tests s') = 16 \<and> list_all (\<lambda>t. t \<noteq> None) (s_tests s') \<and>
    0 \<le> s_test_curr s' \<and> s_test_curr s' \<le> 16"
  using bench_run_post [OF started_inv [OF assms(1)] assms(2)]
  by (simp add: bench_inv_def sound_def phy_good_def)

lemma compiled_progress: "ut_compiletf vpi rnd addr = Some s \<Longrightarrow> progress (s_tests s) s \<and> length (s_tests s) = 16"
proof -
  assume "ut_compiletf vpi rnd addr = Some s"
  then obtain bufs where "s_tests s = ut_tests rnd bufs" "s_test_curr s = 0" "s_test_step s = 0"
    by (auto simp: ut_compiletf_def split: option.splits list.splits if_splits)
  then show ?thesis
    using registry_fresh [of rnd bufs] by (auto simp: progress_def test_part_def list_all_length)
qed

lemma started_progress: "started s \<Longrightarrow> progress (s_tests s) s \<and> length (s_tests s) = 16"
  using compiled_progress by (fastforce simp: started_def ut_calltf_def progress_def)

subsection \<open>Driving\<close>

text \<open>The members that only the set-up assigns, and the sampled bus.\<close>

definition wiring :: "ut_state_t \<Rightarrow> handle list \<times> ulpi_bus_t" where
  "wiring s = ([s_clock s, s_rst_n s, s_dir s, s_nxt s, s_stp s, s_dati s, s_dato s], s_bus s)"

lemma stim_wiring: "returns (\<lambda>(r, s', out). wiring s' = wiring s) (stim_step rnd s)"
  by (auto simp del: returns_bind simp: stim_step_def wiring_def Let_def intro!: uphy_step_then usbh_step_then)

lemma test_wiring: "returns (\<lambda>(r, s'). wiring s' = wiring s) (test_step env s)"
  unfolding test_step_def Let_def
  by (auto simp del: returns_bind simp: wiring_def intro!: aget_then call_then [OF test_init_post]
    call_then [OF test_advance_post] split: option.split)

lemma wiring_then:
  assumes "returns (\<lambda>(r, s', out). wiring s' = w) m" and "\<And>r s' out. wiring s' = w \<Longrightarrow> returns P (k (r, s', out))"
  shows "returns P (bind_c m k)"
  using assms by (cases m) auto

lemma test_wiring_then:
  assumes "returns (\<lambda>(r, s'). wiring s' = w) m" and "\<And>r s'. wiring s' = w \<Longrightarrow> returns P (k (r, s'))"
  shows "returns P (bind_c m k)"
  using assms by (cases m) auto

lemma step_wiring: "returns (\<lambda>(r, s', out). wiring s' = wiring s) (ut_step env s)"
proof -
  have u: "wiring (s'\<lparr>s_op := p\<rparr>) = wiring s'" "wiring (s'\<lparr>s_finish := fin\<rparr>) = wiring s'"
    "wiring (s'\<lparr>s_host := h\<rparr>) = wiring s'" "wiring (s'\<lparr>s_cycle := c\<rparr>) = wiring s'" for s' p fin h c
    by (simp_all add: wiring_def)
  let ?s = "s\<lparr>s_cycle := s_cycle s + 1\<rparr>"
  have stim: "returns (\<lambda>(r, s', out). wiring s' = wiring s) (stim_step rnd ?s)" for rnd
    using stim_wiring [of ?s rnd] by (simp add: u)
  have test: "returns (\<lambda>(r, s'). wiring s' = wiring s) (test_step env (?s\<lparr>s_host := h\<rparr>))" for h
    using test_wiring [of "?s\<lparr>s_host := h\<rparr>" env] by (simp add: u)
  show ?thesis
    unfolding ut_step_def Let_def ut_failed_def
    by (cases "s_op s") (auto simp del: returns_bind simp: u
      intro!: wiring_then [OF stim] test_wiring_then [OF test] usbh_step_then)
qed

lemma update_fold:
  assumes "s_dir s \<noteq> s_nxt s" and "f (s_dir s) = u_dir (s_bus s)" and "f (s_nxt s) = u_nxt (s_bus s)"
    and "ut_update_bus_state s nxt = (puts, s')"
  shows "apply_puts puts (f, g) = (f(s_dir s := u_dir nxt, s_nxt s := u_nxt nxt),
    if u_data nxt = u_data (s_bus s) then g else g(s_dato s := u_data nxt))"
proof -
  have same: "byte_a d = byte_a e \<and> byte_b d = byte_b e \<longleftrightarrow> d = e" for d e :: byte_t
    by (cases d; cases e) simp
  have "put_byte (s_dato s) (u_data (s_bus s)) (u_data nxt) =
      (if u_data nxt = u_data (s_bus s) then [] else [PutVector (s_dato s) (u_data nxt)])"
    by (auto simp: put_byte_def simp flip: same)
  then show ?thesis
    using assms(4) put_bit_fold [of f "s_dir s" "u_dir (s_bus s)"]
      put_bit_fold [of "f(s_dir s := u_dir nxt)" "s_nxt s" "u_nxt (s_bus s)"] assms(1-3)
    by (auto simp: ut_update_bus_state_def Let_def)
qed

lemma event_drives:
  assumes "clock_event env vpi s = Inr (puts, s')" and "v_int vpi (s_clock s) = 1" and "s_op s \<noteq> UT_Done"
    and "s_dir s \<noteq> s_nxt s" and "f (s_dir s) = scalar_of vpi (s_dir s)" and "f (s_nxt s) = scalar_of vpi (s_nxt s)"
  shows "apply_puts puts (f, g) = (f(s_dir s := u_dir (phy_bus (s_phy s')), s_nxt s := u_nxt (phy_bus (s_phy s'))),
    if u_data (phy_bus (s_phy s')) = byte_of vpi (s_dati s) then g
    else g(s_dato s := u_data (phy_bus (s_phy s'))))"
proof -
  obtain t where "tick_of vpi (s_t_recip s) = Inr t"
    using assms(1,2) by (cases "tick_of vpi (s_t_recip s)") (auto simp: clock_event_def cb_step_clock_def)
  then obtain s1 where s1: "s1 = (ut_fetch_bus vpi (s\<lparr>s_tick_ns := t\<rparr>))\<lparr>s_sync_flag := 1\<rparr>"
    and sync: "cb_step_sync env s1 = Inr (puts, s')"
    using assms(1,2) by (auto simp: clock_event_def cb_step_clock_def)
  have op: "s_op s1 \<noteq> UT_Done" using assms(3) by (simp add: s1 ut_fetch_bus_def)
  obtain r s2 out where step: "ut_step env s1 = Inr (r, s2, out)"
    using sync op by (cases "ut_step env s1") (auto simp: cb_step_sync_def)
  then obtain s3 where upd: "ut_update_bus_state s2 out = (puts, s3)" and s': "s' = s3\<lparr>s_sync_flag := 0\<rparr>"
    using sync op by (cases "ut_update_bus_state s2 out") (auto simp: cb_step_sync_def)
  have w: "wiring s2 = wiring s1" using step_wiring [of s1 env] step by simp
  have out: "phy_bus (s_phy s') = out" using upd s' by (auto simp: ut_update_bus_state_def Let_def)
  have "s_dir s2 = s_dir s" "s_nxt s2 = s_nxt s" "s_dato s2 = s_dato s" and
    "u_dir (s_bus s2) = scalar_of vpi (s_dir s)" "u_nxt (s_bus s2) = scalar_of vpi (s_nxt s)"
    "u_data (s_bus s2) = byte_of vpi (s_dati s)"
    using w by (simp_all add: wiring_def s1 ut_fetch_bus_def)
  then show ?thesis using update_fold [OF _ _ _ upd, of f g] assms(4-6) out by simp
qed

subsection \<open>The properties\<close>

text \<open>
  (C27) The bench is set up exactly for seven arguments that are nets or regs, of which \<open>dir\<close> and
  \<open>nxt\<close> are 1-bit regs, \<open>dati\<close> is an 8-bit net and \<open>dato\<close> an 8-bit reg. Then the simulation
  starts from the state of power-on with sixteen test-cases.
\<close>

theorem bench_accepts:
  assumes "vpi_sound vpi" and "v_systf vpi \<noteq> 0"
  shows "(\<exists>s. ut_compiletf vpi rnd addr = Some s) \<longleftrightarrow>
    (\<exists>clock rst_n dir nxt stp dati dato. v_args vpi = Some [clock, rst_n, dir, nxt, stp, dati, dato] \<and>
      list_all (net_or_reg vpi) [clock, rst_n, stp] \<and>
      v_type vpi dir = vpiReg \<and> v_size vpi dir = 1 \<and> v_type vpi nxt = vpiReg \<and> v_size vpi nxt = 1 \<and>
      v_type vpi dati = vpiNet \<and> v_size vpi dati = 8 \<and> v_type vpi dato = vpiReg \<and> v_size vpi dato = 8)"
    (is "?l \<longleftrightarrow> ?r")
proof
  assume ?l
  then obtain s where s: "ut_compiletf vpi rnd addr = Some s" ..
  then obtain hs where hs: "task_args vpi 7 = Some hs" by (auto simp: ut_compiletf_def split: option.splits)
  note a = task_args_iff [OF assms(1), THEN iffD1, OF hs]
  then obtain clock rst_n dir nxt stp dati dato where "hs = [clock, rst_n, dir, nxt, stp, dati, dato]"
    by (auto simp: length_Suc_conv numeral_eq_Suc)
  then show ?r using s hs a by (auto simp: ut_compiletf_def split: if_splits)
next
  assume ?r
  then obtain clock rst_n dir nxt stp dati dato where
    r: "v_args vpi = Some [clock, rst_n, dir, nxt, stp, dati, dato]"
      "list_all (net_or_reg vpi) [clock, rst_n, stp]"
      "v_type vpi dir = vpiReg" "v_size vpi dir = 1" "v_type vpi nxt = vpiReg" "v_size vpi nxt = 1"
      "v_type vpi dati = vpiNet" "v_size vpi dati = 8" "v_type vpi dato = vpiReg" "v_size vpi dato = 8" by blast
  then have "task_args vpi 7 = Some [clock, rst_n, dir, nxt, stp, dati, dato]"
    using task_args_iff [OF assms(1), of 7] assms(2) by (simp add: net_or_reg_def)
  then show ?l using r by (simp add: ut_compiletf_def)
qed

text \<open>
  (C17) The order of a simulation: no test-case runs before the PHY is at rest in high speed; the
  sixteen test-cases are called one after the other, each only when those before it have been completed,
  that is when the last step of each has left it in its final state with all its stages, packets and
  commands run; those behind the current one are as their constructors left them; the bench is done
  only when all sixteen are completed, and until then the host has counted exactly the cycles of the bench.
\<close>

theorem bench_in_order:
  assumes "started s" and "bench_run es s = Inr (pss, s')"
  shows "(if s_op s' \<in> {UT_PowerOn, UT_StartUp} then s_test_curr s' = 0
     else p_op (phy_state (s_phy s')) = PhyIdle \<and> p_speed (phy_state (s_phy s')) = HighSpeed) \<and>
    (if s_op s' = UT_Done then s_test_curr s' = 16 else h_cycle (s_host s') = s_cycle s') \<and>
    (\<forall>k<16. \<exists>t t'. s_tests s ! k = Some t \<and> s_tests s' ! k = Some t' \<and>
       (if int k < s_test_curr s' then tc_completed t t'
        else if int k = s_test_curr s' \<and> s_test_step s' \<noteq> 0 then tc_running t t'
        else t' = t))"
proof -
  have "progress (s_tests s) s'" "length (s_tests s) = 16"
    using started_progress [OF assms(1)] bench_run_progress [OF _ assms(2)] by blast+
  then show ?thesis
    using bench_run_post [OF started_inv [OF assms(1)] assms(2)]
    by (cases "s_op s'") (auto simp: bench_inv_def in_order_def progress_def test_part_def)
qed

text \<open>
  (C26) At a posedge the bench leaves \<open>dir\<close> and \<open>nxt\<close> at the values it has computed and remembers,
  and touches no other scalar signal; it drives \<open>dato\<close> exactly when the new data differ from those it
  sampled from \<open>dati\<close>.
\<close>

theorem bench_drives:
  assumes "clock_event env vpi s = Inr (puts, s')" and "v_int vpi (s_clock s) = 1" and "s_op s \<noteq> UT_Done"
    and "s_dir s \<noteq> s_nxt s" and "f (s_dir s) = scalar_of vpi (s_dir s)" and "f (s_nxt s) = scalar_of vpi (s_nxt s)"
    and "phy_bus (s_phy s') = next"
  shows "apply_puts puts (f, g) = (f(s_dir s := u_dir next, s_nxt s := u_nxt next),
    if u_data next = byte_of vpi (s_dati s) then g else g(s_dato s := u_data next))"
  using event_drives [OF assms(1-6)] assms(7) by simp

text \<open>A simulator in which the bench is set up, at the posedge of its clock.\<close>

definition sim7 :: vpi where
  "sim7 = \<lparr>v_systf = 1, v_args = Some [1, 2, 3, 4, 5, 6, 7],
     v_type = (\<lambda>h. if h = 0 then -1 else if h \<in> {3, 4, 7} then vpiReg else vpiNet),
     v_size = (\<lambda>h. if h \<in> {6, 7} then 8 else 1), v_scalar = (\<lambda>h. 1), v_vector = (\<lambda>h. (0, 0)),
     v_int = (\<lambda>h. 1), v_time = (0, 5000), v_unit = -9, v_prec = -12\<rparr>"

lemma sim7_sound: "vpi_sound sim7"
  by (simp add: vpi_sound_def net_or_reg_def sim7_def)

lemma bench_accepts_witness: "\<exists>s. ut_compiletf sim7 (\<lambda>_. 0) (\<lambda>_. 64) = Some s"
  using bench_accepts [OF sim7_sound] by (simp add: sim7_def net_or_reg_def)

lemma sim7_args: "task_args sim7 7 = Some [1, 2, 3, 4, 5, 6, 7]"
  using task_args_iff [OF sim7_sound] by (simp add: sim7_def net_or_reg_def)

definition bench7 :: ut_state_t where
  "bench7 = the (ut_calltf sim7 (ut_compiletf sim7 (\<lambda>_. 0) (\<lambda>_. 64)))"

lemma bench7_eq: "ut_compiletf sim7 (\<lambda>_. 0) (\<lambda>_. 64) = Some (bench7\<lparr>s_t_recip := 0\<rparr>)"
    "ut_calltf sim7 (ut_compiletf sim7 (\<lambda>_. 0) (\<lambda>_. 64)) = Some bench7"
  by (simp_all add: bench7_def ut_calltf_def ut_compiletf_def sim7_args) (simp_all add: sim7_def)

lemma bench7_fields: "s_op bench7 = UT_PowerOn" "s_t_recip bench7 = t_recip_of (-12)" "s_dir bench7 = 3"
    "s_nxt bench7 = 4" "s_dato bench7 = 7" "s_clock bench7 = 1"
  by (simp_all add: bench7_def ut_calltf_def ut_compiletf_def sim7_args) (simp_all add: sim7_def)

lemma started7: "started bench7"
  unfolding started_def using bench7_eq by metis

lemma event7: "\<exists>puts s'. clock_event env sim7 bench7 = Inr (puts, s') \<and> s_op s' = UT_StartUp"
proof -
  have "t_recip_of (-12) \<noteq> 0" using t_recip_unat [of "-12"] by auto
  then show ?thesis
    by (simp add: clock_event_def cb_step_clock_def tick_of_def ut_fetch_bus_def cb_step_sync_def ut_step_def
      ut_update_bus_state_def bench7_fields Let_def) (simp add: sim7_def)
qed

lemma bench_in_order_witness:
  "\<exists>pss s'. bench_run [(\<lparr>env_rand = \<lambda>_. 0, env_addr = 64\<rparr>, sim7)] bench7 = Inr (pss, s') \<and>
    s_op s' = UT_StartUp \<and> h_cycle (s_host s') = s_cycle s'"
proof -
  obtain puts s' where s': "clock_event \<lparr>env_rand = \<lambda>_. 0, env_addr = 64\<rparr> sim7 bench7 = Inr (puts, s')"
      "s_op s' = UT_StartUp"
    using event7 by blast
  then have run: "bench_run [(\<lparr>env_rand = \<lambda>_. 0, env_addr = 64\<rparr>, sim7)] bench7 = Inr ([puts], s')" by simp
  show ?thesis using run bench_in_order [OF started7 run] s'(2) by auto
qed

lemma bench_drives_witness:
  "\<exists>puts s' f'. clock_event \<lparr>env_rand = \<lambda>_. 0, env_addr = 64\<rparr> sim7 bench7 = Inr (puts, s') \<and>
    fst (apply_puts puts (\<lambda>_. SIG1, \<lambda>_. \<lparr>byte_a = 0, byte_b = 0\<rparr>)) 3 = u_dir (phy_bus (s_phy s'))"
proof -
  obtain puts s' where s': "clock_event \<lparr>env_rand = \<lambda>_. 0, env_addr = 64\<rparr> sim7 bench7 = Inr (puts, s')"
    using event7 by blast
  have "v_int sim7 (s_clock bench7) = 1" "s_op bench7 \<noteq> UT_Done" "s_dir bench7 \<noteq> s_nxt bench7"
    "SIG1 = scalar_of sim7 (s_dir bench7)" "SIG1 = scalar_of sim7 (s_nxt bench7)"
    by (simp_all add: bench7_fields scalar_of_def) (simp_all add: sim7_def)
  from bench_drives [OF s' this(1-5) refl] show ?thesis using s' by (auto simp: bench7_fields)
qed

end
