(* ===== verification/Control_Run.thy ===== *)
theory Control_Run
  imports Bulk_In Ulpisim_Props
begin

text \<open>
  A whole control transfer in the ULPI test-bench: the test-case of \<open>src/vpi/tc_getdesc.c\<close>, the host of
  \<open>usbhost.c\<close> and \<open>stdreq.c\<close> and the state machine of \<open>ulpisim.c\<close>, opposite a link that takes turns
  with the host.
\<close>

subsection \<open>The bench opposite a link\<close>

text \<open>When neither side drives the data lines the link's idle value is on the bus.\<close>

definition settle :: "ulpi_bus_t \<Rightarrow> ulpi_bus_t" where
  "settle b = (if u_dir b = SIG0 \<and> data_b b = 0xFF then set_b 0x00 b else b)"

lemma settle_simps [simp]:
  "settle (ulpi_bus_idle b) = ulpi_bus_idle b" "settle (bus_released b) = ulpi_bus_idle b"
  "settle (sent_bus b d n s) = sent_bus b d n s"
  by (auto simp: settle_def bus_released_def intro!: bus_eqI)

text \<open>\<open>n\<close> clocks of the bench with a function of the link; \<open>rnd\<close> gives the results of \<open>rand()\<close> in each.\<close>

primrec bench_talk :: "'u user_fn \<Rightarrow> u64 \<Rightarrow> (nat \<Rightarrow> rand_t) \<Rightarrow> nat \<Rightarrow> ut_state_t \<Rightarrow> 'u \<Rightarrow> (ut_state_t \<times> 'u) outcome" where
  "bench_talk user addr rnd 0 st u = Inr (st, u)"
| "bench_talk user addr rnd (Suc n) st u =
     bind_c (ut_step \<lparr>env_rand = rnd 0, env_addr = addr\<rparr> st) (\<lambda>(_, st, nxt).
     bind_c (user u nxt nxt) (\<lambda>(_, u, bus).
       bench_talk user addr (\<lambda>k. rnd (Suc k)) n (st\<lparr>s_bus := settle bus\<rparr>) u))"

lemma bench_talk_add:
  "bench_talk user addr rnd (m + n) st u =
     bind_c (bench_talk user addr rnd m st u) (\<lambda>(st, u). bench_talk user addr (\<lambda>k. rnd (m + k)) n st u)"
proof (induction m arbitrary: rnd st u)
  case 0
  then show ?case by simp
next
  case (Suc m)
  then show ?case by (auto simp: bind_c_def split: sum.splits)
qed

text \<open>What does not depend on the random numbers.\<close>

definition goes :: "'u user_fn \<Rightarrow> u64 \<Rightarrow> nat \<Rightarrow> ut_state_t \<times> 'u \<Rightarrow> ut_state_t \<times> 'u \<Rightarrow> bool" where
  "goes user addr n = (\<lambda>(st, u) s'. \<forall>rnd. bench_talk user addr rnd n st u = Inr s')"

lemma goes_trans:
  assumes "goes user addr m s s1" and "goes user addr n s1 s2"
  shows "goes user addr (m + n) s s2"
  using assms by (cases s; cases s1) (simp add: goes_def bench_talk_add)

lemma goes_clock:
  assumes "\<And>r. ut_step \<lparr>env_rand = r, env_addr = addr\<rparr> st = Inr (z, st', nxt)" and "user u nxt nxt = Inr (z', u', bus)"
  shows "goes user addr 1 (st, u) (st'\<lparr>s_bus := settle bus\<rparr>, u')"
  using assms by (simp add: goes_def)

subsection \<open>The states between the packets\<close>

definition ctrl_of :: "nat \<Rightarrow> ctrl_step" where
  "ctrl_of s = [SendSETUP, SendDATA0, RecvACK0, SendIN, RecvDATA1, SendACK, SendOUT, SendZDP, RecvACK1] ! s"

text \<open>
  The bench \<open>st\<close> after \<open>k\<close> clocks, when \<open>s\<close> packets of the transfer are done: the test-case and
  \<open>host->step\<close> agree about that.
\<close>

definition setup_host :: "ut_state_t \<Rightarrow> nat \<Rightarrow> transfer_t \<Rightarrow> nat \<Rightarrow> usb_host_t" where
  "setup_host st s x k = busy ((s_host st)\<lparr>h_op := HostSETUP, h_step := of_nat s\<rparr>) x (h_cycle (s_host st) + of_nat k)"

definition at_packet :: "ut_state_t \<Rightarrow> ut_step_t \<Rightarrow> nat \<Rightarrow> transfer_t \<Rightarrow> ulpi_bus_t \<Rightarrow> nat \<Rightarrow> ut_state_t" where
  "at_packet st op s x b k = st\<lparr>s_cycle := s_cycle st + of_nat k, s_bus := b, s_host := setup_host st s x k,
     s_test_step := int s + 1, s_tests := (s_tests st)[nat (s_test_curr st) := Some (TcGetdesc (ctrl_of s))], s_op := op\<rparr>"

lemma at_packet_simps [simp]:
  "s_op (at_packet st op s x b k) = op" "s_bus (at_packet st op s x b k) = b"
  "s_host (at_packet st op s x b k) = setup_host st s x k" "(at_packet st op s x b k)\<lparr>s_bus := b'\<rparr> = at_packet st op s x b' k"
  by (simp_all add: at_packet_def)

lemma setup_host_simps [simp]:
  "h_op (setup_host st s x k) = HostSETUP" "h_xfer (setup_host st s x k) = x"
  "with_xfer (setup_host st s x k) y = setup_host st s y k" "h_step (setup_host st s x k) = of_nat s"
  by (simp_all add: setup_host_def) (simp add: busy_def)

text \<open>A clock of the host in a transfer.\<close>

lemma setup_step:
  assumes "u_rst_n b \<noteq> SIG0"
  shows "usbh_step r (setup_host st s x k) b = stdreq_step (setup_host st s x (Suc k)) b b"
proof -
  have "(setup_host st s x k)\<lparr>h_cycle := h_cycle (setup_host st s x k) + 1\<rparr> = setup_host st s x (Suc k)"
    by (simp add: setup_host_def add.commute [of 1] add.assoc)
  then show ?thesis using assms by (simp add: usbh_step_def usbh_frame_busy host_order usbh_dispatch_def)
qed

text \<open>The step-function and the type of packet \<open>s\<close>, and the transfer when the host enters it.\<close>

definition packet_type :: "nat \<Rightarrow> xfer_type" where
  "packet_type s = [SETUP, DnDATA0, UpACK, IN, UpDATA1, DnACK, OUT, DnDATA1, UpACK] ! s"

definition packet_step :: "nat \<Rightarrow> step_fn" where
  "packet_step s = [token_send_step, datax_send_step, ack_recv_step, token_send_step, datax_recv_step, ack_send_step,
     token_send_step, datax_send_step, ack_recv_step] ! s"

definition entered :: "nat \<Rightarrow> transfer_t \<Rightarrow> transfer_t" where
  "entered s x = (if x_type x = packet_type s then x
     else (let y = x\<lparr>x_type := packet_type s, x_stage := NoXfer\<rparr> in
       if s = 4 then y\<lparr>x_rx_len := int MAX_PACKET_SIZE, x_rx_ptr := 0\<rparr>
       else if s = 7 then y\<lparr>x_tx_len := 0\<rparr> else y))"

lemma packet_simps [simp]:
  "packet_step 0 = token_send_step" "packet_step (Suc 0) = datax_send_step" "packet_step 2 = ack_recv_step"
  "packet_step 3 = token_send_step" "packet_step 4 = datax_recv_step" "packet_step 5 = ack_send_step"
  "packet_step 6 = token_send_step" "packet_step 7 = datax_send_step" "packet_step 8 = ack_recv_step"
  "packet_type 0 = SETUP" "packet_type (Suc 0) = DnDATA0" "packet_type 2 = UpACK" "packet_type 3 = IN"
  "packet_type 4 = UpDATA1" "packet_type 5 = DnACK" "packet_type 6 = OUT" "packet_type 7 = DnDATA1" "packet_type 8 = UpACK"
  by (simp_all add: packet_step_def packet_type_def)

lemma below_9: "s < 9 \<Longrightarrow> s \<in> {0, 1, 2, 3, 4, 5, 6, 7, 8 :: nat}"
  by auto

lemma entered_type [simp]: "x_type (entered s x) = packet_type s"
  by (simp add: entered_def Let_def)

lemma stdreq_packet_eq:
  assumes "s < 9" and "s = 0 \<longrightarrow> x_type x = SETUP" and "s = 1 \<longrightarrow> x_type x = DnDATA0 \<or> x_tx_len x \<ge> 8"
  shows "stdreq_packet (setup_host st s x k) inb out = on_xfer (packet_step s) (setup_host st s (entered s x) k) inb out"
  using below_9 [OF assms(1)] assms(2,3)
  by (elim insertE emptyE; simp add: stdreq_packet_def entered_def enter_packet_def Let_def)

lemma packet_clock:
  assumes "s < 9" and "s = 0 \<longrightarrow> x_type x = SETUP" and "s = 1 \<longrightarrow> x_type x = DnDATA0 \<or> x_tx_len x \<ge> 8" and "u_rst_n b \<noteq> SIG0"
    and "packet_step s (entered s x) b b = Inr (z, y, out)" and "0 \<le> z" and "z \<le> 1"
  shows "ut_step env (at_packet st UT_Test s x b k) =
    Inr (0, at_packet st (if z = 1 then UT_Idle else UT_Test) s y b (Suc k), out)"
proof -
  have "usbh_step r (setup_host st s x k) b = Inr (z, setup_host st s y (Suc k), out)" for r
    using assms(5,7) by (simp add: setup_step [OF assms(4)] stdreq_step_def stdreq_packet_eq [OF assms(1-3)] on_xfer_def)
  then show ?thesis using assms(6,7) by (auto simp: ut_step_def Let_def at_packet_def)
qed

text \<open>Entering a packet takes no clock of its own.\<close>

definition enterable :: "nat \<Rightarrow> transfer_t \<Rightarrow> bool" where
  "enterable s x \<longleftrightarrow> s < 9 \<and> (s = 0 \<longrightarrow> x_type x = SETUP) \<and> (s = 1 \<longrightarrow> x_type x = DnDATA0 \<or> x_tx_len x \<ge> 8)"

lemma enterable_typed: "s < 9 \<Longrightarrow> x_type x = packet_type s \<Longrightarrow> enterable s x"
  by (auto simp: enterable_def)

lemma entered_typed: "x_type x = packet_type s \<Longrightarrow> entered s x = x"
  by (simp add: entered_def)

lemma enter_clock:
  assumes "enterable s x" and "u_rst_n b \<noteq> SIG0"
  shows "ut_step env (at_packet st UT_Test s x b k) = ut_step env (at_packet st UT_Test s (entered s x) b k)"
proof -
  have e: "enterable s (entered s x)" using assms(1) by (simp add: enterable_typed enterable_def)
  have "usbh_step r (setup_host st s x k) b = usbh_step r (setup_host st s (entered s x) k) b" for r
    using assms e by (simp add: setup_step stdreq_step_def stdreq_packet_eq enterable_def entered_typed)
  then show ?thesis by (simp add: ut_step_def Let_def at_packet_def)
qed

lemma enter_goes:
  assumes "enterable s x" and "u_rst_n b \<noteq> SIG0"
    and "goes user addr (Suc n) (at_packet st UT_Test s (entered s x) b k, u) s'"
  shows "goes user addr (Suc n) (at_packet st UT_Test s x b k, u) s'"
  using assms(3) enter_clock [OF assms(1,2)] by (simp add: goes_def)

text \<open>The clocks of a packet but the last, from its turns.\<close>

lemma turn_clock:
  assumes "s < 9" and "x_type x = packet_type s" and "u_rst_n b \<noteq> SIG0"
    and "turn (packet_step s) user (x, b, b, u) = Some (x1, b1, o1, u1)"
  shows "goes user addr 1 (at_packet st UT_Test s x b k, u) (at_packet st UT_Test s x1 (settle b1) (Suc k), u1)"
proof -
  obtain out z where f: "packet_step s x b b = Inr (0, x1, out)" and us: "user u out out = Inr (z, u1, b1)"
    using assms(4) by (auto simp: turn_def or_eq_0_iff split: sum.splits if_splits)
  have "enterable s x" using assms(1,2) by (rule enterable_typed)
  then have "ut_step env (at_packet st UT_Test s x b k) = Inr (0, at_packet st UT_Test s x1 b (Suc k), out)" for env
    using packet_clock [where z = 0 and s = s and x = x and y = x1] assms(2,3) f by (simp add: enterable_def entered_typed)
  from goes_clock [where user = user, OF this us] show ?thesis by simp
qed

lemma turns_goes:
  assumes "s < 9"
    and keep: "\<And>x b u x1 b1 o1 u1. \<lbrakk>turn (packet_step s) user (x, b, b, u) = Some (x1, b1, o1, u1); I x b u;
      x_type x = packet_type s; u_rst_n b \<noteq> SIG0\<rbrakk> \<Longrightarrow>
      o1 = b1 \<and> x_type x1 = packet_type s \<and> u_rst_n b1 \<noteq> SIG0 \<and>
      (settle b1 = b1 \<and> I x1 b1 u1 \<or> turn (packet_step s) user (x1, b1, b1, u1) = None)"
  shows "\<lbrakk>turns (Suc n) (packet_step s) user (x, b, b, u) = Some (x', b', o', u'); I x b u;
      x_type x = packet_type s; u_rst_n b \<noteq> SIG0\<rbrakk> \<Longrightarrow>
    goes user addr (Suc n) (at_packet st UT_Test s x b k, u) (at_packet st UT_Test s x' (settle b') (k + Suc n), u')"
proof (induction n arbitrary: x b u k)
  case 0
  then have "turn (packet_step s) user (x, b, b, u) = Some (x', b', o', u')" by (auto simp: bind_eq_Some_conv)
  from turn_clock [OF assms(1) 0(3,4) this] show ?case by simp
next
  case (Suc n)
  from Suc.prems(1) obtain x1 b1 o1 u1 where t: "turn (packet_step s) user (x, b, b, u) = Some (x1, b1, o1, u1)"
    and ts: "turns (Suc n) (packet_step s) user (x1, b1, o1, u1) = Some (x', b', o', u')"
    by (auto simp: bind_eq_Some_conv simp del: turns.simps(2) simp: turns.simps(2) [of "Suc n"])
  note k = keep [OF t Suc.prems(2-4)]
  have "o1 = b1" using k by (rule conjunct1)
  then have "turn (packet_step s) user (x1, b1, b1, u1) \<noteq> None" using ts by (auto simp: bind_eq_Some_conv)
  then have s: "settle b1 = b1" "I x1 b1 u1" using k by (auto simp del: not_None_eq)
  have 1: "goes user addr 1 (at_packet st UT_Test s x b k, u) (at_packet st UT_Test s x1 b1 (Suc k), u1)"
    using turn_clock [OF assms(1) Suc.prems(3,4) t] s(1) by simp
  have 2: "goes user addr (Suc n) (at_packet st UT_Test s x1 b1 (Suc k), u1) (at_packet st UT_Test s x' (settle b') (Suc k + Suc n), u')"
    by (rule Suc.IH) (use ts k s in auto)
  show ?case using goes_trans [OF 1 2] by simp
qed

text \<open>The last clock of a packet.\<close>

lemma last_goes:
  assumes "s < 9" and "x_type x = packet_type s" and "u_rst_n b \<noteq> SIG0"
    and "packet_step s x b b = Inr (1, y, out)" and "user u out out = Inr (z, u', bus)"
  shows "goes user addr 1 (at_packet st UT_Test s x b k, u) (at_packet st UT_Idle s y (settle bus) (Suc k), u')"
proof -
  have "enterable s x" using assms(1,2) by (rule enterable_typed)
  then have "ut_step env (at_packet st UT_Test s x b k) = Inr (0, at_packet st UT_Idle s y b (Suc k), out)" for env
    using packet_clock [where z = 1 and s = s and x = x and y = y] assms(2-4) by (simp add: enterable_def entered_typed)
  from goes_clock [where user = user, OF this assms(5)] show ?thesis by simp
qed

text \<open>The clock in which the test-case is called.\<close>

definition advanced :: "nat \<Rightarrow> transfer_t \<Rightarrow> transfer_t" where
  "advanced s x = (if s = 2 then set_seq0 SIG1 x
     else if s = 6 then x\<lparr>x_tx_len := 0, x_type := DnDATA1, x_crc1 := 0x00, x_crc2 := 0x00\<rparr> else x)"

definition curr_ok :: "ut_state_t \<Rightarrow> bool" where
  "curr_ok st \<longleftrightarrow> 0 \<le> s_test_curr st \<and> s_test_curr st < int (length (s_tests st))"

lemma advance_test:
  assumes "s < 8"
  shows "tc_getdesc_step (setup_host st s x k) (ctrl_of s) = Inr (0, setup_host st (Suc s) (advanced s x) k, ctrl_of (Suc s))"
proof -
  have "s \<in> {0, 1, 2, 3, 4, 5, 6, 7}" using assms by auto
  moreover have "next_step (setup_host st s x k) = setup_host st (Suc s) x k" for x
    by (simp add: next_step_def setup_host_def busy_def with_xfer_def add.commute)
  ultimately show ?thesis
    by (elim insertE emptyE; simp add: tc_getdesc_step_def ctrl_of_def advanced_def set_seq_def)
qed

lemma advance_goes:
  assumes "s < 8" and "curr_ok st" and "user u (ulpi_bus_idle b) (ulpi_bus_idle b) = Inr (z, u', ulpi_bus_idle b)"
  shows "goes user addr 1 (at_packet st UT_Idle s x (ulpi_bus_idle b) k, u)
    (at_packet st UT_Test (Suc s) (advanced s x) (ulpi_bus_idle b) (Suc k), u')"
proof -
  have idle: "ulpi_bus_is_idle (ulpi_bus_idle b)" by (simp add: ulpi_bus_is_idle_def)
  have h: "(setup_host st s x k)\<lparr>h_cycle := h_cycle (setup_host st s x k) + 1\<rparr> = setup_host st s x (Suc k)"
    by (simp add: setup_host_def add.commute [of 1] add.assoc)
  have n: "nat (s_test_curr st) < length (s_tests st)" using assms(2) by (auto simp: curr_ok_def)
  have "ut_step env (at_packet st UT_Idle s x (ulpi_bus_idle b) k) =
      Inr (0, at_packet st UT_Test (Suc s) (advanced s x) (ulpi_bus_idle b) (Suc k), ulpi_bus_idle b)" for env
    using assms(2) n idle h advance_test [OF assms(1), of st x "Suc k"]
    by (simp add: ut_step_def test_step_def at_packet_def Let_def curr_ok_def aget_def as_tc_def)
  from goes_clock [where user = user, OF this assms(3)] show ?thesis by simp
qed

subsection \<open>Packets the host sends\<close>

text \<open>While the host sends, \<open>DIR\<close> is high from the first clock until the line is idle.\<close>

definition sends_on :: "transfer_t \<Rightarrow> ulpi_bus_t \<Rightarrow> bool" where
  "sends_on x b \<longleftrightarrow> x_stage x = NoXfer \<or> u_dir b = SIG1"

definition send_contract :: "nat \<Rightarrow> bool" where
  "send_contract s \<longleftrightarrow> (\<forall>x b x1 b1. packet_step s x b b = Inr (0, x1, b1) \<longrightarrow> sends_on x b \<longrightarrow> x_type x = packet_type s \<longrightarrow>
     x_type x1 = packet_type s \<and> u_rst_n b1 = u_rst_n b \<and> (u_dir b1 = SIG1 \<or> x_stage x1 = LineIdle))"

lemma send_contracts: "s \<in> {0, 1, 3, 5, 6, 7} \<Longrightarrow> send_contract s"
  unfolding send_contract_def
  by (elim insertE emptyE; simp)
    (auto simp: sends_on_def token_send_step_def datax_send_step_def ack_send_step_def drive_eop_def Let_def bind_c_eq_Inr
       split: if_splits)

lemma line_idle_stuck:
  assumes "s \<in> {0, 1, 3, 5, 6, 7}" and "x_type x = packet_type s" and "x_stage x = LineIdle"
  shows "turn (packet_step s) listen (x, b, b, u) = None"
  using assms
  by (elim insertE emptyE; simp)
    (auto simp: turn_def token_send_step_def datax_send_step_def ack_send_step_def drive_eop_def assert_c_def Let_def xfer_order listen_def
       split: sum.splits if_splits)

lemma hear_goes:
  assumes "s \<in> {0, 1, 3, 5, 6, 7}" and "enterable s x" and "x_stage (entered s x) = NoXfer"
    and turns: "turns (Suc n) (packet_step s) listen (entered s x, ulpi_bus_idle b, ulpi_bus_idle b, u) =
      Some (y, bus_released b, bus_released b, u')" and ty: "x_type y = packet_type s"
    and last: "packet_step s y (ulpi_bus_idle b) (ulpi_bus_idle b) = Inr (1, z, ulpi_bus_idle b)"
  shows "goes listen addr (n + 2) (at_packet st UT_Test s x (ulpi_bus_idle b) k, u)
    (at_packet st UT_Idle s z (ulpi_bus_idle b) (k + (n + 2)), u')"
proof -
  have s: "s < 9" using assms(2) by (simp add: enterable_def)
  note sc = send_contracts [OF assms(1), unfolded send_contract_def, rule_format]
  have keep: "o1 = b1 \<and> x_type x1 = packet_type s \<and> u_rst_n b1 \<noteq> SIG0 \<and>
      (settle b1 = b1 \<and> sends_on x1 b1 \<or> turn (packet_step s) listen (x1, b1, b1, u1) = None)"
    if "turn (packet_step s) listen (x, b, b, u) = Some (x1, b1, o1, u1)" "sends_on x b" "x_type x = packet_type s"
      "u_rst_n b \<noteq> SIG0" for x b u x1 b1 o1 u1
  proof -
    note t = turn_listen [OF that(1)]
    note c = sc [OF t(1) that(2,3)]
    show ?thesis
    proof (cases "u_dir b1 = SIG1")
      case True
      then show ?thesis using c t that(4) by (simp add: settle_def sends_on_def)
    next
      case False
      then show ?thesis using c t that(4) line_idle_stuck [OF assms(1), of x1 b1 u1] by simp
    qed
  qed
  have 1: "goes listen addr (Suc n) (at_packet st UT_Test s (entered s x) (ulpi_bus_idle b) k, u)
      (at_packet st UT_Test s y (ulpi_bus_idle b) (k + Suc n), u')"
    using turns_goes [where user = listen and I = "\<lambda>x b _. sends_on x b", OF s keep turns] assms(3) by (simp add: sends_on_def)
  have 2: "goes listen addr 1 (at_packet st UT_Test s y (ulpi_bus_idle b) (k + Suc n), u')
      (at_packet st UT_Idle s z (ulpi_bus_idle b) (Suc (k + Suc n)), u')"
    using last_goes [where user = listen and z = 0, OF s ty _ last] by (simp add: listen_def)
  show ?thesis using goes_trans [OF enter_goes [OF assms(2) _ 1] 2] by simp
qed

text \<open>The three kinds.\<close>

lemma token_goes:
  assumes "s \<in> {0, 3, 6}" and "enterable s x" and "x_stage (entered s x) = NoXfer"
  shows "goes listen addr 9 (at_packet st UT_Test s x (ulpi_bus_idle b) k, u)
    (at_packet st UT_Idle s ((entered s x)\<lparr>x_type := XferIdle\<rparr>) (ulpi_bus_idle b) (k + 9),
      u @ [transfer_type_to_pid (entered s x), x_tok1 x, x_tok2 x])"
proof -
  let ?x = "entered s x"
  have f: "packet_step s = token_send_step" and ty: "x_type ?x \<in> {SETUP, OUT, IN, SOF}"
    using assms(1) by auto
  have tok: "x_tok1 ?x = x_tok1 x" "x_tok2 ?x = x_tok2 x" by (simp_all add: entered_def Let_def)
  have t: "turns (Suc 7) (packet_step s) listen (?x, ulpi_bus_idle b, ulpi_bus_idle b, u) =
      Some (?x\<lparr>x_stage := LineIdle\<rparr>, bus_released b, bus_released b, u @ [transfer_type_to_pid ?x, x_tok1 x, x_tok2 x])"
    using token_turns [OF ty assms(3), of b "ulpi_bus_idle b" u] unfolding f tok by simp
  have "packet_step s (?x\<lparr>x_stage := LineIdle\<rparr>) (ulpi_bus_idle b) (ulpi_bus_idle b) =
      Inr (1, ?x\<lparr>x_type := XferIdle, x_stage := NoXfer\<rparr>, ulpi_bus_idle b)"
    using ty unfolding f by (auto simp: token_send_step_def drive_eop_def xfer_order)
  moreover have "?x\<lparr>x_type := XferIdle, x_stage := NoXfer\<rparr> = ?x\<lparr>x_type := XferIdle\<rparr>"
    using assms(3) by (cases ?x) simp
  ultimately show ?thesis
    using hear_goes [OF _ assms(2,3) t, where st = st and k = k and addr = addr] assms(1) by auto
qed

lemma data_goes:
  assumes "s \<in> {1, 7}" and "enterable s x" and "x_stage (entered s x) = NoXfer" and "sending (entered s x)"
    and "x_tx_len (entered s x) > 0 \<longrightarrow> x_tx_ptr x = 0" and "nat (x_tx_len (entered s x)) = n"
  shows "goes listen addr (n + 9) (at_packet st UT_Test s x (ulpi_bus_idle b) k, u)
    (at_packet st UT_Idle s ((data_sent (entered s x))\<lparr>x_type := XferIdle\<rparr>) (ulpi_bus_idle b) (k + (n + 9)),
      u @ data_pid (entered s x) # data_bytes (entered s x))"
proof -
  let ?x = "entered s x"
  have f: "packet_step s = datax_send_step" using assms(1) by auto
  have "x_tx_ptr ?x = x_tx_ptr x" using assms(1) by (auto simp: entered_def Let_def)
  moreover have n: "Suc (n + 7) = nat (x_tx_len ?x) + 8" using assms(6) by simp
  ultimately have t: "turns (Suc (n + 7)) (packet_step s) listen (?x, ulpi_bus_idle b, ulpi_bus_idle b, u) =
      Some ((data_sent ?x)\<lparr>x_stage := LineIdle\<rparr>, bus_released b, bus_released b, u @ data_pid ?x # data_bytes ?x)"
    using datax_turns [OF assms(4,3), of b "ulpi_bus_idle b" u] assms(5) unfolding f n by simp
  have "packet_step s ((data_sent ?x)\<lparr>x_stage := LineIdle\<rparr>) (ulpi_bus_idle b) (ulpi_bus_idle b) =
      Inr (1, (data_sent ?x)\<lparr>x_type := XferIdle, x_stage := NoXfer\<rparr>, ulpi_bus_idle b)"
    unfolding f using datax_last [of "(data_sent ?x)\<lparr>x_stage := LineIdle\<rparr>" "ulpi_bus_idle b"] assms(4) by simp
  moreover have "(data_sent ?x)\<lparr>x_type := XferIdle, x_stage := NoXfer\<rparr> = (data_sent ?x)\<lparr>x_type := XferIdle\<rparr>"
    using assms(3) by (cases ?x) (simp add: data_sent_def)
  moreover have "x_type (data_sent ?x) = packet_type s" by (simp add: data_sent_def)
  moreover have "s \<in> {0, 1, 3, 5, 6, 7}" using assms(1) by auto
  moreover have m: "n + 9 = (n + 7) + 2" by simp
  ultimately show ?thesis
    unfolding m using hear_goes [OF _ assms(2,3) t, where st = st and k = k and addr = addr] by simp
qed

lemma ack_goes:
  assumes "x_type x \<noteq> DnACK"
  shows "goes listen addr 7 (at_packet st UT_Test 5 x (ulpi_bus_idle b) k, u)
    (at_packet st UT_Idle 5 (x\<lparr>x_type := XferIdle, x_stage := NoXfer\<rparr>) (ulpi_bus_idle b) (k + 7), u @ [0xD2])"
proof -
  let ?x = "entered 5 x"
  have x: "?x = x\<lparr>x_type := DnACK, x_stage := NoXfer\<rparr>" using assms by (simp add: entered_def)
  have t: "turns (Suc 5) (packet_step 5) listen (?x, ulpi_bus_idle b, ulpi_bus_idle b, u) =
      Some (?x\<lparr>x_stage := LineIdle\<rparr>, bus_released b, bus_released b, u @ [0xD2])"
    using ack_turns [of ?x b u] by (simp add: x)
  have "packet_step 5 (?x\<lparr>x_stage := LineIdle\<rparr>) (ulpi_bus_idle b) (ulpi_bus_idle b) =
      Inr (1, x\<lparr>x_type := XferIdle, x_stage := NoXfer\<rparr>, ulpi_bus_idle b)"
    by (simp add: x ack_send_step_def drive_eop_def)
  then show ?thesis
    using hear_goes [OF _ _ _ t, where st = st and k = k and addr = addr] by (simp add: enterable_def x)
qed

subsection \<open>Packets the link sends\<close>

lemma turns_in_link:
  "turns n f link_send (x, b, out, l) = Some (x', b', out', l') \<Longrightarrow>
    turns n f in_link (x, b, out, (0, l)) = Some (x', b', out', (0, l'))"
proof (induction n arbitrary: x b out l)
  case 0
  then show ?case by simp
next
  case (Suc n)
  from Suc.prems obtain x1 b1 o1 l1 where t: "turn f link_send (x, b, out, l) = Some (x1, b1, o1, l1)"
    and ts: "turns n f link_send (x1, b1, o1, l1) = Some (x', b', out', l')" by (auto simp: bind_eq_Some_conv)
  have "turn f in_link (x, b, out, (0, l)) = Some (x1, b1, o1, (0, l1))"
    using t by (auto simp: turn_def split: sum.splits if_splits prod.splits)
  then show ?case using Suc.IH [OF ts] by simp
qed

lemma link_settles: "link_send l b out = Inr (z, l', b') \<Longrightarrow> u_dir out = u_dir b \<Longrightarrow> settle b' = b' \<and> u_rst_n b' = u_rst_n out"
  by (auto simp: link_send_def settle_def link_put_def Let_def split: if_splits)

lemma recv_contract:
  assumes "s \<in> {2, 4, 8}" and "packet_step s x b b = Inr (0, x1, b1)" and "x_type x = packet_type s"
  shows "x_type x1 = packet_type s \<and> u_rst_n b1 = u_rst_n b"
  using assms
  by (elim insertE emptyE; simp)
    (auto simp: datax_recv_step_def ack_recv_step_def transfer_ack_def drive_eop_def check_rx_crc16_def Let_def bind_c_eq_Inr
       split: if_splits)

lemma wait_goes:
  assumes "s < 9" and "x_type x = packet_type s"
    and "packet_step s x (ulpi_bus_idle b) (ulpi_bus_idle b) = Inr (0, x, ulpi_bus_idle b)"
  shows "goes in_link addr w (at_packet st UT_Test s x (ulpi_bus_idle b) k, (w + v, l))
    (at_packet st UT_Test s x (ulpi_bus_idle b) (k + w), (v, l))"
proof (induction w arbitrary: k)
  case 0
  show ?case by (simp add: goes_def)
next
  case (Suc w)
  have "turn (packet_step s) in_link (x, ulpi_bus_idle b, ulpi_bus_idle b, (Suc w + v, l)) =
      Some (x, ulpi_bus_idle b, ulpi_bus_idle b, (w + v, l))"
    using assms(3) by (simp add: turn_def)
  from turn_clock [OF assms(1,2) _ this]
  have 1: "goes in_link addr 1 (at_packet st UT_Test s x (ulpi_bus_idle b) k, (Suc w + v, l))
      (at_packet st UT_Test s x (ulpi_bus_idle b) (Suc k), (w + v, l))" by simp
  show ?case using goes_trans [OF 1 Suc.IH] by simp
qed

lemma sent_idle: "sent_bus b 0 SIG0 SIG0 = ulpi_bus_idle b"
  by (rule bus_eqI) simp_all

lemma recv_goes:
  assumes "s \<in> {2, 4, 8}" and "enterable s x"
    and wait: "packet_step s (entered s x) (ulpi_bus_idle b) (ulpi_bus_idle b) = Inr (0, entered s x, ulpi_bus_idle b)"
    and turns: "turns (Suc n) (packet_step s) link_send (entered s x, ulpi_bus_idle b, ulpi_bus_idle b, link_start pkt) =
      Some (y, ulpi_bus_idle b, ulpi_bus_idle b, link_done)" and ty: "x_type y = packet_type s"
    and last: "packet_step s y (ulpi_bus_idle b) (ulpi_bus_idle b) = Inr (1, z, ulpi_bus_idle b)"
  shows "goes in_link addr (w + (n + 2)) (at_packet st UT_Test s x (ulpi_bus_idle b) k, (w, link_start pkt))
    (at_packet st UT_Idle s z (ulpi_bus_idle b) (k + (w + (n + 2))), (0, link_done))"
proof -
  have s: "s < 9" using assms(2) by (simp add: enterable_def)
  have keep: "o1 = b1 \<and> x_type x1 = packet_type s \<and> u_rst_n b1 \<noteq> SIG0 \<and>
      (settle b1 = b1 \<and> fst u1 = 0 \<or> turn (packet_step s) in_link (x1, b1, b1, u1) = None)"
    if t: "turn (packet_step s) in_link (x, b, b, u) = Some (x1, b1, o1, u1)" "fst u = 0" "x_type x = packet_type s"
      "u_rst_n b \<noteq> SIG0" for x b u x1 b1 o1 u1
  proof -
    obtain l where u: "u = (0, l)" using t(2) by (cases u) simp
    from t(1) obtain out q l1 where f: "packet_step s x b b = Inr (0, x1, out)" and l: "link_send l out out = Inr (q, l1, b1)"
      and o: "o1 = b1" "u1 = (0, l1)"
      by (auto simp: turn_def u or_eq_0_iff bind_c_def split: sum.splits if_splits)
    then show ?thesis using recv_contract [OF assms(1) f t(3)] link_settles [OF l refl] t(4) by simp
  qed
  have 1: "goes in_link addr w (at_packet st UT_Test s (entered s x) (ulpi_bus_idle b) k, (w + 0, link_start pkt))
      (at_packet st UT_Test s (entered s x) (ulpi_bus_idle b) (k + w), (0, link_start pkt))"
    by (rule wait_goes [OF s entered_type wait])
  have 2: "goes in_link addr (Suc n) (at_packet st UT_Test s (entered s x) (ulpi_bus_idle b) (k + w), (0, link_start pkt))
      (at_packet st UT_Test s y (ulpi_bus_idle b) (k + w + Suc n), (0, link_done))"
    using turns_goes [where user = in_link and I = "\<lambda>_ _ u. fst u = 0", OF s keep turns_in_link [OF turns]] by simp
  have "in_link (0, link_done) (ulpi_bus_idle b) (ulpi_bus_idle b) = Inr (0, (0, link_done), ulpi_bus_idle b)"
    using link_done_step [of b] by (simp add: sent_idle)
  then have 3: "goes in_link addr 1 (at_packet st UT_Test s y (ulpi_bus_idle b) (k + w + Suc n), (0, link_done))
      (at_packet st UT_Idle s z (ulpi_bus_idle b) (Suc (k + w + Suc n)), (0, link_done))"
    using last_goes [where user = in_link and z = 0 and u = "(0, link_done)" and u' = "(0, link_done)" and bus = "ulpi_bus_idle b",
        OF s ty _ last] by (simp del: in_link.simps)
  have "w + (n + 2) = Suc (w + n + 1)" by simp
  then show ?thesis
    using enter_goes [OF assms(2), where user = in_link and n = "w + n + 1"] goes_trans [OF goes_trans [OF 1 2] 3] by (simp add: add.assoc)
qed

text \<open>The two handshakes of the device, and its data packet.\<close>

lemma ack_recv_turns:
  assumes "x_type x = UpACK" and "x_stage x = NoXfer" and "unat (x_endpoint x) < length (x_ep_seq x)"
  shows "turns 4 ack_recv_step link_send (x, ulpi_bus_idle b, ulpi_bus_idle b, link_start [ULPITX_ACK]) =
    Some (x\<lparr>x_stage := HskStop, x_ep_seq := (x_ep_seq x)[unat (x_endpoint x) := toggle (x_ep_seq x ! unat (x_endpoint x))]\<rparr>,
      ulpi_bus_idle b, ulpi_bus_idle b, link_done)"
proof -
  have "transfer_ack (x\<lparr>x_stage := HskPID\<rparr>) =
      Inr (x\<lparr>x_stage := HskPID, x_ep_seq := (x_ep_seq x)[unat (x_endpoint x) := toggle (x_ep_seq x ! unat (x_endpoint x))]\<rparr>)"
    using assms(3) by (simp add: transfer_ack_def aget_def aput_def toggle_def Let_def flip: unat_eq_nat_uint)
  then show ?thesis
    using assms(1,2) by (auto simp: turns_numeral turn_def ack_recv_step_def link_send_def link_start_def ulpi_bus_is_idle_def
      Let_def intro!: bus_eqI)
qed

definition handshaken :: "transfer_t \<Rightarrow> transfer_t" where
  "handshaken x = x\<lparr>x_type := UpACK, x_stage := NoXfer,
     x_ep_seq := (x_ep_seq x)[unat (x_endpoint x) := toggle (x_ep_seq x ! unat (x_endpoint x))]\<rparr>"

lemma handshake_goes:
  assumes "s \<in> {2, 8}" and "x_type x \<noteq> UpACK" and "unat (x_endpoint x) < length (x_ep_seq x)"
  shows "goes in_link addr (w + 5) (at_packet st UT_Test s x (ulpi_bus_idle b) k, (w, link_start [ULPITX_ACK]))
    (at_packet st UT_Idle s (handshaken x) (ulpi_bus_idle b) (k + (w + 5)), (0, link_done))"
proof -
  let ?x = "entered s x"
  let ?y = "?x\<lparr>x_stage := HskStop, x_ep_seq := (x_ep_seq ?x)[unat (x_endpoint ?x) := toggle (x_ep_seq ?x ! unat (x_endpoint ?x))]\<rparr>"
  have f: "packet_step s = ack_recv_step" and ty: "packet_type s = UpACK" and s: "s < 9" "s \<in> {2, 4, 8}" "s \<noteq> 0" "s \<noteq> Suc 0" "s \<noteq> 4" "s \<noteq> 7"
    using assms(1) by auto
  have x: "?x = x\<lparr>x_type := UpACK, x_stage := NoXfer\<rparr>" using assms(2) s by (simp add: entered_def ty)
  have t: "turns (Suc 3) (packet_step s) link_send (?x, ulpi_bus_idle b, ulpi_bus_idle b, link_start [ULPITX_ACK]) =
      Some (?y, ulpi_bus_idle b, ulpi_bus_idle b, link_done)"
    unfolding f using ack_recv_turns [of ?x b] assms(3) by (simp add: x)
  have wait: "packet_step s ?x (ulpi_bus_idle b) (ulpi_bus_idle b) = Inr (0, ?x, ulpi_bus_idle b)"
    by (simp add: f x ack_recv_step_def ulpi_bus_is_idle_def)
  have last: "packet_step s ?y (ulpi_bus_idle b) (ulpi_bus_idle b) = Inr (1, handshaken x, ulpi_bus_idle b)"
    by (simp add: f x ack_recv_step_def handshaken_def)
  have e: "enterable s x" using s by (simp add: enterable_def)
  have "x_type ?y = packet_type s" by simp
  from recv_goes [OF s(2) e wait t this last, where st = st and k = k and addr = addr and w = w]
  show ?thesis by simp
qed

lemma descriptor_goes:
  assumes "x_type x \<noteq> UpDATA1" and "check_seq x (ULPITX_DATA1 AND 0x0F)" and "length ps + 2 \<le> length (x_rx x)" and "crc_right ps c1 c2"
  shows "goes in_link addr (w + (length ps + 11))
    (at_packet st UT_Test 4 x (ulpi_bus_idle b) k, (w, link_start (ULPITX_DATA1 # ps @ [c1, c2])))
    (at_packet st UT_Idle 4 ((received (entered 4 x) ps c1 c2)\<lparr>x_type := XferIdle, x_stage := NoXfer\<rparr>) (ulpi_bus_idle b)
      (k + (w + (length ps + 11))), (0, link_done))"
proof -
  let ?x = "entered 4 x"
  have x: "?x = x\<lparr>x_type := UpDATA1, x_stage := NoXfer, x_rx_len := int MAX_PACKET_SIZE, x_rx_ptr := 0\<rparr>"
    using assms(1) by (simp add: entered_def Let_def)
  have r: "receiving ?x ULPITX_DATA1" using assms(2) by (simp add: receiving_def check_seq_def x)
  have "?x\<lparr>x_stage := NoXfer\<rparr> = ?x" by (simp add: x)
  moreover have "Suc (length ps + 9) = 4 + (length ps + 2) + 1 + 3" by simp
  moreover have "length ps + 2 \<le> length (x_rx ?x)" using assms(3) by (simp add: x)
  ultimately have t: "turns (Suc (length ps + 9)) (packet_step 4) link_send
      (?x, ulpi_bus_idle b, ulpi_bus_idle b, link_start (ULPITX_DATA1 # ps @ [c1, c2])) =
    Some ((received ?x ps c1 c2)\<lparr>x_stage := LineIdle\<rparr>, ulpi_bus_idle b, ulpi_bus_idle b, link_done)"
    using recv_turns [OF r _ assms(4), of b "ulpi_bus_idle b"] by (simp only: sent_idle packet_simps)
  have wait: "packet_step 4 ?x (ulpi_bus_idle b) (ulpi_bus_idle b) = Inr (0, ?x, ulpi_bus_idle b)"
    by (simp add: x datax_recv_step_def bus_eqI)
  have last: "packet_step 4 ((received ?x ps c1 c2)\<lparr>x_stage := LineIdle\<rparr>) (ulpi_bus_idle b) (ulpi_bus_idle b) =
      Inr (1, (received ?x ps c1 c2)\<lparr>x_type := XferIdle, x_stage := NoXfer\<rparr>, ulpi_bus_idle b)"
    using recv_last [OF r, of ps c1 c2 b] by (simp add: sent_idle)
  have ty: "x_type ((received ?x ps c1 c2)\<lparr>x_stage := LineIdle\<rparr>) = packet_type 4"
    by (simp add: received_def Let_def)
  have e: "enterable 4 x" by (simp add: enterable_def)
  have n: "length ps + 11 = length ps + 9 + 2" by simp
  show ?thesis
    unfolding n by (rule recv_goes [OF _ e wait t ty last]) simp
qed

subsection \<open>The stages of the transfer\<close>

lemma listen_idle: "listen u (ulpi_bus_idle b) (ulpi_bus_idle b) = Inr (0, u, ulpi_bus_idle b)"
  by (simp add: listen_def)

lemma entered_new:
  "x_type x \<noteq> packet_type s \<Longrightarrow> s \<noteq> 4 \<Longrightarrow> s \<noteq> 7 \<Longrightarrow> entered s x = x\<lparr>x_type := packet_type s, x_stage := NoXfer\<rparr>"
  by (simp add: entered_def Let_def)

text \<open>The SETUP token and the request.\<close>

definition setup_sent :: "transfer_t \<Rightarrow> transfer_t" where
  "setup_sent x = x\<lparr>x_type := XferIdle, x_tx_ptr := 8\<rparr>"

lemma setup_goes:
  assumes "curr_ok st" and x: "x_type x = SETUP" "x_stage x = NoXfer" "x_tx_len x = 8" "x_tx_ptr x = 0" "8 \<le> length (x_tx x)"
    "x_endpoint x = 0" "x_ep_seq x ! 0 = SIG0"
  shows "goes listen addr 28 (at_packet st UT_Test 0 x (ulpi_bus_idle b) k, u)
    (at_packet st UT_Test 2 (setup_sent x) (ulpi_bus_idle b) (k + 28),
      u @ [0x2D, x_tok1 x, x_tok2 x, 0xC3] @ take 8 (x_tx x) @ [x_crc1 x, x_crc2 x])"
proof -
  have e0: "entered 0 x = x" by (rule entered_typed) (simp add: x)
  have 1: "goes listen addr 9 (at_packet st UT_Test 0 x (ulpi_bus_idle b) k, u)
      (at_packet st UT_Idle 0 (x\<lparr>x_type := XferIdle\<rparr>) (ulpi_bus_idle b) (k + 9), u @ [0x2D, x_tok1 x, x_tok2 x])"
    using token_goes [of 0 x addr st b k u] x by (simp add: e0 enterable_def transfer_type_to_pid_def xfer_order)
  have 2: "goes listen addr 1 (at_packet st UT_Idle 0 y (ulpi_bus_idle b) m, v) (at_packet st UT_Test (Suc 0) y (ulpi_bus_idle b) (Suc m), v)" for y m v
    using advance_goes [of 0 st listen v b 0 v addr y m] assms(1) by (simp add: listen_idle advanced_def)
  let ?x = "x\<lparr>x_type := XferIdle\<rparr>" and ?y = "x\<lparr>x_type := DnDATA0\<rparr>"
  have e1: "entered (Suc 0) ?x = ?y" using x(2) by (cases x) (simp add: entered_def)
  have sd: "sending ?y" using x by (simp add: sending_def check_seq_def data_pid_def)
  have db: "data_bytes ?y = take 8 (x_tx x) @ [x_crc1 x, x_crc2 x]" "data_pid ?y = 0xC3"
    using x(3) by (simp_all add: data_bytes_def data_pid_def)
  have ds: "(data_sent ?y)\<lparr>x_type := XferIdle\<rparr> = setup_sent x" using x(3) by (cases x) (simp add: data_sent_def setup_sent_def)
  have 3: "goes listen addr 17 (at_packet st UT_Test (Suc 0) ?x (ulpi_bus_idle b) m, v)
      (at_packet st UT_Idle (Suc 0) (setup_sent x) (ulpi_bus_idle b) (m + 17), v @ 0xC3 # take 8 (x_tx x) @ [x_crc1 x, x_crc2 x])" for m v
    using data_goes [of "Suc 0" ?x 8 addr st b m v] x sd by (simp add: e1 enterable_def db ds)
  have 4: "goes listen addr 1 (at_packet st UT_Idle (Suc 0) y (ulpi_bus_idle b) m, v) (at_packet st UT_Test 2 y (ulpi_bus_idle b) (Suc m), v)" for y m v
    using advance_goes [of "Suc 0" st listen v b 0 v addr y m] assms(1) by (simp add: listen_idle advanced_def numeral_2_eq_2)
  show ?thesis
    using goes_trans [OF goes_trans [OF goes_trans [OF 1 2] 3] 4] by (simp add: add.commute [of _ k])
qed

text \<open>The acknowledgement of the data, the OUT token and the packet of no data.\<close>

definition status_sent :: "transfer_t \<Rightarrow> transfer_t" where
  "status_sent x = x\<lparr>x_tx_len := 0, x_crc1 := 0, x_crc2 := 0\<rparr>"

lemma status_goes:
  assumes "curr_ok st" and x: "x_type x = XferIdle" "x_stage x = NoXfer" "x_endpoint x = 0" "x_ep_seq x ! 0 = SIG1"
  shows "goes listen addr 28 (at_packet st UT_Test 5 x (ulpi_bus_idle b) k, u)
    (at_packet st UT_Test 8 (status_sent x) (ulpi_bus_idle b) (k + 28), u @ [0xD2, 0xE1, x_tok1 x, x_tok2 x, 0x4B, 0x00, 0x00])"
proof -
  have xx: "x\<lparr>x_type := XferIdle, x_stage := NoXfer\<rparr> = x" "x\<lparr>x_stage := NoXfer, x_type := XferIdle\<rparr> = x"
    using x(1,2) by (cases x; simp)+
  have 1: "goes listen addr 7 (at_packet st UT_Test 5 x (ulpi_bus_idle b) k, u)
      (at_packet st UT_Idle 5 x (ulpi_bus_idle b) (k + 7), u @ [0xD2])"
    using ack_goes [of x addr st b k u] x(1) by (simp add: xx)
  have 2: "goes listen addr 1 (at_packet st UT_Idle 5 y (ulpi_bus_idle b) m, v) (at_packet st UT_Test 6 y (ulpi_bus_idle b) (Suc m), v)" for y m v
    using advance_goes [of 5 st listen v b 0 v addr y m] assms(1) by (simp add: listen_idle advanced_def)
  have e6: "entered 6 x = x\<lparr>x_type := OUT, x_stage := NoXfer\<rparr>" using entered_new [of x 6] x(1) by simp
  have 3: "goes listen addr 9 (at_packet st UT_Test 6 x (ulpi_bus_idle b) m, v)
      (at_packet st UT_Idle 6 x (ulpi_bus_idle b) (m + 9), v @ [0xE1, x_tok1 x, x_tok2 x])" for m v
    using token_goes [of 6 x addr st b m v] xx by (simp add: e6 enterable_def transfer_type_to_pid_def xfer_order)
  let ?x = "x\<lparr>x_tx_len := 0, x_type := DnDATA1, x_crc1 := 0, x_crc2 := 0\<rparr>"
  have 4: "goes listen addr 1 (at_packet st UT_Idle 6 x (ulpi_bus_idle b) m, v) (at_packet st UT_Test 7 ?x (ulpi_bus_idle b) (Suc m), v)" for m v
    using advance_goes [of 6 st listen v b 0 v addr x m] assms(1) by (simp add: listen_idle advanced_def)
  have e7: "entered 7 ?x = ?x" by (rule entered_typed) simp
  have sd: "sending ?x" using x by (simp add: sending_def check_seq_def data_pid_def)
  have ds: "(data_sent ?x)\<lparr>x_type := XferIdle\<rparr> = status_sent x" using x(1) by (cases x) (simp add: data_sent_def status_sent_def)
  have 5: "goes listen addr 9 (at_packet st UT_Test 7 ?x (ulpi_bus_idle b) m, v)
      (at_packet st UT_Idle 7 (status_sent x) (ulpi_bus_idle b) (m + 9), v @ [0x4B, 0x00, 0x00])" for m v
    using data_goes [of 7 ?x 0 addr st b m v] x sd by (simp add: e7 enterable_def ds data_bytes_def data_pid_def)
  have 6: "goes listen addr 1 (at_packet st UT_Idle 7 y (ulpi_bus_idle b) m, v) (at_packet st UT_Test 8 y (ulpi_bus_idle b) (Suc m), v)" for y m v
    using advance_goes [of 7 st listen v b 0 v addr y m] assms(1) by (simp add: listen_idle advanced_def)
  show ?thesis
    using goes_trans [OF goes_trans [OF goes_trans [OF goes_trans [OF goes_trans [OF 1 2] 3] 4] 5] 6] by (simp add: add.commute [of _ k])
qed

subsection \<open>The transfer as a whole\<close>

text \<open>What the link does: it listens for \<open>n\<close> clocks, or sends a packet \<open>w\<close> clocks after the start of \<open>n\<close> clocks.\<close>

datatype peer = Hears nat | Sends nat nat "u8 list"

fun bench_phases :: "u64 \<Rightarrow> (nat \<Rightarrow> rand_t) \<Rightarrow> peer list \<Rightarrow> ut_state_t \<Rightarrow> u8 list \<Rightarrow> (ut_state_t \<times> u8 list) outcome" where
  "bench_phases addr rnd [] st u = Inr (st, u)"
| "bench_phases addr rnd (Hears n # ps) st u =
     bind_c (bench_talk listen addr rnd n st u) (\<lambda>(st, u). bench_phases addr (\<lambda>k. rnd (n + k)) ps st u)"
| "bench_phases addr rnd (Sends n w pkt # ps) st u =
     bind_c (bench_talk in_link addr rnd n st (w, link_start pkt)) (\<lambda>(st, _). bench_phases addr (\<lambda>k. rnd (n + k)) ps st u)"

lemma hears_phase:
  "goes listen addr n (st, u) (st', u') \<Longrightarrow> \<exists>rnd'. bench_phases addr rnd (Hears n # ps) st u = bench_phases addr rnd' ps st' u'"
  by (auto simp: goes_def)

lemma sends_phase:
  "goes in_link addr n (st, (w, link_start pkt)) (st', l) \<Longrightarrow>
    \<exists>rnd'. bench_phases addr rnd (Sends n w pkt # ps) st u = bench_phases addr rnd' ps st' u"
  by (auto simp: goes_def)

text \<open>The clock that starts the test-case, and the one that ends it.\<close>

definition first_xfer :: "u64 \<Rightarrow> usb_host_t \<Rightarrow> transfer_t" where
  "first_xfer addr h = (let req = \<lparr>bmRequestType = 0x80, bRequest = STDREQ_GET_DESCRIPTOR, wValue = 0x0301, wIndex = 0,
       wLength = of_nat MAX_CONFIG_SIZE, req_data = addr\<rparr> in
     (h_xfer h)\<lparr>x_address := h_addr h, x_endpoint := 0, x_ep_seq := (x_ep_seq (h_xfer h))[0 := SIG0],
       x_tok1 := lo8 (crc5_calc (ucast (h_addr h) AND 0x7F)), x_tok2 := hi8 (crc5_calc (ucast (h_addr h) AND 0x7F)),
       x_type := SETUP, x_stage := NoXfer, x_tx_len := 8, x_tx_ptr := 0,
       x_crc1 := lo8 (crc16_calc (stdreq_bytes req) 8), x_crc2 := hi8 (crc16_calc (stdreq_bytes req) 8),
       x_tx := stdreq_bytes req @ drop 16 (x_tx (h_xfer h)), x_rx_len := uint (h_len h), x_rx_ptr := 0\<rparr>)"

definition ready_for :: "ut_state_t \<Rightarrow> ulpi_bus_t \<Rightarrow> bool" where
  "ready_for st b \<longleftrightarrow> s_op st = UT_Idle \<and> s_test_step st = 0 \<and> curr_ok st \<and>
     (\<exists>d. s_tests st ! nat (s_test_curr st) = Some (TcGetdesc d)) \<and> s_bus st = ulpi_bus_idle b \<and>
     h_op (s_host st) = HostIdle \<and> arrays_ok (h_xfer (s_host st))"

lemma first_goes:
  assumes "ready_for st b"
  shows "goes listen addr 1 (st, u) (at_packet st UT_Test 0 (first_xfer addr (s_host st)) (ulpi_bus_idle b) 1, u)"
proof -
  let ?h = "(s_host st)\<lparr>h_cycle := h_cycle (s_host st) + 1\<rparr>"
  obtain d where d: "s_tests st ! nat (s_test_curr st) = Some (TcGetdesc d)" using assms by (auto simp: ready_for_def)
  have n: "nat (s_test_curr st) < length (s_tests st)" using assms by (auto simp: ready_for_def curr_ok_def)
  have idle: "ulpi_bus_is_idle (ulpi_bus_idle b)" by (simp add: ulpi_bus_is_idle_def)
  have a: "arrays_ok (h_xfer ?h)" using assms by (simp add: ready_for_def)
  have "tc_getdesc_init addr ?h d = Inr (0, setup_host st 0 (first_xfer addr (s_host st)) 1, SendSETUP)"
    using assms stdreq_start_eq [OF a]
    by (simp add: tc_getdesc_init_def stdreq_get_descriptor_def get_descriptor_def req_zero_def ready_for_def Let_def
      setup_host_def first_xfer_def busy_def with_xfer_def)
  then have "ut_step \<lparr>env_rand = r, env_addr = addr\<rparr> st =
      Inr (0, at_packet st UT_Test 0 (first_xfer addr (s_host st)) (ulpi_bus_idle b) 1, ulpi_bus_idle b)" for r
    using assms d n idle
    by (simp add: ut_step_def test_step_def at_packet_def Let_def curr_ok_def ready_for_def aget_def as_tc_def ctrl_of_def)
  from goes_clock [where user = listen, OF this listen_idle] show ?thesis by simp
qed

lemma final_goes:
  assumes "curr_ok st" and "user u (ulpi_bus_idle b) (ulpi_bus_idle b) = Inr (z, u', ulpi_bus_idle b)"
  shows "goes user addr 1 (at_packet st UT_Idle 8 x (ulpi_bus_idle b) k, u)
    ((at_packet st UT_Idle 8 x (ulpi_bus_idle b) (Suc k))\<lparr>s_host := (setup_host st 9 x (Suc k))\<lparr>h_op := HostIdle\<rparr>,
       s_test_step := 0, s_test_curr := s_test_curr st + 1,
       s_tests := (s_tests st)[nat (s_test_curr st) := Some (TcGetdesc CtrlDone)]\<rparr>, u')"
proof -
  let ?st = "(at_packet st UT_Idle 8 x (ulpi_bus_idle b) (Suc k))\<lparr>s_host := (setup_host st 9 x (Suc k))\<lparr>h_op := HostIdle\<rparr>,
       s_test_step := 0, s_test_curr := s_test_curr st + 1,
       s_tests := (s_tests st)[nat (s_test_curr st) := Some (TcGetdesc CtrlDone)]\<rparr>"
  have idle: "ulpi_bus_is_idle (ulpi_bus_idle b)" by (simp add: ulpi_bus_is_idle_def)
  have h: "(setup_host st 8 x k)\<lparr>h_cycle := h_cycle (setup_host st 8 x k) + 1\<rparr> = setup_host st 8 x (Suc k)"
    by (simp add: setup_host_def add.commute [of 1] add.assoc)
  have e: "?st\<lparr>s_bus := ulpi_bus_idle b\<rparr> = ?st" by (cases st) (simp add: at_packet_def)
  have t: "tc_getdesc_step (setup_host st 8 x (Suc k)) RecvACK1 = Inr (1, (setup_host st 9 x (Suc k))\<lparr>h_op := HostIdle\<rparr>, CtrlDone)"
    by (simp add: tc_getdesc_step_def next_step_def setup_host_def busy_def with_xfer_def)
  have n: "nat (s_test_curr st) < length (s_tests st)" using assms by (auto simp: curr_ok_def)
  have "ut_step env (at_packet st UT_Idle 8 x (ulpi_bus_idle b) k) = Inr (0, ?st, ulpi_bus_idle b)" for env
    using assms(1) n idle h t
    by (simp add: ut_step_def test_step_def at_packet_def Let_def curr_ok_def aget_def as_tc_def ctrl_of_def)
  from goes_clock [where user = user, OF this assms(2)] show ?thesis unfolding settle_simps e .
qed

text \<open>
  The bench after the transfer: the test-case is done and the next one is due, the host is idle.
\<close>

definition transfer_over :: "ut_state_t \<Rightarrow> transfer_t \<Rightarrow> nat \<Rightarrow> ut_state_t \<Rightarrow> bool" where
  "transfer_over st x k st' \<longleftrightarrow> s_op st' = UT_Idle \<and> s_test_curr st' = s_test_curr st + 1 \<and> s_test_step st' = 0 \<and>
     s_tests st' = (s_tests st)[nat (s_test_curr st) := Some (TcGetdesc CtrlDone)] \<and> s_finish st' = s_finish st \<and>
     s_cycle st' = s_cycle st + of_nat k \<and> h_cycle (s_host st') = h_cycle (s_host st) + of_nat k \<and>
     h_op (s_host st') = HostIdle \<and> h_xfer (s_host st') = x"

text \<open>The transfer that the whole sequence of packets leaves behind.\<close>

definition data_here :: "u8 list \<Rightarrow> u8 \<Rightarrow> u8 \<Rightarrow> transfer_t \<Rightarrow> transfer_t" where
  "data_here ps c1 c2 x = (received (entered 4 x) ps c1 c2)\<lparr>x_type := XferIdle, x_stage := NoXfer\<rparr>"

definition in_queued :: "transfer_t \<Rightarrow> transfer_t" where
  "in_queued x = (set_seq0 SIG1 (handshaken x))\<lparr>x_type := XferIdle, x_stage := NoXfer\<rparr>"

lemma in_goes:
  assumes "curr_ok st" and "x_endpoint x = 0"
  shows "goes listen addr 10 (at_packet st UT_Test 3 (set_seq0 SIG1 (handshaken x)) (ulpi_bus_idle b) k, u)
    (at_packet st UT_Test 4 (in_queued x) (ulpi_bus_idle b) (k + 10), u @ [0x69, x_tok1 x, x_tok2 x])"
proof -
  let ?x = "set_seq0 SIG1 (handshaken x)"
  have ty: "x_type ?x = UpACK" by (simp add: set_seq0_def handshaken_def)
  have e3: "entered 3 ?x = ?x\<lparr>x_type := IN, x_stage := NoXfer\<rparr>" using entered_new [of ?x 3] ty by simp
  have q: "?x\<lparr>x_stage := NoXfer, x_type := XferIdle\<rparr> = in_queued x" by (simp add: in_queued_def)
  have tok: "x_tok1 ?x = x_tok1 x" "x_tok2 ?x = x_tok2 x" by (simp_all add: set_seq0_def handshaken_def)
  have 1: "goes listen addr 9 (at_packet st UT_Test 3 ?x (ulpi_bus_idle b) k, u)
      (at_packet st UT_Idle 3 (in_queued x) (ulpi_bus_idle b) (k + 9), u @ [0x69, x_tok1 x, x_tok2 x])"
    using token_goes [of 3 ?x addr st b k u] by (simp add: e3 enterable_def transfer_type_to_pid_def xfer_order q tok)
  have 2: "goes listen addr 1 (at_packet st UT_Idle 3 y (ulpi_bus_idle b) m, v) (at_packet st UT_Test 4 y (ulpi_bus_idle b) (Suc m), v)" for y m v
    using advance_goes [of 3 st listen v b 0 v addr y m] assms(1) by (simp add: listen_idle advanced_def)
  show ?thesis using goes_trans [OF 1 2] by (simp add: add.commute [of _ k])
qed

lemma sent_advance:
  assumes "curr_ok st" and "s < 8"
  shows "goes in_link addr 1 (at_packet st UT_Idle s y (ulpi_bus_idle b) m, (0, link_done))
    (at_packet st UT_Test (Suc s) (advanced s y) (ulpi_bus_idle b) (Suc m), (0, link_done))"
proof -
  have "in_link (0, link_done) (ulpi_bus_idle b) (ulpi_bus_idle b) = Inr (0, (0, link_done), ulpi_bus_idle b)"
    using link_done_step [of b] by (simp add: sent_idle)
  from advance_goes [where user = in_link, OF assms(2,1) this] show ?thesis .
qed

text \<open>The transfer and the whole of its clocks.\<close>

definition script :: "nat \<Rightarrow> nat \<Rightarrow> nat \<Rightarrow> u8 list \<Rightarrow> peer list" where
  "script w1 w2 w3 pkt = [Hears 29, Sends (w1 + 6) w1 [ULPITX_ACK], Hears 10, Sends (w2 + length pkt + 9) w2 pkt, Hears 28,
     Sends (w3 + 6) w3 [ULPITX_ACK]]"

lemma first_xfer_simps [simp]:
  "x_type (first_xfer addr h) = SETUP" "x_stage (first_xfer addr h) = NoXfer" "x_tx_len (first_xfer addr h) = 8"
  "x_tx_ptr (first_xfer addr h) = 0" "x_endpoint (first_xfer addr h) = 0" "x_rx (first_xfer addr h) = x_rx (h_xfer h)"
  "x_ep_seq (first_xfer addr h) = (x_ep_seq (h_xfer h))[0 := SIG0]" "8 \<le> length (x_tx (first_xfer addr h))"
  by (simp_all add: first_xfer_def Let_def stdreq_bytes_def le16_def le64_def)

lemma chain_simps [simp]:
  "x_endpoint (setup_sent x) = x_endpoint x" "x_ep_seq (setup_sent x) = x_ep_seq x" "x_rx (setup_sent x) = x_rx x"
  "x_tok1 (setup_sent x) = x_tok1 x" "x_tok2 (setup_sent x) = x_tok2 x" "x_type (setup_sent x) = XferIdle"
  "x_endpoint (in_queued x) = x_endpoint x" "x_rx (in_queued x) = x_rx x" "x_type (in_queued x) = XferIdle"
  "x_tok1 (in_queued x) = x_tok1 x" "x_tok2 (in_queued x) = x_tok2 x"
  "x_endpoint (data_here ps c1 c2 x) = x_endpoint x" "x_ep_seq (data_here ps c1 c2 x) = x_ep_seq x"
  "x_type (data_here ps c1 c2 x) = XferIdle" "x_stage (data_here ps c1 c2 x) = NoXfer"
  "x_rx_len (data_here ps c1 c2 x) = int (length ps)" "take (length ps) (x_rx (data_here ps c1 c2 x)) = ps"
  "x_tok1 (data_here ps c1 c2 x) = x_tok1 x" "x_tok2 (data_here ps c1 c2 x) = x_tok2 x"
  "x_endpoint (status_sent x) = x_endpoint x" "x_ep_seq (status_sent x) = x_ep_seq x" "x_rx (status_sent x) = x_rx x"
  "x_rx_len (status_sent x) = x_rx_len x" "x_type (status_sent x) = x_type x"
  "x_rx (handshaken x) = x_rx x" "x_rx_len (handshaken x) = x_rx_len x"
  by (simp_all add: setup_sent_def in_queued_def handshaken_def set_seq0_def data_here_def received_def status_sent_def entered_def Let_def)

lemma transfer_runs:
  fixes addr :: u64
  assumes "ready_for st b" and "length ps \<le> 510" and "crc_right ps c1 c2"
  defines "x0 \<equiv> first_xfer addr (s_host st)"
  defines "x8 \<equiv> status_sent (data_here ps c1 c2 (in_queued (setup_sent x0)))"
  shows "\<exists>st'. bench_phases addr rnd (script w1 w2 w3 (ULPITX_DATA1 # ps @ [c1, c2])) st [] = Inr (st',
      [0x2D, x_tok1 x0, x_tok2 x0, 0xC3] @ take 8 (x_tx x0) @ [x_crc1 x0, x_crc2 x0] @ [0x69, x_tok1 x0, x_tok2 x0] @
      [0xD2, 0xE1, x_tok1 x0, x_tok2 x0, 0x4B, 0x00, 0x00]) \<and>
    transfer_over st (handshaken x8) (w1 + w2 + w3 + length ps + 91) st'"
proof -
  let ?x2 = "setup_sent x0" and ?x4 = "in_queued (setup_sent x0)" and ?x5 = "data_here ps c1 c2 (in_queued (setup_sent x0))"
  let ?i = "ulpi_bus_idle b" and ?d = "ULPITX_DATA1 # ps @ [c1, c2]"
  have c: "curr_ok st" and a: "arrays_ok (h_xfer (s_host st))" using assms(1) by (simp_all add: ready_for_def)
  have seq: "length (x_ep_seq x0) = 16" "x_ep_seq x0 ! 0 = SIG0" "length (x_rx x0) = MAX_PACKET_SIZE"
    using a unfolding x0_def by (simp_all add: arrays_ok_def)
  have ep: "x_endpoint x0 = 0" by (simp add: x0_def)
  have seq1: "x_ep_seq ?x4 = (x_ep_seq x0)[0 := SIG1]" by (simp add: in_queued_def set_seq0_def handshaken_def ep)
  have "goes listen addr 28 (at_packet st UT_Test 0 x0 ?i 1, u)
      (at_packet st UT_Test 2 ?x2 ?i (1 + 28), u @ [0x2D, x_tok1 x0, x_tok2 x0, 0xC3] @ take 8 (x_tx x0) @ [x_crc1 x0, x_crc2 x0])" for u
    by (rule setup_goes [OF c]) (use seq(2) in \<open>simp_all add: x0_def\<close>)
  then have 1: "goes listen addr 29 (st, []) (at_packet st UT_Test 2 ?x2 ?i 29,
      [0x2D, x_tok1 x0, x_tok2 x0, 0xC3] @ take 8 (x_tx x0) @ [x_crc1 x0, x_crc2 x0])"
    using goes_trans [OF first_goes [OF assms(1), of addr "[]", folded x0_def]] by fastforce
  have 2: "goes in_link addr (w1 + 6) (at_packet st UT_Test 2 ?x2 ?i 29, (w1, link_start [ULPITX_ACK]))
      (at_packet st UT_Test 3 (set_seq0 SIG1 (handshaken ?x2)) ?i (35 + w1), (0, link_done))"
    using goes_trans [OF handshake_goes [of 2 ?x2 addr w1 st b 29] sent_advance [OF c, of 2]] seq ep
    by (simp add: advanced_def add.commute [of _ w1])
  have 3: "goes listen addr 10 (at_packet st UT_Test 3 (set_seq0 SIG1 (handshaken ?x2)) ?i (35 + w1), u)
      (at_packet st UT_Test 4 ?x4 ?i (45 + w1), u @ [0x69, x_tok1 x0, x_tok2 x0])" for u
    using in_goes [OF c, of ?x2 addr b "35 + w1" u] ep by simp
  have "goes in_link addr (w2 + (length ps + 11)) (at_packet st UT_Test 4 ?x4 ?i (45 + w1), (w2, link_start ?d))
      (at_packet st UT_Idle 4 ?x5 ?i (45 + w1 + (w2 + (length ps + 11))), (0, link_done))"
    unfolding data_here_def
    by (rule descriptor_goes) (use assms(2,3) seq ep seq1 in \<open>simp_all add: check_seq_def\<close>)
  from goes_trans [OF this sent_advance [OF c, of 4]]
  have 4: "goes in_link addr (w2 + length ?d + 9) (at_packet st UT_Test 4 ?x4 ?i (45 + w1), (w2, link_start ?d))
      (at_packet st UT_Test 5 ?x5 ?i (57 + w1 + w2 + length ps), (0, link_done))"
    by (simp add: advanced_def add_ac)
  have "goes listen addr 28 (at_packet st UT_Test 5 ?x5 ?i (57 + w1 + w2 + length ps), u)
      (at_packet st UT_Test 8 (status_sent ?x5) ?i (57 + w1 + w2 + length ps + 28),
        u @ [0xD2, 0xE1, x_tok1 ?x5, x_tok2 ?x5, 0x4B, 0x00, 0x00])" for u
    by (rule status_goes [OF c]) (use seq ep seq1 in simp_all)
  then have 5: "goes listen addr 28 (at_packet st UT_Test 5 ?x5 ?i (57 + w1 + w2 + length ps), u)
      (at_packet st UT_Test 8 x8 ?i (85 + w1 + w2 + length ps),
        u @ [0xD2, 0xE1, x_tok1 x0, x_tok2 x0, 0x4B, 0x00, 0x00])" for u
    by (simp add: x8_def add_ac)
  have d: "in_link (0, link_done) ?i ?i = Inr (0, (0, link_done), ?i)"
    using link_done_step [of b] by (simp add: sent_idle)
  have "goes in_link addr (w3 + 5) (at_packet st UT_Test 8 x8 ?i (85 + w1 + w2 + length ps), (w3, link_start [ULPITX_ACK]))
      (at_packet st UT_Idle 8 (handshaken x8) ?i (85 + w1 + w2 + length ps + (w3 + 5)), (0, link_done))"
    by (rule handshake_goes) (use seq ep seq1 in \<open>simp_all add: x8_def\<close>)
  from goes_trans [OF this final_goes [where user = in_link, OF c d]]
  obtain st' where 6: "goes in_link addr (w3 + 6) (at_packet st UT_Test 8 x8 ?i (85 + w1 + w2 + length ps), (w3, link_start [ULPITX_ACK]))
      (st', (0, link_done))" and o: "transfer_over st (handshaken x8) (w1 + w2 + w3 + length ps + 91) st'"
    by (simp add: transfer_over_def at_packet_def setup_host_def add_ac)
  obtain r1 where "bench_phases addr rnd (script w1 w2 w3 ?d) st [] = bench_phases addr r1
      [Sends (w1 + 6) w1 [ULPITX_ACK], Hears 10, Sends (w2 + length ?d + 9) w2 ?d, Hears 28, Sends (w3 + 6) w3 [ULPITX_ACK]]
      (at_packet st UT_Test 2 ?x2 ?i 29) ([0x2D, x_tok1 x0, x_tok2 x0, 0xC3] @ take 8 (x_tx x0) @ [x_crc1 x0, x_crc2 x0])"
    using hears_phase [OF 1] unfolding script_def by blast
  moreover obtain r2 where "\<And>ps u. bench_phases addr r1 (Sends (w1 + 6) w1 [ULPITX_ACK] # ps) (at_packet st UT_Test 2 ?x2 ?i 29) u =
      bench_phases addr r2 ps (at_packet st UT_Test 3 (set_seq0 SIG1 (handshaken ?x2)) ?i (35 + w1)) u"
    using 2 by (auto simp: goes_def)
  moreover obtain r3 where "\<And>ps u. bench_phases addr r2 (Hears 10 # ps) (at_packet st UT_Test 3 (set_seq0 SIG1 (handshaken ?x2)) ?i (35 + w1)) u =
      bench_phases addr r3 ps (at_packet st UT_Test 4 ?x4 ?i (45 + w1)) (u @ [0x69, x_tok1 x0, x_tok2 x0])"
    using 3 by (auto simp: goes_def)
  moreover obtain r4 where "\<And>qs u. bench_phases addr r3 (Sends (w2 + length ?d + 9) w2 ?d # qs) (at_packet st UT_Test 4 ?x4 ?i (45 + w1)) u =
      bench_phases addr r4 qs (at_packet st UT_Test 5 ?x5 ?i (57 + w1 + w2 + length ps)) u"
    using 4 by (auto simp: goes_def)
  moreover obtain r5 where "\<And>ps' u. bench_phases addr r4 (Hears 28 # ps') (at_packet st UT_Test 5 ?x5 ?i (57 + w1 + w2 + length ps)) u =
      bench_phases addr r5 ps' (at_packet st UT_Test 8 x8 ?i (85 + w1 + w2 + length ps)) (u @ [0xD2, 0xE1, x_tok1 x0, x_tok2 x0, 0x4B, 0x00, 0x00])"
    using 5 by (auto simp: goes_def)
  moreover obtain r6 where "\<And>ps' u. bench_phases addr r5 (Sends (w3 + 6) w3 [ULPITX_ACK] # ps')
      (at_packet st UT_Test 8 x8 ?i (85 + w1 + w2 + length ps)) u = bench_phases addr r6 ps' st' u"
    using 6 by (auto simp: goes_def)
  ultimately show ?thesis using o by (intro exI [of _ st']) (simp only: bench_phases.simps(1) append.assoc simp_thms)
qed

text \<open>
  (C10) The descriptor test-case in the bench, as a whole. From an idle bench and host with the test-case due,
  opposite a device that acknowledges the request \<open>w1\<close> clocks after it, sends its descriptor \<open>w2\<close> clocks
  after the IN token and acknowledges the status \<open>w3\<close> clocks after it: after exactly
  \<open>w1 + w2 + w3 + length ps + 91\<close> clocks the test-case is done, the next one is due and the host is idle. The
  device has heard the SETUP token, the request as a DATA0 packet, the IN token, the ACK, the OUT token and an
  empty DATA1 packet, with right checks, and the descriptor is in the receive buffer.
\<close>

theorem descriptor_transfer:
  assumes "ready_for st b" and "length ps \<le> 510"
    and "c1 = lo8 (crc16_calc ps (length ps))" and "c2 = hi8 (crc16_calc ps (length ps))"
  shows "\<exists>st' x t1 t2 k1 k2.
    let request = [0x80, 0x06, 0x01, 0x03, 0x00, 0x00, 0x40, 0x00] in
    bench_phases addr rnd (script w1 w2 w3 (ULPITX_DATA1 # ps @ [c1, c2])) st [] = Inr (st',
      [0x2D, t1, t2, 0xC3] @ request @ [k1, k2] @ [0x69, t1, t2, 0xD2, 0xE1, t1, t2, 0x4B, 0x00, 0x00]) \<and>
    in_token (h_addr (s_host st)) 0 [0x69, t1, t2] \<and> crc16_check (request @ [k1, k2]) 10 \<and>
    transfer_over st x (w1 + w2 + w3 + length ps + 91) st' \<and>
    x_rx_len x = int (length ps) \<and> take (length ps) (x_rx x) = ps"
proof -
  let ?x0 = "first_xfer addr (s_host st)" and ?r = "[0x80, 0x06, 0x01, 0x03, 0x00, 0x00, 0x40, 0x00] :: u8 list"
  have "crc_right ps c1 c2" using assms(3,4) by (simp add: crc_right_def)
  from transfer_runs [OF assms(1,2) this, of addr rnd w1 w2 w3] obtain st' x where
    run: "bench_phases addr rnd (script w1 w2 w3 (ULPITX_DATA1 # ps @ [c1, c2])) st [] = Inr (st',
      [0x2D, x_tok1 ?x0, x_tok2 ?x0, 0xC3] @ take 8 (x_tx ?x0) @ [x_crc1 ?x0, x_crc2 ?x0] @ [0x69, x_tok1 ?x0, x_tok2 ?x0] @
      [0xD2, 0xE1, x_tok1 ?x0, x_tok2 ?x0, 0x4B, 0x00, 0x00])"
    and over: "transfer_over st x (w1 + w2 + w3 + length ps + 91) st'"
    and x: "x_rx_len x = int (length ps)" "take (length ps) (x_rx x) = ps" by auto
  have r: "take 8 (x_tx ?x0) = ?r"
    by (simp add: first_xfer_def Let_def stdreq_bytes_def le16_def le64_def lo8_def hi8_def)
  have "x_crc1 ?x0 = lo8 (crc16_calc ?r 8)" "x_crc2 ?x0 = hi8 (crc16_calc ?r 8)"
    by (simp_all add: first_xfer_def Let_def stdreq_bytes_def le16_def le64_def lo8_def hi8_def crc16_calc_def)
  then have "crc16_check (?r @ [x_crc1 ?x0, x_crc2 ?x0]) 10" using crc16_ready [of 8 ?r] by simp
  moreover have "token_payload (h_addr (s_host st)) 0 = ucast (h_addr (s_host st)) AND 0x7F" by (simp add: token_payload_def)
  then have "in_token (h_addr (s_host st)) 0 [0x69, x_tok1 ?x0, x_tok2 ?x0]"
    using token_word_ready(1) [of "h_addr (s_host st)" 0] token_word_ready(2)
    by (simp add: in_token_def first_xfer_def Let_def)
  ultimately show ?thesis
    using run [unfolded r] over x unfolding Let_def
    by (intro exI [of _ st'] exI [of _ x] exI [of _ "x_tok1 ?x0"] exI [of _ "x_tok2 ?x0"] exI [of _ "x_crc1 ?x0"]
      exI [of _ "x_crc2 ?x0"]) simp
qed

text \<open>The bench once it has come to rest.\<close>

definition bench_idle :: ut_state_t where
  "bench_idle = bench7\<lparr>s_op := UT_Idle, s_bus := ulpi_bus_idle bus_zero, s_host := (usbh_init 64 undefined)\<lparr>h_op := HostIdle\<rparr>\<rparr>"

lemma bench_idle_ready: "ready_for bench_idle bus_zero"
proof -
  have "s_test_step bench7 = 0" "s_test_curr bench7 = 0" "length (s_tests bench7) = 16"
      "s_tests bench7 ! 0 = Some (TcGetdesc SendSETUP)"
    by (simp_all add: bench7_def ut_calltf_def ut_compiletf_def sim7_args) (simp_all add: sim7_def ut_tests_def)
  then show ?thesis
    using init_arrays [of 64 undefined] by (simp add: ready_for_def bench_idle_def curr_ok_def)
qed

lemma descriptor_transfer_witness:
  "\<exists>st' x heard. bench_phases 64 (\<lambda>_ _. 0) (script 0 3 7 [ULPITX_DATA1, 0x12, 0x01, 0x33, 0x2F]) bench_idle [] = Inr (st', heard) \<and>
     transfer_over bench_idle x 103 st' \<and> x_rx_len x = 2 \<and> take 2 (x_rx x) = [0x12, 0x01]"
proof -
  have crc: "crc16_calc [0x12, 0x01] (length [0x12 :: u8, 0x01]) = 0x2F33"
    by (simp add: crc16_calc_def crc16_byte_def funpow_numeral crc16_bit_def)
  have len: "length [0x12 :: u8, 0x01] \<le> 510" by simp
  have c: "0x33 = lo8 (crc16_calc [0x12, 0x01] (length [0x12 :: u8, 0x01]))" "0x2F = hi8 (crc16_calc [0x12, 0x01] (length [0x12 :: u8, 0x01]))"
    unfolding crc by (simp_all add: lo8_def hi8_def)
  show ?thesis
    using descriptor_transfer [OF bench_idle_ready len c, of 64 "\<lambda>_ _. 0" 0 3 7] by (auto simp: Let_def numeral_2_eq_2)
qed

end
