(* ===== verification/Usbfunc.thy ===== *)
theory Usbfunc
  imports Host
begin

text \<open>
  The simulated USB function (device), \<open>src/vpi/usb/usbfunc.h\<close> and
  \<open>src/vpi/usb/usbfunc.c\<close>: the states of a transaction, its packet step-functions on the
  link side of the ULPI bus, and the scenario of \<open>test_func_recv\<close>.
\<close>

datatype usbf_state = FuncIdle | FuncRecv | FuncRXCMD | FuncRxPID | FuncBusy | FuncEOT

record usb_func_t =
  f_cycle :: u64
  f_op :: host_op
  f_state :: usbf_state
  f_step :: u32
  f_xfer :: transfer_t
  f_turnaround :: u16
  f_addr :: u8

type_synonym func_fn = "usb_func_t user_fn"

definition upd_fxfer :: "(transfer_t \<Rightarrow> transfer_t) \<Rightarrow> usb_func_t \<Rightarrow> usb_func_t" where
  "upd_fxfer f func = func\<lparr>f_xfer := f (f_xfer func)\<rparr>"

definition set_fstage :: "xfer_stage \<Rightarrow> usb_func_t \<Rightarrow> usb_func_t" where
  "set_fstage stage = upd_fxfer (\<lambda>x. x\<lparr>x_stage := stage\<rparr>)"

definition next_fstep :: "usb_func_t \<Rightarrow> usb_func_t" where
  "next_fstep func = func\<lparr>f_step := f_step func + 1\<rparr>"

text \<open>An RX CMD with the receiver active.\<close>

definition rx_active :: "ulpi_bus_t \<Rightarrow> bool" where
  "rx_active inb \<longleftrightarrow> data_a inb AND RX_EVENT_MASK = RX_ACTIVE_BITS"

definition ulpi_bus_rx :: "ulpi_bus_t \<Rightarrow> int" where
  "ulpi_bus_rx inb =
     (if u_dir inb \<noteq> SIG1 \<or> data_b inb \<noteq> 0x00 then -1
      else if u_nxt inb = SIG0 \<and> rx_active inb then 0
      else if u_nxt inb = SIG1 then 1
      else -1)"

subsection \<open>Receiving\<close>

definition fn_token_recv_step :: func_fn where
  "fn_token_recv_step func inb out =
     (if u_dir inb \<noteq> SIG1 \<and> x_stage (f_xfer func) < Token2 then Inr (-1, func, out)
      else (let out = inb; rx = ulpi_bus_rx inb; stage = x_stage (f_xfer func) in
        if stage = AssertDir then
          (if u_nxt inb = SIG1 then Inr (0, set_fstage InitRXCMD func, out) else Inr (-1, func, out))
        else if stage = InitRXCMD then
          (if u_nxt inb = SIG1 \<and> check_pid inb \<and>
              data_a inb AND 0x0F \<in> {USBPID_OUT, USBPID_IN, USBPID_SETUP, USBPID_SOF}
           then Inr (0, set_fstage TokenPID func, out) else Inr (-1, func, out))
        else if stage = TokenPID then
          (if rx < 0 then Inr (-1, func, out)
           else Inr (0, if rx > 0 then set_fstage Token1 func else func, out))
        else if stage = Token1 then
          (if rx < 0 then Inr (-1, func, out)
           else Inr (0, if rx > 0
             then set_fstage Token2 (upd_fxfer (\<lambda>x. x\<lparr>x_tok1 := data_a inb\<rparr>) func) else func, out))
        else if stage = Token2 then
          (if rx < 0 then Inr (-1, func, out)
           else Inr (0, if rx > 0
             then set_fstage EndRXCMD (upd_fxfer (\<lambda>x. x\<lparr>x_tok2 := data_a inb\<rparr>) func) else func, out))
        else if stage = EndRXCMD then
          (if u_nxt inb = SIG0 \<and> \<not> rx_active inb then Inr (0, set_fstage EOP func, out)
           else Inr (-1, func, out))
        else if stage = EOP then
          (if u_nxt inb = SIG0 then Inr (1, next_fstep func, out) else Inr (0, func, out))
        else Inr (-1, func, out)))"

text \<open>
  In the body, \<open>in->data.a & RX_EVENT_MASK != RX_ACTIVE_BITS\<close> is
  \<open>in->data.a & (RX_EVENT_MASK != RX_ACTIVE_BITS)\<close>: the lowest bit of the RX CMD.
\<close>

definition fn_datax_recv_step :: func_fn where
  "fn_datax_recv_step func inb out =
     (if u_dir inb \<noteq> SIG1 \<and> x_stage (f_xfer func) < EndRXCMD then Inr (-1, func, out)
      else (let out = inb; stage = x_stage (f_xfer func) in
        if stage = NoXfer then
          (if u_dir inb \<noteq> SIG1 then Inr (0, func\<lparr>f_turnaround := f_turnaround func + 1\<rparr>, out)
           else if u_dir inb = SIG1 \<and> u_nxt inb = SIG1 then Inr (0, set_fstage AssertDir func, out)
           else Inr (-1, func, out))
        else if stage = AssertDir then
          (if u_nxt inb = SIG0 \<and> rx_active inb then Inr (0, set_fstage InitRXCMD func, out)
           else Inr (-1, func, out))
        else if stage = InitRXCMD then
          (if u_nxt inb = SIG1 \<and> check_pid inb \<and> check_seq (f_xfer func) (data_a inb AND 0x0F)
           then Inr (0, upd_fxfer (\<lambda>x. x\<lparr>x_stage := DATAxPID, x_rx_ptr := 0, x_rx_len := 0\<rparr>) func,
             out)
           else Inr (-1, func, out))
        else if stage \<in> {DATAxPID, DATAxBody} then
          (if u_nxt inb = SIG1 then
             bind_c (aput (x_rx (f_xfer func)) (x_rx_ptr (f_xfer func)) (data_a inb)) (\<lambda>rx.
               Inr (0, upd_fxfer (\<lambda>x. x\<lparr>x_rx := rx, x_rx_ptr := x_rx_ptr x + 1\<rparr>) func, out))
           else if u_nxt inb = SIG0 then
             Inr (0,
               if data_a inb AND of_bool (RX_EVENT_MASK \<noteq> RX_ACTIVE_BITS) \<noteq> 0
               then next_fstep
                 (upd_fxfer (\<lambda>x. x\<lparr>x_stage := EndRXCMD, x_rx_len := x_rx_ptr x - 2\<rparr>) func)
               else func, out)
           else Inr (-1, func, out))
        else if stage \<in> {EndRXCMD, EOP} then
          Inr (0, upd_fxfer (\<lambda>x. x\<lparr>x_type := UpACK\<rparr>) func, out)
        else Inr (-1, func, out)))"

definition fn_recv_ack_pid :: func_fn where
  "fn_recv_ack_pid func inb out =
     (if u_dir inb = SIG1 \<and> u_nxt inb = SIG1 \<and> check_pid inb \<and> data_b inb = 0x00 \<and>
         data_a inb AND 0x0F = USBPID_ACK
      then Inr (0, set_fstage HskPID func, out) else Inr (-1, func, out))"

definition fn_recv_ack_step :: func_fn where
  "fn_recv_ack_step func inb out =
     (let out = inb; stage = x_stage (f_xfer func) in
      if stage = NoXfer then
        (if ulpi_bus_is_idle inb then Inr (0, func\<lparr>f_turnaround := f_turnaround func + 1\<rparr>, out)
         else if u_dir inb = SIG1 \<and> u_nxt inb = SIG1 then Inr (0, set_fstage InitRXCMD func, out)
         else Inr (-1, func, out))
      else if stage = AssertDir then
        (if u_dir inb = SIG1 \<and> u_nxt inb = SIG0 \<and> data_b inb = 0x00 \<and> rx_active inb
         then Inr (0, set_fstage InitRXCMD func, out)
         else fn_recv_ack_pid func inb out)
      else if stage = InitRXCMD then fn_recv_ack_pid func inb out
      else if stage = HskPID then
        (if u_dir inb \<noteq> SIG0 \<or> u_nxt inb \<noteq> SIG0 then Inr (-1, func, out)
         else Inr (1, set_fstage NoXfer (next_fstep func), out))
      else Inr (-1, func, out))"

subsection \<open>Sending\<close>

text \<open>\<open>out->data.a = a; out->data.b = 0x00; out->stp = stp;\<close>\<close>

definition link_drive :: "u8 \<Rightarrow> bit_t \<Rightarrow> ulpi_bus_t \<Rightarrow> ulpi_bus_t" where
  "link_drive a stp out = set_b 0x00 (set_a a (out\<lparr>u_stp := stp\<rparr>))"

text \<open>Sending the next byte of the transmit buffer.\<close>

definition fn_send_byte :: func_fn where
  "fn_send_byte func inb out =
     bind_c (aget (x_tx (f_xfer func)) (x_tx_ptr (f_xfer func))) (\<lambda>byte.
       Inr (0, upd_fxfer (\<lambda>x. x\<lparr>x_tx_ptr := x_tx_ptr x + 1, x_stage := DATAxBody\<rparr>) func,
         link_drive byte SIG0 out))"

definition fn_datax_send_step :: func_fn where
  "fn_datax_send_step func inb out =
     (if u_dir inb \<noteq> SIG0 then Inr (-1, func, out)
      else (let out = inb; x = f_xfer func; stage = x_stage x in
        if stage = NoXfer then
          bind_c (aget (x_ep_seq x) (uint (x_endpoint x))) (\<lambda>seq.
            Inr (0, set_fstage DATAxPID func,
              link_drive (if seq = 0 then ULPITX_DATA0 else ULPITX_DATA1) SIG0 out))
        else if stage = DATAxPID then
          (if u_nxt inb = SIG1 then
             (if x_tx_len x > 0 then fn_send_byte func inb out
              else Inr (0, set_fstage DATAxCRC1 func, link_drive (x_crc1 x) SIG0 out))
           else Inr (0, func, out))
        else if stage = DATAxBody then
          (if u_nxt inb = SIG1 then
             (if x_tx_ptr x < x_tx_len x then fn_send_byte func inb out
              else Inr (0, set_fstage DATAxCRC1 func, link_drive (x_crc1 x) SIG0 out))
           else Inr (0, func, out))
        else if stage = DATAxCRC1 then
          (if u_nxt inb = SIG1 then Inr (0, set_fstage DATAxCRC2 func, link_drive (x_crc2 x) SIG1 out)
           else Inr (0, func, out))
        else if stage = DATAxCRC2 then
          (if u_nxt inb = SIG1 then Inr (0, set_fstage EOP func, link_drive 0x00 SIG0 out)
           else Inr (0, func, out))
        else if stage = EOP then Inr (0, func, link_drive 0x00 SIG0 out)
        else Inr (-1, func, out)))"

definition fn_send_ack_step :: func_fn where
  "fn_send_ack_step func inb out =
     (if u_dir inb \<noteq> SIG0 then Inr (-1, func, out)
      else (let out = inb; stage = x_stage (f_xfer func) in
        if stage = NoXfer then
          Inr (0, set_fstage HskPID func, link_drive ULPITX_ACK SIG0 out)
        else if stage = HskPID then
          (if u_nxt inb = SIG1 then Inr (0, set_fstage HskStop func, link_drive 0x00 SIG1 out)
           else Inr (0, func, out))
        else if stage = HskStop then
          Inr (0, next_fstep (set_fstage EOP func), link_drive 0x00 SIG0 out)
        else if stage = EOP then Inr (0, func, link_drive 0x00 SIG0 out)
        else Inr (-1, func, out)))"

subsection \<open>Transactions\<close>

definition func_stdreq_step :: func_fn where
  "func_stdreq_step func inb out = Inr (-1, func, out)"

definition func_xfer_step :: func_fn where
  "func_xfer_step func inb out =
     (if f_step func = 0 then fn_token_recv_step func inb out
      else if f_op func = HostBulkOUT then
        (if f_step func < 2 then fn_datax_recv_step func inb out
         else if f_step func < 3 then fn_send_ack_step func inb out
         else Inr (1, func, out))
      else if f_op func = HostBulkIN then
        (if f_step func < 2 then fn_datax_send_step func inb out
         else if f_step func < 3 then fn_recv_ack_step func inb out
         else Inr (1, func, out))
      else if f_op func = HostSETUP then
        (if f_step func < 2 then fn_datax_recv_step func inb out
         else if f_step func < 3 then fn_recv_ack_step func inb out
         else Inr (1, func, out))
      else Inr (-1, func, out))"

definition usbf_init :: "usb_func_t \<Rightarrow> usb_func_t" where
  "usbf_init func =
     func\<lparr>f_cycle := 0, f_op := HostReset, f_step := 0, f_turnaround := 0, f_addr := 0\<rparr>"

text \<open>The token PIDs a function accepts, with the operation and the transfer they start.\<close>

definition token_op :: "u8 \<Rightarrow> (host_op \<times> xfer_type) option" where
  "token_op pid =
     (if pid = USBPID_OUT then Some (HostBulkOUT, OUT)
      else if pid = USBPID_IN then Some (HostBulkIN, IN)
      else if pid = USBPID_SETUP then Some (HostSETUP, SETUP)
      else if pid = USBPID_SOF then Some (HostSOF, SOF)
      else None)"

definition usbf_pid :: func_fn where
  "usbf_pid func inb out =
     (if u_dir inb = SIG1 \<and> u_nxt inb = SIG1 \<and> check_pid inb then
        (let func = set_fstage Token1 (func\<lparr>f_state := FuncBusy, f_step := 0\<rparr>) in
         case token_op (data_a inb AND 0x0F) of
           Some (op, ty) \<Rightarrow> Inr (0, upd_fxfer (\<lambda>x. x\<lparr>x_type := ty\<rparr>) (func\<lparr>f_op := op\<rparr>), inb)
         | None \<Rightarrow> Inr (-1, func, out))
      else if u_dir inb = SIG1 \<and> u_nxt inb = SIG0 \<and> data_b inb = 0x00 \<and> rx_active inb then
        Inr (0, func, inb)
      else Inr (-1, func, out))"

definition usbf_step :: func_fn where
  "usbf_step func inb out =
     (if u_rst_n inb \<noteq> SIG1 then Inr (-1, func, out)
      else if u_clock inb \<noteq> SIG1 then Inr (-1, func, out)
      else (case f_state func of
        FuncIdle \<Rightarrow>
          (if ulpi_bus_is_idle inb then Inr (0, func, inb)
           else if u_dir inb = SIG1 \<and> u_nxt inb \<le> SIG1 then
             Inr (0, func\<lparr>f_state := (if u_nxt inb = SIG0 then FuncRXCMD else FuncRecv)\<rparr>, inb)
           else Inr (-1, func, out))
      | FuncRXCMD \<Rightarrow>
          (if u_dir inb = SIG1 \<and> u_nxt inb = SIG0 then Inr (0, func, out)
           else if u_dir inb = SIG0 then Inr (0, func\<lparr>f_state := FuncIdle\<rparr>, inb)
           else Inr (-1, func, out))
      | FuncRecv \<Rightarrow>
          (if u_dir inb = SIG1 \<and> u_nxt inb = SIG0 \<and> data_b inb = 0x00 \<and> rx_active inb
           then Inr (0, func\<lparr>f_state := FuncRxPID\<rparr>, inb)
           else Inr (-1, func, out))
      | FuncRxPID \<Rightarrow> usbf_pid func inb out
      | FuncBusy \<Rightarrow> func_xfer_step func inb out
      | FuncEOT \<Rightarrow>
          (if ulpi_bus_is_idle inb then
             Inr (1, upd_fxfer (\<lambda>x. x\<lparr>x_type := XferIdle, x_stage := NoXfer\<rparr>) func, inb)
           else Inr (-1, func, out))))"

subsection \<open>The built-in test\<close>

definition func_zero :: usb_func_t where
  "func_zero = \<lparr>f_cycle = 0, f_op = HostReset, f_state = FuncIdle, f_step = 0, f_xfer = xfer_zero,
     f_turnaround = 0, f_addr = 0\<rparr>"

definition func_packet :: "u8 list" where
  "func_packet = [0x80, 0x06, 0x00, 0x01, 0x00, 0x00, 0x40, 0x00]"

text \<open>
  \<open>test_func_recv\<close> up to its first two packets: \<open>None\<close> is a loop still running after
  \<open>fuel\<close> turns. The result is the state of the function after both.
\<close>

definition test_func_recv :: "nat \<Rightarrow> usb_func_t outcome option" where
  "test_func_recv fuel =
     (let func = func_zero\<lparr>f_op := HostIdle, f_state := FuncIdle\<rparr>;
          bus = bus_zero\<lparr>u_clock := SIG1, u_rst_n := SIG1\<rparr> in
      case usbf_step func bus bus_zero of
        Inl e \<Rightarrow> Some (Inl e)
      | Inr (r, func, bus) \<Rightarrow>
          if r \<noteq> 0 then Some (Inl Assert_Failed)
          else (let host = xfer_zero\<lparr>x_type := SETUP, x_tok1 := 0x00, x_tok2 := 0x10\<rparr> in
            case ulpi_step_with fuel token_send_step host bus usbf_step func of
              None \<Rightarrow> None
            | Some (Inl e) \<Rightarrow> Some (Inl e)
            | Some (Inr (r, host, bus, func)) \<Rightarrow>
                if r \<noteq> 1 then Some (Inl Assert_Failed)
                else (let host = host\<lparr>x_type := DnDATA0, x_crc1 := 0xDD, x_crc2 := 0x94,
                            x_tx_len := 8, x_tx := func_packet @ drop 8 (x_tx host)\<rparr> in
                  case ulpi_step_with fuel datax_send_step host bus usbf_step func of
                    None \<Rightarrow> None
                  | Some (Inl e) \<Rightarrow> Some (Inl e)
                  | Some (Inr (r, host, bus, func)) \<Rightarrow>
                      if r \<noteq> 1 then Some (Inl Assert_Failed) else Some (Inr func))))"

end
