(* ===== verification/Usbfunc_Props.thy ===== *)
theory Usbfunc_Props
  imports Usbfunc Ulpi_Packets
begin

text \<open>
  The simulated device against the host's step-functions: it receives every token, and after the
  token no data packet.
\<close>

text \<open>The operation a token starts in the device.\<close>

definition op_of :: "xfer_type \<Rightarrow> host_op" where
  "op_of ty = (if ty = SETUP then HostSETUP else if ty = OUT then HostBulkOUT
     else if ty = IN then HostBulkIN else HostSOF)"

definition with_token :: "transfer_t \<Rightarrow> usb_func_t \<Rightarrow> usb_func_t" where
  "with_token x func = func\<lparr>f_state := FuncBusy, f_op := op_of (x_type x), f_step := 1,
     f_xfer := (f_xfer func)\<lparr>x_type := x_type x, x_stage := EOP, x_tok1 := x_tok1 x, x_tok2 := x_tok2 x\<rparr>\<rparr>"

lemmas func_turn = turns_numeral turn_def token_send_step_def drive_eop_def usbf_step_def usbf_pid_def
  func_xfer_step_def fn_token_recv_step_def rx_active_def ulpi_bus_rx_def check_pid_def token_op_def
  upd_fxfer_def set_fstage_def next_fstep_def
  ulpi_bus_is_idle_def

lemma func_token_turns:
  assumes "x_type x \<in> {SETUP, OUT, IN, SOF}" and "x_stage x = NoXfer" and "f_state func = FuncIdle"
  shows "turns 5 token_send_step usbf_step (x, ulpi_bus_idle bus, out, func) =
    Some (x\<lparr>x_stage := Token2\<rparr>, driven bus (x_tok2 x), driven bus (x_tok2 x),
      func\<lparr>f_state := FuncBusy, f_op := op_of (x_type x), f_step := 0,
        f_xfer := (f_xfer func)\<lparr>x_type := x_type x, x_stage := EndRXCMD, x_tok1 := x_tok1 x, x_tok2 := x_tok2 x\<rparr>\<rparr>)"
  using assms
  by (cases func; cases "f_xfer func") (auto simp: func_turn xfer_order transfer_type_to_pid_def op_of_def
      intro!: driven_eqI)

lemma loop_user_done:
  assumes "turns m step user (x, bus, out, u) = Some (x1, bus1, out1, u1)"
    and "step x1 bus1 out1 = Inr (0, x2, out2)" and "user u1 out2 out2 = Inr (1, u2, out3)"
  shows "ulpi_step_loop n step user x bus out u =
    (if n < Suc m then None else Some (Inr (1, x2, out3, u2)))"
  unfolding turns_loop [OF assms(1)]
  using assms(2,3) by (cases "n - m") (auto simp: Let_def)

lemma func_token_last_turns:
  assumes "x_type x \<in> {SETUP, OUT, IN, SOF}" and "f_state func = FuncBusy" and "f_step func = 0"
    and "x_stage (f_xfer func) = EndRXCMD"
  shows "\<exists>bus1 bus2. turns 1 token_send_step usbf_step (x\<lparr>x_stage := Token2\<rparr>, driven bus b, driven bus b, func) =
      Some (x\<lparr>x_stage := EndRXCMD\<rparr>, bus1, bus1, set_fstage EOP func) \<and>
    token_send_step (x\<lparr>x_stage := EndRXCMD\<rparr>) bus1 bus1 = Inr (0, x\<lparr>x_stage := EOP\<rparr>, bus2) \<and>
    usbf_step (set_fstage EOP func) bus2 bus2 = Inr (1, next_fstep (set_fstage EOP func), bus2)"
proof -
  define bus1 where "bus1 = set_a 0x4C ((driven bus b)\<lparr>u_nxt := SIG0\<rparr>)"
  define bus2 where "bus2 = set_a 0x4D bus1"
  show ?thesis
    using assms
    by (intro exI [of _ bus1] exI [of _ bus2])
      (auto simp: bus1_def bus2_def func_turn xfer_order)
qed

lemma func_token_run:
  assumes "x_type x \<in> {SETUP, OUT, IN, SOF}" and "f_state func = FuncIdle"
  shows "\<exists>bus'. \<forall>n. ulpi_step_with n token_send_step x bus usbf_step func =
    (if n < 7 then None else Some (Inr (1, x\<lparr>x_stage := EOP\<rparr>, bus', with_token x func)))"
proof -
  let ?x = "x\<lparr>x_stage := NoXfer\<rparr>"
  let ?f = "func\<lparr>f_state := FuncBusy, f_op := op_of (x_type x), f_step := 0,
        f_xfer := (f_xfer func)\<lparr>x_type := x_type x, x_stage := EndRXCMD, x_tok1 := x_tok1 x, x_tok2 := x_tok2 x\<rparr>\<rparr>"
  have a: "turns 5 token_send_step usbf_step (?x, ulpi_bus_idle bus, bus_zero, func) =
      Some (x\<lparr>x_stage := Token2\<rparr>, driven bus (x_tok2 x), driven bus (x_tok2 x), ?f)"
    using func_token_turns [of ?x func bus bus_zero] assms by simp
  obtain bus1 bus2 where
      b: "turns 1 token_send_step usbf_step (x\<lparr>x_stage := Token2\<rparr>, driven bus (x_tok2 x), driven bus (x_tok2 x), ?f) =
        Some (x\<lparr>x_stage := EndRXCMD\<rparr>, bus1, bus1, set_fstage EOP ?f)" and
      c: "token_send_step (x\<lparr>x_stage := EndRXCMD\<rparr>) bus1 bus1 = Inr (0, x\<lparr>x_stage := EOP\<rparr>, bus2)" and
      d: "usbf_step (set_fstage EOP ?f) bus2 bus2 = Inr (1, next_fstep (set_fstage EOP ?f), bus2)"
    using func_token_last_turns [of x ?f bus "x_tok2 x"] assms(1) by auto
  have "next_fstep (set_fstage EOP ?f) = with_token x func"
    by (simp add: next_fstep_def set_fstage_def upd_fxfer_def with_token_def)
  then show ?thesis
    using loop_user_done [OF turns_trans [OF a b] c d] by (auto simp: ulpi_step_with_def)
qed

text \<open>
  (C24) The simulated device receives every token the host sends, whatever the address in it and its own
  address \<open>f_addr\<close>, which \<open>usbfunc.c\<close> never compares with a token: in exactly seven turns it is busy
  with the operation of the token and holds the two token bytes. The device's result ends the loop, so
  the host's transfer has not yet driven the end of the packet.
\<close>

theorem func_token_received:
  assumes "x_type x \<in> {SETUP, OUT, IN, SOF}" and "f_state func = FuncIdle"
  shows "\<exists>bus'. \<forall>n. ulpi_step_with n token_send_step x bus usbf_step func =
    (if n < 7 then None else Some (Inr (1, x\<lparr>x_stage := EOP\<rparr>, bus', with_token x func)))"
  using assms by (rule func_token_run)

lemma func_token_received_witness:
  "\<exists>bus'. \<forall>n. ulpi_step_with n token_send_step (xfer_zero\<lparr>x_type := SETUP, x_tok2 := 0x10\<rparr>) bus_zero usbf_step func_zero =
    (if n < 7 then None
     else Some (Inr (1, xfer_zero\<lparr>x_type := SETUP, x_tok2 := 0x10, x_stage := EOP\<rparr>, bus',
       with_token (xfer_zero\<lparr>x_type := SETUP, x_tok2 := 0x10\<rparr>) func_zero)))"
  by (rule func_token_received [of "xfer_zero\<lparr>x_type := SETUP, x_tok2 := 0x10\<rparr>" func_zero, simplified])
    (simp add: func_zero_def)

subsection \<open>The data packet after a token\<close>

primrec func_run :: "ulpi_bus_t list \<Rightarrow> usb_func_t \<Rightarrow> (int list \<times> usb_func_t) outcome" where
  "func_run [] func = Inr ([], func)"
| "func_run (i # is) func =
     bind_c (usbf_step func i i) (\<lambda>(r, func, _).
     bind_c (func_run is func) (\<lambda>(rs, func). Inr (r # rs, func)))"

definition deaf :: "usb_func_t \<Rightarrow> bool" where
  "deaf func \<longleftrightarrow> f_state func = FuncBusy \<and> f_step func = 1 \<and> f_op func \<in> {HostSETUP, HostBulkOUT} \<and>
     x_stage (f_xfer func) = EOP"

definition await_ack :: "usb_func_t \<Rightarrow> usb_func_t" where
  "await_ack = upd_fxfer (\<lambda>x. x\<lparr>x_type := UpACK\<rparr>)"

lemma await_ack_simps [simp]: "deaf (await_ack func) = deaf func" "await_ack (await_ack func) = await_ack func"
  by (simp_all add: await_ack_def deaf_def upd_fxfer_def)

definition clocked :: "ulpi_bus_t \<Rightarrow> bool" where
  "clocked bus \<longleftrightarrow> u_clock bus = SIG1 \<and> u_rst_n bus = SIG1"

lemma deaf_step:
  assumes "deaf func" and "clocked i"
  shows "usbf_step func i i = Inr (0, await_ack func, i)"
  using assms
  by (auto simp: usbf_step_def func_xfer_step_def fn_datax_recv_step_def xfer_order deaf_def await_ack_def
      clocked_def)

lemma deaf_run:
  "deaf func \<Longrightarrow> clocked i \<Longrightarrow> list_all clocked is \<Longrightarrow>
     func_run (i # is) func = Inr (0 # replicate (length is) 0, await_ack func)"
proof (induction "is" arbitrary: i func)
  case Nil
  then show ?case by (simp add: deaf_step)
next
  case (Cons j "is")
  then have "func_run (j # is) (await_ack func) = Inr (0 # replicate (length is) 0, await_ack func)"
    by (simp del: func_run.simps)
  then show ?case
    unfolding func_run.simps(2) [of i] deaf_step [OF Cons.prems(1,2)] by (simp del: func_run.simps)
qed

text \<open>
  (C25) After a SETUP or OUT token the device receives no data: the token leaves its transfer in the stage
  \<open>EOP\<close>, and in this stage the routine for data packets accepts any bus values and looks at none of
  them. Whatever the host sends, each clock returns 0, and the receive buffer, the packet count and the
  stage stay as the token left them.
\<close>

theorem func_ignores_data:
  assumes "x_type x \<in> {SETUP, OUT}" and "is \<noteq> []" and "list_all clocked is"
  shows "func_run is (with_token x func) = Inr (replicate (length is) 0, await_ack (with_token x func))"
proof -
  have "deaf (with_token x func)" using assms(1) by (auto simp: deaf_def with_token_def op_of_def)
  then show ?thesis using deaf_run [of "with_token x func"] assms(2,3)
    by (cases "is") (simp_all del: func_run.simps)
qed

lemma func_ignores_data_witness:
  "func_run (map (driven bus_zero) [0xC3, 0x80, 0x06])
      (with_token (xfer_zero\<lparr>x_type := SETUP\<rparr>) func_zero) =
    Inr ([0, 0, 0], await_ack (with_token (xfer_zero\<lparr>x_type := SETUP\<rparr>) func_zero))"
  by (subst func_ignores_data) (simp_all add: clocked_def numeral_eq_Suc)

end
