(* ===== verification/Ulpiphy_Speed.thy ===== *)
theory Ulpiphy_Speed
  imports Ulpiphy_Props "HOL-Library.Sublist"
begin

text \<open>
  The line-speed of the PHY as an abstract machine, which every clock of \<open>uphy_step\<close> refines: high
  speed is reached only through the whole chirp hand-shake.
\<close>

inductive speed_step :: "u8 \<Rightarrow> u8 \<Rightarrow> bool" where
  host_se0: "speed_step FullSpeed HostSE0"
| func_chirp: "speed_step s FuncChirpK"
| host_chirp: "speed_step FuncChirpK HostChirpK1"
| next_chirp: "FuncChirpK < s \<Longrightarrow> s < HighSpeed \<Longrightarrow> speed_step s (s + 1)"

inductive_cases speed_stepE: "speed_step s t"

definition speed_or_same :: "u8 \<Rightarrow> u8 \<Rightarrow> bool" where
  "speed_or_same s t \<longleftrightarrow> t = s \<or> speed_step s t"

abbreviation speed_of :: "ulpi_phy_t \<Rightarrow> u8" where
  "speed_of phy \<equiv> p_speed (phy_state phy)"

text \<open>The chirp of the device is being heard only at the speed that says so.\<close>

definition chirp_inv :: "ulpi_phy_t \<Rightarrow> bool" where
  "chirp_inv phy \<longleftrightarrow> (p_op (phy_state phy) = PhyChirpK \<longrightarrow> speed_of phy = FuncChirpK)"

definition speed_post :: "ulpi_phy_t \<Rightarrow> int \<times> ulpi_phy_t \<times> ulpi_bus_t \<Rightarrow> bool" where
  "speed_post phy = (\<lambda>(r, phy', out). chirp_inv phy' \<and> speed_or_same (speed_of phy) (speed_of phy'))"

lemma speed_post_simps [simp]:
  "speed_post phy (r, phy', out) \<longleftrightarrow> chirp_inv phy' \<and> speed_or_same (speed_of phy) (speed_of phy')"
  by (simp add: speed_post_def)

lemma done_speed [simp]:
  "returns (speed_post phy) (uphy_done phy' out) \<longleftrightarrow> chirp_inv phy' \<and> speed_or_same (speed_of phy) (speed_of phy')"
  by (simp add: uphy_done_def chirp_inv_def)

lemma speed_updates [simp]:
  "speed_or_same s s"
  "speed_of (set_op op phy) = speed_of phy"
  "speed_of (uphy_reset phy) = speed_of phy"
  "op \<noteq> PhyChirpK \<Longrightarrow> chirp_inv (set_op op phy)"
  "chirp_inv (uphy_reset phy)"
  "speed_or_same s FuncChirpK"
  by (simp_all add: speed_or_same_def chirp_inv_def set_op_def uphy_reset_def func_chirp)

lemma chirp_status_speed:
  "chirp_status s = Some s' \<Longrightarrow> speed_or_same (p_speed s) (p_speed s')"
  by (auto simp: chirp_status_def Let_def speed_or_same_def host_se0 split: if_splits)

lemma txcmd_speed: "chirp_inv phy \<Longrightarrow> returns (speed_post phy) (uphy_txcmd_step phy inb out)"
  by (simp add: uphy_txcmd_step_def Let_def chirp_inv_def)

lemma status_speed: "chirp_inv phy \<Longrightarrow> returns (speed_post phy) (uphy_status phy out)"
  using chirp_status_speed [of "phy_state phy"]
  by (auto simp: uphy_status_def Let_def chirp_inv_def split: option.split)

lemma starting_speed: "chirp_inv phy \<Longrightarrow> p_op (phy_state phy) = Starting \<Longrightarrow>
    returns (speed_post phy) (uphy_starting phy inb out)"
  using txcmd_speed [of phy inb out] by (simp add: uphy_starting_def Let_def) (simp add: chirp_inv_def)

lemma idle_speed: "chirp_inv phy \<Longrightarrow> p_op (phy_state phy) = PhyIdle \<Longrightarrow>
    returns (speed_post phy) (uphy_idle phy inb out)"
  using txcmd_speed [of phy inb out] by (simp add: uphy_idle_def Let_def)
    (simp add: chirp_inv_def speed_or_same_def next_chirp)

lemma uphy_step_speed:
  assumes "chirp_inv phy"
  shows "returns (speed_post phy) (uphy_step phy inb)"
proof -
  define p where "p = (if u_rst_n inb = SIG0 then set_op PowerOn phy else phy)"
  have inv: "chirp_inv p" and same: "speed_of p = speed_of phy" using assms by (simp_all add: p_def)
  have keep: "chirp_inv (upd_state (\<lambda>s. s\<lparr>p_timer := t, p_op := Starting\<rparr>) p)"
    "chirp_inv (upd_state (\<lambda>s. s\<lparr>p_timer := t\<rparr>) p)"
    "chirp_inv (upd_state (\<lambda>s. s\<lparr>p_update := of_bool (p_regnum s = UPHY_REG_FN_CTRL), p_regs := regs,
       p_op := PhyStop\<rparr>) p)"
    "chirp_inv (upd_state (\<lambda>s. s\<lparr>p_op := WaitForIdle, p_update := 1, p_speed := HostChirpK1\<rparr>) q)" for t regs q
    using inv by (simp_all add: chirp_inv_def)
  have chirp: "p_op (phy_state p) = PhyChirpK \<Longrightarrow> speed_or_same (speed_of p) HostChirpK1"
    using inv by (simp add: chirp_inv_def speed_or_same_def host_chirp)
  have "returns (speed_post p) (uphy_step phy inb)"
    unfolding uphy_step_def uphy_command_def Let_def p_def [symmetric]
    using starting_speed [OF inv] status_speed [OF inv] idle_speed [OF inv] chirp keep inv by simp
  then show ?thesis by (rule returns_mono) (auto simp: speed_post_def same)
qed

text \<open>The speeds after the clocks of a run.\<close>

primrec speed_trace :: "ulpi_bus_t list \<Rightarrow> ulpi_phy_t \<Rightarrow> u8 list outcome" where
  "speed_trace [] phy = Inr []"
| "speed_trace (i # is) phy =
     bind_c (uphy_step phy i) (\<lambda>(r, phy, out).
     bind_c (speed_trace is phy) (\<lambda>ss. Inr (speed_of phy # ss)))"

lemma speed_trace_refines:
  "chirp_inv phy \<Longrightarrow> speed_trace is phy = Inr ss \<Longrightarrow> successively speed_or_same (speed_of phy # ss)"
proof (induction "is" arbitrary: phy ss)
  case Nil
  then show ?case by simp
next
  case (Cons i "is")
  from Cons.prems(2) obtain r phy1 out ss1 where
    step: "uphy_step phy i = Inr (r, phy1, out)" and ss: "speed_trace is phy1 = Inr ss1" "ss = speed_of phy1 # ss1"
    by (auto simp: bind_c_eq_Inr)
  have "chirp_inv phy1" "speed_or_same (speed_of phy) (speed_of phy1)"
    using uphy_step_speed [OF Cons.prems(1), of i] step by simp_all
  then show ?case using Cons.IH [OF _ ss(1)] ss(2) by simp
qed

subsection \<open>The path to high speed\<close>

lemma speed_path:
  "successively speed_or_same (s # ss) \<Longrightarrow> s \<le> HostSE0 \<Longrightarrow> FuncChirpK \<le> last (s # ss) \<Longrightarrow>
   last (s # ss) \<le> HighSpeed \<Longrightarrow> subseq [2..<Suc (unat (last (s # ss)))] (map unat ss)"
proof (induction ss rule: rev_induct)
  case Nil
  then show ?case by (simp add: word_le_nat_alt)
next
  case (snoc t ss)
  let ?l = "last (s # ss)"
  have chain: "successively speed_or_same (s # ss)" and step: "speed_or_same ?l t"
    using snoc.prems(1) successively_append_iff [of speed_or_same "s # ss" "[t]"] by simp_all
  note IH = snoc.IH [OF chain snoc.prems(2)]
  from step consider "t = ?l" | "speed_step ?l t" by (auto simp: speed_or_same_def)
  then show ?case
  proof cases
    case 1
    then show ?thesis using IH snoc.prems(3,4) by (simp add: subseq_rev_drop_many)
  next
    case 2
    have longer: "subseq [2..<Suc (unat t)] (map unat (ss @ [t]))"
      if "unat t = Suc (unat ?l)" "FuncChirpK \<le> ?l" "?l \<le> HighSpeed"
    proof -
      have "[2..<Suc (unat t)] = [2..<Suc (unat ?l)] @ [unat t]"
        using that(1,2) by (simp add: word_le_nat_alt)
      then show ?thesis using IH [OF that(2,3)] by simp
    qed
    from 2 show ?thesis
    proof cases
      case host_se0
      then show ?thesis using snoc.prems(3) by (simp add: word_le_nat_alt)
    next
      case func_chirp
      then show ?thesis by (simp add: upt_rec subseq_singleton_left)
    next
      case host_chirp
      then show ?thesis using longer by (simp add: word_le_nat_alt)
    next
      case next_chirp
      then have "unat ?l < 9" by (simp add: word_less_nat_alt)
      then have "unat t = Suc (unat ?l)" using next_chirp(1) by (simp add: unat_word_ariths)
      then show ?thesis using longer next_chirp(2,3) by simp
    qed
  qed
qed

subsection \<open>The properties\<close>

text \<open>
  (C19) Every clock of the PHY refines the machine of line-speeds, whatever is on the bus: the speed
  stays, or becomes that of the device's chirp, or goes on to the next chirp of the host.
\<close>

theorem phy_refines_speed:
  assumes "p_op (phy_state phy) \<noteq> PhyChirpK" and "speed_trace is phy = Inr ss"
  shows "successively speed_or_same (speed_of phy # ss)"
  by (rule speed_trace_refines [OF _ assms(2)]) (use assms(1) in \<open>simp add: chirp_inv_def\<close>)

lemma phy_refines_speed_witness: "successively speed_or_same [FullSpeed, FullSpeed, FullSpeed]"
proof -
  have "p_op (phy_state phy_example) \<noteq> PhyChirpK" by (simp add: phy_example_def)
  moreover have "speed_trace [quiet, quiet] phy_example = Inr [FullSpeed, FullSpeed]"
    by (simp add: phy_example_def phy_clock high_speed_def)
  ultimately show ?thesis using phy_refines_speed [of phy_example "[quiet, quiet]" "[FullSpeed, FullSpeed]"]
    by (simp add: phy_example_def)
qed

text \<open>
  (C20) A PHY that starts at full speed is in high speed only after the whole hand-shake: the chirp of
  the device and then the six chirps K, J, K, J, K, J of the host, in this order.
\<close>

theorem high_speed_after_chirps:
  assumes "p_op (phy_state phy) \<noteq> PhyChirpK" and "speed_of phy = FullSpeed"
    and "speed_trace is phy = Inr (ss @ [HighSpeed])"
  shows "subseq [FuncChirpK, HostChirpK1, HostChirpJ1, HostChirpK2, HostChirpJ2, HostChirpK3, HostChirpJ3] ss"
proof -
  have chain: "successively speed_or_same (speed_of phy # ss @ [HighSpeed])"
    by (rule speed_trace_refines [OF _ assms(3)]) (use assms(1) in \<open>simp add: chirp_inv_def\<close>)
  have "subseq [2..<10] (map unat (ss @ [HighSpeed]))"
    using speed_path [OF chain] assms(2) by simp
  moreover have "[2..<10] = map unat [FuncChirpK, HostChirpK1, HostChirpJ1, HostChirpK2, HostChirpJ2,
      HostChirpK3, HostChirpJ3, HighSpeed]"
    by (simp add: upt_rec)
  ultimately have "subseq (map unat ([FuncChirpK, HostChirpK1, HostChirpJ1, HostChirpK2, HostChirpJ2,
      HostChirpK3, HostChirpJ3] @ [HighSpeed])) (map unat (ss @ [HighSpeed]))"
    by (simp only: append.simps)
  then have "subseq (map unat [FuncChirpK, HostChirpK1, HostChirpJ1, HostChirpK2, HostChirpJ2,
      HostChirpK3, HostChirpJ3]) (map unat ss)"
    unfolding map_append list.map subseq_append .
  then have "subseq (map word_of_nat (map unat [FuncChirpK, HostChirpK1, HostChirpJ1, HostChirpK2, HostChirpJ2,
      HostChirpK3, HostChirpJ3])) (map (word_of_nat :: nat \<Rightarrow> u8) (map unat ss))"
    by (rule subseq_map)
  then show ?thesis unfolding map_map by (simp add: comp_def)
qed

text \<open>The negotiation that reaches it.\<close>

lemma run_trace:
  "phy_run is phy = Inr (outs, phy1) \<Longrightarrow> speed_trace js phy1 = Inr ss \<Longrightarrow>
     \<exists>ss'. speed_trace (is @ js) phy = Inr (ss' @ ss)"
proof (induction "is" arbitrary: phy outs)
  case (Cons i "is")
  then obtain r phy0 out outs' where "uphy_step phy i = Inr (r, phy0, out)" "phy_run is phy0 = Inr (outs', phy1)"
    by (auto simp: bind_c_eq_Inr)
  with Cons.IH [OF this(2) Cons.prems(2)] show ?case by auto
qed simp

lemma link_trace:
  "phy_link (Suc n) phy inb = Inr (cmds, phy', inb') \<Longrightarrow>
     \<exists>is ss. speed_trace is phy = Inr (ss @ [speed_of phy'])"
proof (induction n arbitrary: phy inb cmds)
  case 0
  then obtain r out where "uphy_step phy inb = Inr (r, phy', out)" by (auto simp: bind_c_eq_Inr)
  then have "speed_trace [inb] phy = Inr ([] @ [speed_of phy'])" by simp
  then show ?case by blast
next
  case (Suc n)
  from Suc.prems obtain r phy1 out cmds' where 1: "uphy_step phy inb = Inr (r, phy1, out)" and
      2: "phy_link (Suc n) phy1 (link_rest out) = Inr (cmds', phy', inb')"
    unfolding phy_link.simps(2) [of "Suc n"] by (auto simp: bind_c_eq_Inr simp del: phy_link.simps)
  from Suc.IH [OF 2] obtain "is" ss where "speed_trace is phy1 = Inr (ss @ [speed_of phy'])" by blast
  with 1 have "speed_trace (inb # is) phy = Inr ((speed_of phy1 # ss) @ [speed_of phy'])" by simp
  then show ?case by blast
qed

lemma high_speed_after_chirps_witness:
  "\<exists>is ss. speed_trace is phy_chirp_example = Inr (ss @ [HighSpeed]) \<and>
    subseq [FuncChirpK, HostChirpK1, HostChirpJ1, HostChirpK2, HostChirpJ2, HostChirpK3, HostChirpJ3] ss"
proof -
  have phy: "phy_at_rest phy_chirp_example" "p_regs (phy_state phy_chirp_example) ! 4 AND 0x1C = 0x14"
      "p_op (phy_state phy_chirp_example) \<noteq> PhyChirpK" "speed_of phy_chirp_example = FullSpeed"
    using phy_example_rest
    by (simp_all add: phy_chirp_example_def phy_at_rest_def phy_ok_def phy_example_def ULPI_REG_DEFAULTS_def)
  obtain outs phy1 phy2 cmds where 1: "phy_run (chirp_cycles 60) phy_chirp_example = Inr (outs, phy1)"
    and 2: "phy_link (Suc 208) phy1 quiet = Inr (cmds, phy2, quiet)" and "speed_of phy2 = HighSpeed"
    using chirps_to_high_speed [OF phy(1,2), of 60] by (auto simp del: phy_link.simps)
  then obtain "is" ss where "speed_trace is phy1 = Inr (ss @ [HighSpeed])" using link_trace [OF 2] by auto
  from run_trace [OF 1 this] obtain ss' where
    "speed_trace (chirp_cycles 60 @ is) phy_chirp_example = Inr ((ss' @ ss) @ [HighSpeed])" by auto
  then show ?thesis using high_speed_after_chirps [OF phy(3,4)] by blast
qed

end
