(* ===== verification/Packet_tb.thy ===== *)
theory Packet_tb
  imports Testcase Vpi
begin

text \<open>
  The packet-FIFO test-bench \<open>src/vpi/packet_tb.c\<close>: the routines that store a packet into the
  FIFO and fetch one from it over an AXI4-stream handshake, the test-cases made of them, and the
  step that works through the list of test-cases, and the callbacks that sample and drive the signals.
  \<open>pt_error\<close> prints, asks the simulator to stop, and returns 0: here it sets \<open>t_failed\<close>.
\<close>

record fifo_sigs_t =
  g_clock :: bit_t
  g_reset :: bit_t
  g_level :: byte_t
  g_drop :: bit_t
  g_save :: bit_t
  g_redo :: bit_t
  g_next :: bit_t
  g_w_vld :: bit_t
  g_w_rdy :: bit_t
  g_w_lst :: bit_t
  g_w_dat :: byte_t
  g_r_vld :: bit_t
  g_r_rdy :: bit_t
  g_r_lst :: bit_t
  g_r_dat :: byte_t

record tc_state_t =
  t_step :: int
  t_size :: int
  t_head :: int
  t_tail :: int
  t_buf :: "u8 list"
  t_failed :: bool

type_synonym pt_result = "(int \<times> fifo_sigs_t \<times> tc_state_t) outcome"

definition pt_error :: "tc_state_t \<Rightarrow> tc_state_t" where
  "pt_error st = st\<lparr>t_failed := True\<rparr>"

definition fill_fixed_len :: "rand_t \<Rightarrow> u8 list \<Rightarrow> u32 \<Rightarrow> (u32 \<times> u8 list) outcome" where
  "fill_fixed_len rnd buf len =
     bind_c (fill_rand rnd (unat len) buf) (\<lambda>buf. Inr (len, buf))"

definition fill_len_masked :: "rand_t \<Rightarrow> u8 list \<Rightarrow> u32 \<Rightarrow> (u32 \<times> u8 list) outcome" where
  "fill_len_masked rnd buf len = fill_fixed_len (\<lambda>k. rnd (Suc k)) buf (rnd 0 AND len)"

subsection \<open>Storing and fetching\<close>

text \<open>The second half of \<open>store_packet\<close>: drive the byte at \<open>head\<close>.\<close>

definition store_drive :: "fifo_sigs_t \<Rightarrow> tc_state_t \<Rightarrow> pt_result" where
  "store_drive cur st =
     (let cur = cur\<lparr>g_w_lst := (if t_head st + 1 < t_size st then SIG0 else SIG1)\<rparr> in
      if t_head st < t_size st then
        bind_c (aget (t_buf st) (t_head st)) (\<lambda>byte.
          Inr (0, cur\<lparr>g_w_vld := SIG1, g_w_dat := \<lparr>byte_a = byte, byte_b = 0x00\<rparr>\<rparr>, st))
      else Inr (0, cur, pt_error st))"

definition store_packet :: "fifo_sigs_t \<Rightarrow> tc_state_t \<Rightarrow> pt_result" where
  "store_packet cur st =
     assert_c (t_size st > 0 \<and> t_head st \<ge> 0)
       (if g_w_vld cur = SIG1 \<and> g_w_rdy cur = SIG1 then
          (if g_w_lst cur = SIG1 then
             Inr (1, cur\<lparr>g_w_vld := SIG0, g_w_lst := SIG0,
               g_w_dat := \<lparr>byte_a = 0x00, byte_b = 0xFF\<rparr>\<rparr>, st)
           else store_drive cur
             (if g_w_lst cur = SIG0 then st\<lparr>t_head := t_head st + 1\<rparr> else st))
        else store_drive cur st)"

definition fetch_packet :: "fifo_sigs_t \<Rightarrow> tc_state_t \<Rightarrow> pt_result" where
  "fetch_packet cur st =
     assert_c (t_tail st \<ge> 0)
       (if g_r_vld cur = SIG1 \<and> g_r_rdy cur = SIG1 then
          bind_c (aget (t_buf st) (t_tail st)) (\<lambda>byte.
            let st = st\<lparr>t_tail := t_tail st + 1\<rparr>;
                st = (if byte \<noteq> byte_a (g_r_dat cur) \<or> byte_b (g_r_dat cur) \<noteq> 0x00
                      then pt_error st else st) in
            if g_r_lst cur = SIG1 then Inr (1, cur\<lparr>g_r_rdy := SIG0\<rparr>, st)
            else Inr (0, cur\<lparr>g_r_rdy := SIG1\<rparr>, st))
        else Inr (0, cur\<lparr>g_r_rdy := SIG1\<rparr>, st))"

definition fetch_stop_go :: "u32 \<Rightarrow> fifo_sigs_t \<Rightarrow> tc_state_t \<Rightarrow> pt_result" where
  "fetch_stop_go rnd cur st =
     bind_c (fetch_packet cur st) (\<lambda>(result, cur, st).
       if result \<noteq> 0 then Inr (result, cur, st)
       else Inr (0, cur\<lparr>g_r_rdy := (if rnd AND 0x01 = 1 then SIG1 else SIG0)\<rparr>, st))"

subsection \<open>Test-cases\<close>

datatype pt_test = WaitRst | WrData1 | WrRedo | WrDrop | StopGo

definition tc_waitrst_step :: "fifo_sigs_t \<Rightarrow> tc_state_t \<Rightarrow> pt_result" where
  "tc_waitrst_step cur st =
     assert_c (g_clock cur = SIG1)
       (if t_step st = 0 then
          (if g_reset cur = SIG1 then
             Inr (0, cur\<lparr>g_drop := SIG0, g_save := SIG0, g_redo := SIG0, g_next := SIG0,
               g_w_vld := SIG0, g_r_rdy := SIG0\<rparr>, st\<lparr>t_step := 1\<rparr>)
           else Inr (0, cur, st))
        else if t_step st = 1 then
          Inr (0, cur, if g_reset cur = SIG0 then st\<lparr>t_step := 2\<rparr> else st)
        else if t_step st = 2 then Inr (1, cur, st)
        else Inr (-1, cur, st))"

definition tc_waitrst_init :: "fifo_sigs_t \<Rightarrow> tc_state_t \<Rightarrow> pt_result" where
  "tc_waitrst_init cur st = Inr (0, cur, st\<lparr>t_step := 0\<rparr>)"

text \<open>The four tests that send a packet begin in the same way: the buffer is filled inside an \<open>assert\<close>.\<close>

definition tc_fill_init :: "rand_t \<Rightarrow> fifo_sigs_t \<Rightarrow> tc_state_t \<Rightarrow> pt_result" where
  "tc_fill_init rnd cur st =
     bind_c (fill_fixed_len rnd (t_buf st) (word_of_int (t_size st))) (\<lambda>(n, buf).
       assert_c (n = word_of_int (t_size st))
         (Inr (0, cur, st\<lparr>t_step := 0, t_head := 0, t_tail := 0, t_buf := buf\<rparr>)))"

definition tc_wrdata1_init :: "rand_t \<Rightarrow> fifo_sigs_t \<Rightarrow> tc_state_t \<Rightarrow> pt_result" where
  "tc_wrdata1_init rnd cur st = tc_fill_init rnd cur st"

definition tc_wr_redo_init :: "rand_t \<Rightarrow> fifo_sigs_t \<Rightarrow> tc_state_t \<Rightarrow> pt_result" where
  "tc_wr_redo_init rnd cur st = tc_fill_init rnd cur st"

definition tc_wr_drop_init :: "rand_t \<Rightarrow> fifo_sigs_t \<Rightarrow> tc_state_t \<Rightarrow> pt_result" where
  "tc_wr_drop_init rnd cur st = tc_fill_init rnd cur st"

definition tc_stop_go_init :: "rand_t \<Rightarrow> fifo_sigs_t \<Rightarrow> tc_state_t \<Rightarrow> pt_result" where
  "tc_stop_go_init rnd cur st = tc_fill_init rnd cur st"

text \<open>Step 0 of the four tests: wait for the FIFO to accept data.\<close>

definition wait_w_rdy :: "fifo_sigs_t \<Rightarrow> tc_state_t \<Rightarrow> pt_result" where
  "wait_w_rdy cur st =
     Inr (0, cur\<lparr>g_r_rdy := SIG0\<rparr>, if g_w_rdy cur = SIG1 then st\<lparr>t_step := 1\<rparr> else st)"

text \<open>The assertion at the head of every test step but the first test's.\<close>

definition running :: "fifo_sigs_t \<Rightarrow> bool" where
  "running cur \<longleftrightarrow> g_clock cur = SIG1 \<and> g_reset cur = SIG0"

definition tc_wrdata1_step :: "fifo_sigs_t \<Rightarrow> tc_state_t \<Rightarrow> pt_result" where
  "tc_wrdata1_step cur st =
     assert_c (running cur)
       (if t_step st = 0 then wait_w_rdy cur st
        else if t_step st = 1 then
          bind_c (store_packet cur st) (\<lambda>(result, cur, st).
            if result < 0 then Inr (result, cur, st)
            else Inr (0, cur, if result > 0 then st\<lparr>t_step := 2\<rparr> else st))
        else if t_step st = 2 then Inr (0, cur\<lparr>g_save := SIG1\<rparr>, st\<lparr>t_step := 3\<rparr>)
        else if t_step st = 3 then
          Inr (0, cur\<lparr>g_save := SIG0\<rparr>, if g_r_vld cur = SIG1 then st\<lparr>t_step := 4\<rparr> else st)
        else if t_step st = 4 then
          bind_c (fetch_packet cur st) (\<lambda>(result, cur, st).
            if result < 0 then Inr (result, cur, st)
            else if result > 0 then Inr (0, cur\<lparr>g_next := SIG1\<rparr>, st\<lparr>t_step := 5\<rparr>)
            else Inr (0, cur, st))
        else if t_step st = 5 then Inr (1, cur\<lparr>g_next := SIG0\<rparr>, st)
        else Inr (-1, cur, st))"

text \<open>Steps 2 and 3 of the tests that store a packet twice: store, then store and fetch.\<close>

definition restore_first :: "fifo_sigs_t \<Rightarrow> tc_state_t \<Rightarrow> pt_result" where
  "restore_first cur st =
     bind_c (store_packet cur st) (\<lambda>(result, cur, st).
       if result \<noteq> 0 then Inr (-1, cur, pt_error st) else Inr (0, cur, st\<lparr>t_step := 3\<rparr>))"

definition store_and_fetch :: "fifo_sigs_t \<Rightarrow> tc_state_t \<Rightarrow> pt_result" where
  "store_and_fetch cur st =
     bind_c (store_packet cur st) (\<lambda>(result, cur, st).
     bind_c
       (if result < 0 then fetch_packet cur (pt_error st)
        else if result > 0 then fetch_packet (cur\<lparr>g_save := SIG1\<rparr>) (st\<lparr>t_step := 4\<rparr>)
        else fetch_packet cur st) (\<lambda>(result, cur, st).
       Inr (0, cur, if result \<noteq> 0 then pt_error st else st)))"

definition tc_wr_redo_step :: "fifo_sigs_t \<Rightarrow> tc_state_t \<Rightarrow> pt_result" where
  "tc_wr_redo_step cur st =
     assert_c (running cur)
       (if t_step st = 0 then wait_w_rdy cur st
        else if t_step st = 1 then
          bind_c (store_packet cur st) (\<lambda>(result, cur, st).
            if result < 0 then Inr (-1, cur, pt_error st)
            else if result > 0 then Inr (0, cur\<lparr>g_save := SIG1\<rparr>, st\<lparr>t_head := 0, t_step := 2\<rparr>)
            else Inr (0, cur, st))
        else if t_step st = 2 then restore_first (cur\<lparr>g_save := SIG0\<rparr>) st
        else if t_step st = 3 then store_and_fetch cur st
        else if t_step st = 4 then
          bind_c (fetch_packet (cur\<lparr>g_save := SIG0\<rparr>) st) (\<lambda>(result, cur, st).
            if result < 0 then Inr (0, cur, pt_error st)
            else if result > 0 then Inr (0, cur\<lparr>g_redo := SIG1\<rparr>, st\<lparr>t_step := 5, t_tail := 0\<rparr>)
            else Inr (0, cur, st))
        else if t_step st = 5 \<or> t_step st = 6 then
          (let cur = (if t_step st = 5 then cur\<lparr>g_redo := SIG0\<rparr> else cur) in
           bind_c (fetch_packet (cur\<lparr>g_next := SIG0\<rparr>) st) (\<lambda>(result, cur, st).
             if result < 0 then Inr (0, cur, pt_error st)
             else if result > 0
             then Inr (0, cur\<lparr>g_next := SIG1\<rparr>, st\<lparr>t_step := t_step st + 1, t_tail := 0\<rparr>)
             else Inr (0, cur, st)))
        else if t_step st = 7 then Inr (1, cur\<lparr>g_next := SIG0\<rparr>, st)
        else Inr (-1, cur, st))"

definition tc_wr_drop_step :: "fifo_sigs_t \<Rightarrow> tc_state_t \<Rightarrow> pt_result" where
  "tc_wr_drop_step cur st =
     assert_c (running cur)
       (if t_step st = 0 then wait_w_rdy cur st
        else if t_step st = 1 then
          bind_c (store_packet cur st) (\<lambda>(result, cur, st).
            if result < 0 then Inr (-1, cur, pt_error st)
            else if result > 0 then Inr (0, cur\<lparr>g_drop := SIG1\<rparr>, st\<lparr>t_head := 0, t_step := 2\<rparr>)
            else Inr (0, cur, st))
        else if t_step st = 2 then restore_first (cur\<lparr>g_drop := SIG0\<rparr>) st
        else if t_step st = 3 then store_and_fetch cur st
        else if t_step st = 4 then
          bind_c (fetch_packet (cur\<lparr>g_save := SIG0\<rparr>) st) (\<lambda>(result, cur, st).
            if result < 0 then Inr (0, cur, pt_error st)
            else if result > 0 then Inr (0, cur\<lparr>g_next := SIG1\<rparr>, st\<lparr>t_step := 5, t_tail := 0\<rparr>)
            else Inr (0, cur, st))
        else if t_step st = 5 then Inr (1, cur\<lparr>g_next := SIG0\<rparr>, st)
        else Inr (-1, cur, st))"

definition tc_stop_go_step :: "u32 \<Rightarrow> fifo_sigs_t \<Rightarrow> tc_state_t \<Rightarrow> pt_result" where
  "tc_stop_go_step rnd cur st =
     assert_c (running cur)
       (if t_step st = 0 then wait_w_rdy cur st
        else if t_step st = 1 then
          bind_c (store_packet cur st) (\<lambda>(result, cur, st).
            if result < 0 then Inr (-1, cur, pt_error st)
            else if result > 0 then Inr (0, cur\<lparr>g_save := SIG1\<rparr>, st\<lparr>t_head := 0, t_step := 2\<rparr>)
            else Inr (0, cur, st))
        else if t_step st = 2 then
          bind_c (fetch_stop_go rnd (cur\<lparr>g_save := SIG0\<rparr>) st) (\<lambda>(result, cur, st).
            if result < 0 then Inr (0, cur, pt_error st)
            else if result > 0 then Inr (0, cur\<lparr>g_next := SIG1\<rparr>, st\<lparr>t_step := 3, t_tail := 0\<rparr>)
            else Inr (0, cur, st))
        else if t_step st = 3 then Inr (1, cur\<lparr>g_next := SIG0\<rparr>, st)
        else Inr (-1, cur, st))"

subsection \<open>The list of test-cases\<close>

fun pt_init :: "rand_t \<Rightarrow> fifo_sigs_t \<Rightarrow> pt_test \<Rightarrow> tc_state_t \<Rightarrow> pt_result" where
  "pt_init rnd cur WaitRst st = tc_waitrst_init cur st"
| "pt_init rnd cur WrData1 st = tc_wrdata1_init rnd cur st"
| "pt_init rnd cur WrRedo st = tc_wr_redo_init rnd cur st"
| "pt_init rnd cur WrDrop st = tc_wr_drop_init rnd cur st"
| "pt_init rnd cur StopGo st = tc_stop_go_init rnd cur st"

fun pt_advance :: "rand_t \<Rightarrow> fifo_sigs_t \<Rightarrow> pt_test \<Rightarrow> tc_state_t \<Rightarrow> pt_result" where
  "pt_advance rnd cur WaitRst st = tc_waitrst_step cur st"
| "pt_advance rnd cur WrData1 st = tc_wrdata1_step cur st"
| "pt_advance rnd cur WrRedo st = tc_wr_redo_step cur st"
| "pt_advance rnd cur WrDrop st = tc_wr_drop_step cur st"
| "pt_advance rnd cur StopGo st = tc_stop_go_step (rnd 0) cur st"

record pt_state_t =
  q_tick_ns :: u64
  q_t_recip :: u64
  q_cycle :: u64
  q_clock :: handle
  q_reset :: handle
  q_level :: handle
  q_drop :: handle
  q_save :: handle
  q_redo :: handle
  q_next :: handle
  q_w_vld :: handle
  q_w_rdy :: handle
  q_w_lst :: handle
  q_w_dat :: handle
  q_r_vld :: handle
  q_r_rdy :: handle
  q_r_lst :: handle
  q_r_dat :: handle
  q_sync_flag :: int
  q_test_curr :: int
  q_test_step :: int
  q_tests :: "(pt_test \<times> tc_state_t) list"
  q_sigs :: fifo_sigs_t
  q_finish :: bool

text \<open>
  The constructors of the test-cases: \<open>st\<close> is the block of memory that \<open>malloc\<close> returns, with a
  buffer of 256 bytes.
\<close>

definition test_waitrst :: "tc_state_t \<Rightarrow> pt_test \<times> tc_state_t" where
  "test_waitrst st = (WaitRst, st\<lparr>t_step := 0\<rparr>)"

definition test_wrdata1 :: "tc_state_t \<Rightarrow> u8 \<Rightarrow> pt_test \<times> tc_state_t" where
  "test_wrdata1 st len = (WrData1, st\<lparr>t_step := 0, t_size := uint len\<rparr>)"

definition test_wr_redo :: "tc_state_t \<Rightarrow> u8 \<Rightarrow> pt_test \<times> tc_state_t" where
  "test_wr_redo st len = (WrRedo, st\<lparr>t_step := 0, t_size := uint len\<rparr>)"

definition test_wr_drop :: "tc_state_t \<Rightarrow> u8 \<Rightarrow> pt_test \<times> tc_state_t" where
  "test_wr_drop st len = (WrDrop, st\<lparr>t_step := 0, t_size := uint len\<rparr>)"

definition test_stop_go :: "tc_state_t \<Rightarrow> pt_test \<times> tc_state_t" where
  "test_stop_go st = (StopGo, st\<lparr>t_step := 0, t_size := 32\<rparr>)"

definition pt_tests :: "(nat \<Rightarrow> tc_state_t) \<Rightarrow> (pt_test \<times> tc_state_t) list" where
  "pt_tests junk =
     [test_waitrst (junk 0), test_wrdata1 (junk 1) 8, test_wr_redo (junk 2) 8, test_wrdata1 (junk 3) 3,
      test_wr_redo (junk 4) 3, test_wr_drop (junk 5) 8, test_wr_drop (junk 6) 1, test_stop_go (junk 7)]"

text \<open>\<open>pt_failed\<close> prints the state, asks the simulator to stop, and returns -1.\<close>

definition pt_failed :: "pt_state_t \<Rightarrow> int \<times> pt_state_t" where
  "pt_failed state = (-1, state\<lparr>q_finish := True\<rparr>)"

definition pt_step ::
  "rand_t \<Rightarrow> pt_state_t \<Rightarrow> fifo_sigs_t \<Rightarrow> (int \<times> pt_state_t \<times> fifo_sigs_t) outcome" where
  "pt_step rnd state nxt =
     (let state = state\<lparr>q_cycle := q_cycle state + 1\<rparr> in
      if q_test_curr state < int (length (q_tests state)) then
        bind_c (aget (q_tests state) (q_test_curr state)) (\<lambda>(test, st).
        let first = (q_test_step state = 0);
            state = state\<lparr>q_test_step := q_test_step state + 1\<rparr> in
        bind_c (if first then pt_init rnd nxt test st else pt_advance rnd nxt test st)
          (\<lambda>(result, nxt, st).
          let state = state\<lparr>q_tests := (q_tests state)[nat (q_test_curr state) := (test, st)],
                q_finish := q_finish state \<or> t_failed st\<rparr> in
          if result < 0 then (let (result, state) = pt_failed state in Inr (result, state, nxt))
          else if result > 0 then
            Inr (result, state\<lparr>q_test_step := 0, q_test_curr := q_test_curr state + 1\<rparr>, nxt)
          else Inr (result, state, nxt)))
      else Inr (2, state, nxt))"

subsection \<open>Sampling and driving\<close>

definition pt_fetch_values :: "vpi \<Rightarrow> pt_state_t \<Rightarrow> pt_state_t" where
  "pt_fetch_values vpi q = q\<lparr>q_sigs :=
     \<lparr>g_clock = scalar_of vpi (q_clock q), g_reset = scalar_of vpi (q_reset q),
      g_level = byte_of vpi (q_level q), g_drop = scalar_of vpi (q_drop q),
      g_save = scalar_of vpi (q_save q), g_redo = scalar_of vpi (q_redo q),
      g_next = scalar_of vpi (q_next q), g_w_vld = scalar_of vpi (q_w_vld q),
      g_w_rdy = scalar_of vpi (q_w_rdy q), g_w_lst = scalar_of vpi (q_w_lst q),
      g_w_dat = byte_of vpi (q_w_dat q), g_r_vld = scalar_of vpi (q_r_vld q),
      g_r_rdy = scalar_of vpi (q_r_rdy q), g_r_lst = scalar_of vpi (q_r_lst q),
      g_r_dat = byte_of vpi (q_r_dat q)\<rparr>\<rparr>"

definition pt_update_values :: "pt_state_t \<Rightarrow> fifo_sigs_t \<Rightarrow> put list \<times> pt_state_t" where
  "pt_update_values q nxt =
     (let curr = q_sigs q in
      (put_bit (q_r_rdy q) (g_r_rdy curr) (g_r_rdy nxt) @
       put_bit (q_w_vld q) (g_w_vld curr) (g_w_vld nxt) @
       put_bit (q_w_lst q) (g_w_lst curr) (g_w_lst nxt) @
       put_bit (q_drop q) (g_drop curr) (g_drop nxt) @
       put_bit (q_save q) (g_save curr) (g_save nxt) @
       put_bit (q_redo q) (g_redo curr) (g_redo nxt) @
       put_bit (q_next q) (g_next curr) (g_next nxt) @
       put_byte (q_w_dat q) (g_w_dat curr) (g_w_dat nxt),
       q\<lparr>q_sigs := nxt\<rparr>))"

text \<open>
  \<open>cb_step_sync\<close> and \<open>cb_step_clock\<close> of this file; \<open>True\<close> is the request that the first be called
  when the other events of this time are done.
\<close>

definition pt_step_sync :: "rand_t \<Rightarrow> pt_state_t \<Rightarrow> (put list \<times> pt_state_t) outcome" where
  "pt_step_sync rnd q =
     bind_c (pt_step rnd q (q_sigs q)) (\<lambda>(result, q, nxt).
       let q = (if result > 1 then q\<lparr>q_finish := True\<rparr> else q);
           (puts, q) = pt_update_values q nxt in
       Inr (puts, q\<lparr>q_sync_flag := 0\<rparr>))"

definition pt_step_clock :: "vpi \<Rightarrow> pt_state_t \<Rightarrow> (bool \<times> pt_state_t) outcome" where
  "pt_step_clock vpi q =
     (if v_int vpi (q_clock q) \<noteq> 1 then Inr (False, q)
      else
        bind_c (tick_of vpi (q_t_recip q)) (\<lambda>tick_ns.
          Inr (True, (pt_fetch_values vpi (q\<lparr>q_tick_ns := tick_ns\<rparr>))\<lparr>q_sync_flag := 1\<rparr>)))"

definition sigs_zero :: fifo_sigs_t where
  "sigs_zero = \<lparr>g_clock = 0, g_reset = 0, g_level = \<lparr>byte_a = 0, byte_b = 0\<rparr>, g_drop = 0, g_save = 0,
     g_redo = 0, g_next = 0, g_w_vld = 0, g_w_rdy = 0, g_w_lst = 0, g_w_dat = \<lparr>byte_a = 0, byte_b = 0\<rparr>,
     g_r_vld = 0, g_r_rdy = 0, g_r_lst = 0, g_r_dat = \<lparr>byte_a = 0, byte_b = 0\<rparr>\<rparr>"

definition pt_compiletf :: "vpi \<Rightarrow> (nat \<Rightarrow> tc_state_t) \<Rightarrow> pt_state_t option" where
  "pt_compiletf vpi junk =
     (case task_args vpi 15 of
        Some [clock, reset, level, drp, save, redo, nxt, w_vld, w_rdy, w_lst, w_dat, r_vld, r_rdy,
            r_lst, r_dat] \<Rightarrow>
          (if v_size vpi w_dat \<noteq> 8 then None
           else if v_size vpi r_dat \<noteq> 8 then None
           else Some
             \<lparr>q_tick_ns = 0, q_t_recip = 0, q_cycle = 0, q_clock = clock, q_reset = reset, q_level = level,
              q_drop = drp, q_save = save, q_redo = redo, q_next = nxt, q_w_vld = w_vld, q_w_rdy = w_rdy,
              q_w_lst = w_lst, q_w_dat = w_dat, q_r_vld = r_vld, q_r_rdy = r_rdy, q_r_lst = r_lst,
              q_r_dat = r_dat, q_sync_flag = 0, q_test_curr = 0, q_test_step = 0,
              q_tests = pt_tests junk, q_sigs = sigs_zero, q_finish = False\<rparr>)
      | _ \<Rightarrow> None)"

definition pt_calltf :: "vpi \<Rightarrow> pt_state_t option \<Rightarrow> pt_state_t option" where
  "pt_calltf vpi data = map_option (\<lambda>q. q\<lparr>q_t_recip := t_recip_of (v_prec vpi)\<rparr>) data"

end
