(* ===== verification/Packet_tb_Props.thy ===== *)
theory Packet_tb_Props
  imports Packet_tb
begin

text \<open>
  The packet-FIFO test-bench: what \<open>store_packet\<close> sends over the stream and what \<open>fetch_packet\<close>
  checks, for any pattern of ready and valid signals of the FIFO.
\<close>

subsection \<open>Storing\<close>

text \<open>
  \<open>store_packet\<close> called at each clock until it returns something else than 0. The FIFO sets
  \<open>w_rdy\<close>; a beat is a clock with \<open>w_vld\<close> and \<open>w_rdy\<close>, and its byte and last flag are collected.
\<close>

primrec store_run :: "bit_t list \<Rightarrow> fifo_sigs_t \<Rightarrow> tc_state_t
    \<Rightarrow> (int \<times> (u8 \<times> bit_t) list \<times> fifo_sigs_t \<times> tc_state_t) outcome" where
  "store_run [] cur st = Inr (0, [], cur, st)"
| "store_run (r # rs) cur st =
     (let cur = cur\<lparr>g_w_rdy := r\<rparr>;
          beat = (if g_w_vld cur = SIG1 \<and> r = SIG1 then [(byte_a (g_w_dat cur), g_w_lst cur)] else []) in
      bind_c (store_packet cur st) (\<lambda>(result, cur, st).
        if result \<noteq> 0 then Inr (result, beat, cur, st)
        else bind_c (store_run rs cur st) (\<lambda>(result, beats, cur, st).
          Inr (result, beat @ beats, cur, st))))"

text \<open>The beats of a packet: its bytes, the last of them marked.\<close>

definition beat_at :: "u8 list \<Rightarrow> nat \<Rightarrow> u8 \<times> bit_t" where
  "beat_at packet i = (packet ! i, if i + 1 < length packet then SIG0 else SIG1)"

definition beats_of :: "u8 list \<Rightarrow> (u8 \<times> bit_t) list" where
  "beats_of packet = map (beat_at packet) [0..<length packet]"

definition packet_of :: "tc_state_t \<Rightarrow> u8 list" where
  "packet_of st = take (nat (t_size st)) (t_buf st)"

definition ready_clocks :: "bit_t list \<Rightarrow> nat" where
  "ready_clocks rs = length (filter (\<lambda>r. r = SIG1) rs)"

lemma ready_clocks_simps [simp]:
  "ready_clocks [] = 0"
  "ready_clocks (r # rs) = (if r = SIG1 then Suc (ready_clocks rs) else ready_clocks rs)"
  by (simp_all add: ready_clocks_def)

text \<open>Byte \<open>p\<close> is on the stream.\<close>

definition drives :: "nat \<Rightarrow> fifo_sigs_t \<Rightarrow> tc_state_t \<Rightarrow> bool" where
  "drives p cur st \<longleftrightarrow> t_size st > 0 \<and> nat (t_size st) \<le> length (t_buf st) \<and> p < nat (t_size st) \<and>
     t_head st = int p \<and> g_w_vld cur = SIG1 \<and>
     (byte_a (g_w_dat cur), g_w_lst cur) = beat_at (packet_of st) p"

lemma drive_byte:
  assumes "t_size st > 0" and "nat (t_size st) \<le> length (t_buf st)" and "t_head st = int p" and "p < nat (t_size st)"
  shows "\<exists>cur'. store_drive cur st = Inr (0, cur', st) \<and> drives p cur' st"
proof -
  obtain n where "t_size st = int n" using assms(1) by (cases "t_size st") auto
  then show ?thesis
    using assms by (auto simp: store_drive_def drives_def beat_at_def packet_of_def Let_def)
qed

text \<open>A clock without a beat, one with a beat in the middle, one with the last beat.\<close>

lemma store_holds:
  "drives p cur st \<Longrightarrow> r \<noteq> SIG1 \<Longrightarrow>
     \<exists>cur'. store_packet (cur\<lparr>g_w_rdy := r\<rparr>) st = Inr (0, cur', st) \<and> drives p cur' st"
  using drive_byte [of st p "cur\<lparr>g_w_rdy := r\<rparr>"] by (simp add: store_packet_def drives_def)

lemma store_next:
  "drives p cur st \<Longrightarrow> p + 1 < nat (t_size st) \<Longrightarrow>
     \<exists>cur'. store_packet (cur\<lparr>g_w_rdy := SIG1\<rparr>) st = Inr (0, cur', st\<lparr>t_head := int (p + 1)\<rparr>) \<and>
       drives (p + 1) cur' (st\<lparr>t_head := int (p + 1)\<rparr>)"
  using drive_byte [of "st\<lparr>t_head := int (p + 1)\<rparr>" "p + 1" "cur\<lparr>g_w_rdy := SIG1\<rparr>"]
  by (auto simp: store_packet_def drives_def beat_at_def packet_of_def add.commute [of 1 "int p"])

lemma store_last:
  "drives p cur st \<Longrightarrow> p + 1 = nat (t_size st) \<Longrightarrow>
     \<exists>cur'. store_packet (cur\<lparr>g_w_rdy := SIG1\<rparr>) st = Inr (1, cur', st) \<and>
       g_w_vld cur' = SIG0 \<and> g_w_lst cur' = SIG0"
  by (simp add: store_packet_def drives_def beat_at_def packet_of_def)

lemma store_run_from:
  "drives p cur st \<Longrightarrow> k = ready_clocks rs \<Longrightarrow> n = nat (t_size st) \<Longrightarrow>
   \<exists>cur' st'. store_run rs cur st = Inr (if n \<le> p + k then 1 else 0,
       map (beat_at (packet_of st)) [p..<min n (p + k)], cur', st') \<and>
     g_w_vld cur' = (if n \<le> p + k then SIG0 else SIG1) \<and> t_failed st' = t_failed st"
proof (induction rs arbitrary: p cur st k)
  case Nil
  then show ?case by (auto simp: drives_def)
next
  case (Cons r rs)
  let ?cur = "cur\<lparr>g_w_rdy := r\<rparr>"
  have p: "p < n" "g_w_vld cur = SIG1" and beat: "(byte_a (g_w_dat cur), g_w_lst cur) = beat_at (packet_of st) p"
    using Cons.prems(1,3) by (simp_all add: drives_def)
  consider "r \<noteq> SIG1" | "r = SIG1" "p + 1 < n" | "r = SIG1" "p + 1 = n" using p by linarith
  then show ?case
  proof cases
    case 1
    then obtain cur1 where s: "store_packet ?cur st = Inr (0, cur1, st)" "drives p cur1 st"
      using store_holds [OF Cons.prems(1)] by blast
    show ?thesis using Cons.IH [OF s(2) refl Cons.prems(3)] s(1) Cons.prems(2) 1 by auto
  next
    case 2
    let ?st = "st\<lparr>t_head := int (p + 1)\<rparr>"
    obtain cur1 where s: "store_packet ?cur st = Inr (0, cur1, ?st)" "drives (p + 1) cur1 ?st"
      using store_next [OF Cons.prems(1)] 2 Cons.prems(3) by auto
    have "[p..<min n (p + k)] = p # [p + 1..<min n (p + k)]"
      using 2 p Cons.prems(2) by (simp add: upt_conv_Cons)
    moreover have "packet_of ?st = packet_of st" by (simp add: packet_of_def)
    ultimately show ?thesis
      using Cons.IH [OF s(2) refl] s(1) Cons.prems(2,3) 2 p beat by auto
  next
    case 3
    then obtain cur1 where "store_packet ?cur st = Inr (1, cur1, st)" "g_w_vld cur1 = SIG0"
      using store_last [OF Cons.prems(1)] Cons.prems(3) by auto
    moreover have "[p..<min n (p + k)] = [p]" using 3 Cons.prems(2) by (simp flip: 3(2))
    ultimately show ?thesis using Cons.prems(2) 3 p beat by auto
  qed
qed

lemma store_start:
  assumes "t_size st = int n" and "0 < n" and "n \<le> length (t_buf st)" and "t_head st = 0"
    and "g_w_vld cur = SIG0"
  shows "\<exists>cur'. store_packet (cur\<lparr>g_w_rdy := r\<rparr>) st = Inr (0, cur', st) \<and> drives 0 cur' st"
  using drive_byte [of st 0 "cur\<lparr>g_w_rdy := r\<rparr>"] assms by (simp add: store_packet_def)

lemma store_run_start:
  assumes "t_size st = int n" and "0 < n" and "n \<le> length (t_buf st)" and "t_head st = 0"
    and "g_w_vld cur = SIG0" and "k = ready_clocks rs"
  shows "\<exists>cur' st'. store_run (r # rs) cur st = Inr (if n \<le> k then 1 else 0,
      take k (beats_of (take n (t_buf st))), cur', st') \<and>
    g_w_vld cur' = (if n \<le> k then SIG0 else SIG1) \<and> t_failed st' = t_failed st"
proof -
  obtain cur1 where s: "store_packet (cur\<lparr>g_w_rdy := r\<rparr>) st = Inr (0, cur1, st)" "drives 0 cur1 st"
    using store_start [OF assms(1-5)] by blast
  have "take k [0..<n] = [0..<min n k]" by (cases "k \<le> n") simp_all
  then have "take k (beats_of (take n (t_buf st))) = map (beat_at (packet_of st)) [0..<min n k]"
    using assms(1,3) by (simp add: beats_of_def packet_of_def take_map)
  then show ?thesis using store_run_from [OF s(2) assms(6) refl] s(1) assms(1,5) by auto
qed

subsection \<open>Fetching\<close>

text \<open>
  \<open>fetch_packet\<close> called at each clock until it returns something else than 0, on what the FIFO
  shows: \<open>r_vld\<close>, \<open>r_dat\<close> and \<open>r_lst\<close>.
\<close>

primrec fetch_run :: "(bit_t \<times> byte_t \<times> bit_t) list \<Rightarrow> fifo_sigs_t \<Rightarrow> tc_state_t \<Rightarrow> pt_result" where
  "fetch_run [] cur st = Inr (0, cur, st)"
| "fetch_run (b # bs) cur st =
     (case b of (v, d, l) \<Rightarrow>
        bind_c (fetch_packet (cur\<lparr>g_r_vld := v, g_r_dat := d, g_r_lst := l\<rparr>) st) (\<lambda>(result, cur, st).
          if result \<noteq> 0 then Inr (result, cur, st) else fetch_run bs cur st))"

text \<open>The bytes that pass while \<open>r_rdy\<close> is set, up to the one that is marked as the last.\<close>

fun accepted :: "(bit_t \<times> byte_t \<times> bit_t) list \<Rightarrow> byte_t list" where
  "accepted [] = []"
| "accepted ((v, d, l) # bs) =
     (if v = SIG1 then d # (if l = SIG1 then [] else accepted bs) else accepted bs)"

definition seen_last :: "(bit_t \<times> byte_t \<times> bit_t) list \<Rightarrow> bool" where
  "seen_last bs = list_ex (\<lambda>(v, d, l). v = SIG1 \<and> l = SIG1) bs"

definition pure_byte :: "u8 \<Rightarrow> byte_t" where
  "pure_byte b = \<lparr>byte_a = b, byte_b = 0x00\<rparr>"

lemma pure_byte_eq: "d = pure_byte b \<longleftrightarrow> byte_a d = b \<and> byte_b d = 0x00"
  by (cases d) (auto simp: pure_byte_def)

lemma fetch_clock:
  assumes "t_tail st = int p" and "p < length (t_buf st)" and "g_r_vld cur = SIG1" and "g_r_rdy cur = SIG1"
    and "ok = (g_r_dat cur = pure_byte (t_buf st ! p))"
  shows "fetch_packet cur st = Inr (if g_r_lst cur = SIG1 then 1 else 0,
    cur\<lparr>g_r_rdy := (if g_r_lst cur = SIG1 then SIG0 else SIG1)\<rparr>,
    st\<lparr>t_tail := int (Suc p), t_failed := t_failed st \<or> \<not> ok\<rparr>)"
  using assms by (cases st) (auto simp: fetch_packet_def pt_error_def pure_byte_eq Let_def)

lemma fetch_pause:
  "0 \<le> t_tail st \<Longrightarrow> g_r_vld cur \<noteq> SIG1 \<or> g_r_rdy cur \<noteq> SIG1 \<Longrightarrow>
     fetch_packet cur st = Inr (0, cur\<lparr>g_r_rdy := SIG1\<rparr>, st)"
  by (auto simp: fetch_packet_def)

lemma fetch_run_from:
  "t_tail st = int p \<Longrightarrow> p + length (accepted bs) \<le> length (t_buf st) \<Longrightarrow> g_r_rdy cur = SIG1 \<Longrightarrow>
   \<exists>cur' st'. fetch_run bs cur st = Inr (if seen_last bs then 1 else 0, cur', st') \<and>
     t_tail st' = int (p + length (accepted bs)) \<and>
     (t_failed st' \<longleftrightarrow> t_failed st \<or>
       accepted bs \<noteq> map pure_byte (take (length (accepted bs)) (drop p (t_buf st))))"
proof (induction bs arbitrary: p cur st)
  case Nil
  then show ?case by (simp add: seen_last_def)
next
  case (Cons b bs)
  obtain v d l where b: "b = (v, d, l)" by (cases b)
  let ?cur = "cur\<lparr>g_r_vld := v, g_r_dat := d, g_r_lst := l\<rparr>"
  show ?case
  proof (cases "v = SIG1")
    case False
    then show ?thesis
      using Cons.IH [of st p "?cur\<lparr>g_r_rdy := SIG1\<rparr>"] Cons.prems fetch_pause [of st ?cur] b
      by (simp add: seen_last_def)
  next
    case True
    let ?ok = "d = pure_byte (t_buf st ! p)" and ?st = "st\<lparr>t_tail := int (Suc p), t_failed := t_failed st \<or> d \<noteq> pure_byte (t_buf st ! p)\<rparr>"
    have p: "p < length (t_buf st)" using Cons.prems(2) b True by simp
    have s: "fetch_packet ?cur st = Inr (if l = SIG1 then 1 else 0,
        ?cur\<lparr>g_r_rdy := (if l = SIG1 then SIG0 else SIG1)\<rparr>, ?st)"
      using fetch_clock [OF Cons.prems(1) p, of ?cur ?ok] Cons.prems(3) True by simp
    have tk: "take (Suc k) (drop p (t_buf st)) = t_buf st ! p # take k (drop (Suc p) (t_buf st))" for k
      using p by (simp add: Cons_nth_drop_Suc [symmetric])
    show ?thesis
    proof (cases "l = SIG1")
      case l: True
      then show ?thesis using s tk [of 0] b True by (simp add: seen_last_def)
    next
      case l: False
      have "Suc p + length (accepted bs) \<le> length (t_buf st)" using Cons.prems(2) b True l by simp
      then show ?thesis
        using Cons.IH [of ?st "Suc p" "?cur\<lparr>g_r_rdy := SIG1\<rparr>"] s tk b True l by (simp add: seen_last_def)
    qed
  qed
qed

text \<open>After the first clock, in which \<open>r_rdy\<close> is set.\<close>

lemma fetch_run_start:
  assumes "t_tail st = 0" and "length (accepted bs) \<le> length (t_buf st)" and "g_r_rdy cur \<noteq> SIG1"
    and "n = length (accepted bs)"
  shows "\<exists>cur' st'. fetch_run (b # bs) cur st = Inr (if seen_last bs then 1 else 0, cur', st') \<and>
    (t_failed st' \<longleftrightarrow> t_failed st \<or> accepted bs \<noteq> map pure_byte (take n (t_buf st)))"
proof -
  obtain v d l where b: "b = (v, d, l)" by (cases b)
  let ?cur = "cur\<lparr>g_r_vld := v, g_r_dat := d, g_r_lst := l, g_r_rdy := SIG1\<rparr>"
  have "fetch_run (b # bs) cur st = fetch_run bs ?cur st"
    using fetch_pause [of st "cur\<lparr>g_r_vld := v, g_r_dat := d, g_r_lst := l\<rparr>"] assms(1,3) b by simp
  then show ?thesis using fetch_run_from [of st 0 bs ?cur] assms by auto
qed

subsection \<open>The properties\<close>

text \<open>
  (C22) Storing a packet of \<open>n\<close> bytes: whatever the FIFO does with its ready signal, the beats that
  pass are the bytes of the packet in their order, each once and only the last one marked. After
  \<open>n\<close> clocks of readiness following the first clock, and not before, the store is finished and
  the stream is released; it never reports an error.
\<close>

theorem store_sends_packet:
  assumes "t_size st = int n" and "0 < n" and "n \<le> length (t_buf st)" and "t_head st = 0"
    and "g_w_vld cur = SIG0" and "k = ready_clocks rs"
  shows "\<exists>cur' st'. store_run (r # rs) cur st = Inr (if n \<le> k then 1 else 0,
      take k (beats_of (take n (t_buf st))), cur', st') \<and>
    g_w_vld cur' = (if n \<le> k then SIG0 else SIG1) \<and> t_failed st' = t_failed st"
  by (rule store_run_start [OF assms])

lemma store_sends_packet_witness:
  "\<exists>cur' st'. store_run [SIG1, SIG0, SIG1, SIG1] sigs_zero
      \<lparr>t_step = 1, t_size = 2, t_head = 0, t_tail = 0, t_buf = [5, 6, 7], t_failed = False\<rparr> =
    Inr (1, [(5, SIG0), (6, SIG1)], cur', st')"
  using store_sends_packet [of "\<lparr>t_step = 1, t_size = 2, t_head = 0, t_tail = 0, t_buf = [5, 6, 7], t_failed = False\<rparr>"
      2 sigs_zero 2 "[SIG0, SIG1, SIG1]" SIG1]
  by (auto simp: sigs_zero_def beats_of_def beat_at_def numeral_2_eq_2)

text \<open>
  (C23) Fetching a packet: the error is reported exactly when the bytes the FIFO passes, up to the one
  it marks as the last, are not those of the buffer, and the fetch ends with that byte.
\<close>

theorem fetch_checks_packet:
  assumes "t_tail st = 0" and "length (accepted bs) \<le> length (t_buf st)" and "g_r_rdy cur \<noteq> SIG1"
    and "n = length (accepted bs)"
  shows "\<exists>cur' st'. fetch_run (b # bs) cur st = Inr (if seen_last bs then 1 else 0, cur', st') \<and>
    (t_failed st' \<longleftrightarrow> t_failed st \<or> accepted bs \<noteq> map pure_byte (take n (t_buf st)))"
  by (rule fetch_run_start [OF assms])

lemma fetch_checks_packet_witness:
  "\<exists>cur' st'. fetch_run [(SIG0, pure_byte 0, SIG0), (SIG1, pure_byte 5, SIG0), (SIG1, pure_byte 9, SIG1)] sigs_zero
      \<lparr>t_step = 4, t_size = 2, t_head = 0, t_tail = 0, t_buf = [5, 6, 7], t_failed = False\<rparr> =
    Inr (1, cur', st') \<and> t_failed st'"
  using fetch_checks_packet [of "\<lparr>t_step = 4, t_size = 2, t_head = 0, t_tail = 0, t_buf = [5, 6, 7], t_failed = False\<rparr>"
      "[(SIG1, pure_byte 5, SIG0), (SIG1, pure_byte 9, SIG1)]" sigs_zero 2 "(SIG0, pure_byte 0, SIG0)"]
  by (auto simp: sigs_zero_def seen_last_def pure_byte_def)

end
