(* ===== verification/Monitor.thy ===== *)
theory Monitor
  imports Vpi
begin

text \<open>
  The system task \<open>$ulpi_monitor\<close> of \<open>src/vpi/monitor.c\<close>: it checks its six arguments when the
  simulation is compiled, and at each call samples the ULPI bus and reports a change of \<open>dir\<close>.
\<close>

record ulpim_handles_t =
  m_clock :: handle
  m_rst_n :: handle
  m_dir :: handle
  m_nxt :: handle
  m_stp :: handle
  m_data :: handle
  m_t_unit :: int
  m_t_prec :: int
  m_t_recip :: u64
  m_prev :: ulpi_bus_t

definition ulpim_store_bus :: "vpi \<Rightarrow> ulpim_handles_t \<Rightarrow> ulpi_bus_t" where
  "ulpim_store_bus vpi m =
     \<lparr>u_clock = scalar_of vpi (m_clock m), u_rst_n = scalar_of vpi (m_rst_n m),
      u_dir = scalar_of vpi (m_dir m), u_stp = scalar_of vpi (m_stp m),
      u_nxt = scalar_of vpi (m_nxt m), u_data = byte_of vpi (m_data m)\<rparr>"

text \<open>
  \<open>ulpim_set_handles\<close>, called with a place for its result: the user-data it leaves with the
  simulator, or \<open>None\<close> when it has reported an error and asked the simulator to stop. It always
  returns 0. The six checks of arguments are those of \<open>get_signal\<close>, written out.
\<close>

definition ulpim_set_handles :: "vpi \<Rightarrow> ulpim_handles_t option" where
  "ulpim_set_handles vpi =
     (case task_args vpi 6 of
        Some [clock, rst_n, dir, nxt, stp, data] \<Rightarrow>
          (let m = \<lparr>m_clock = clock, m_rst_n = rst_n, m_dir = dir, m_nxt = nxt, m_stp = stp,
                m_data = data, m_t_unit = v_unit vpi, m_t_prec = v_prec vpi,
                m_t_recip = t_recip_of (v_prec vpi), m_prev = bus_zero\<rparr> in
           Some (m\<lparr>m_prev := ulpim_store_bus vpi m\<rparr>))
      | _ \<Rightarrow> None)"

definition ulpim_compiletf :: "vpi \<Rightarrow> int \<times> ulpim_handles_t option" where
  "ulpim_compiletf vpi = (0, ulpim_set_handles vpi)"

text \<open>
  \<open>ulpim_calltf\<close>: the message, if there is one, is the time in ns and the two words of the data
  bus. After the report of missing user-data the code goes on and follows the null pointer.
\<close>

definition ulpim_calltf :: "vpi \<Rightarrow> ulpim_handles_t option
    \<Rightarrow> ((u64 \<times> u32 \<times> u32) option \<times> ulpim_handles_t) outcome" where
  "ulpim_calltf vpi data =
     (case data of
        None \<Rightarrow> Inl Null_Pointer
      | Some m \<Rightarrow>
          bind_c (tick_of vpi (m_t_recip m)) (\<lambda>tick_ns.
          let curr = ulpim_store_bus vpi m in
          Inr (if u_dir curr \<noteq> u_dir (m_prev m)
               then Some (tick_ns, fst (v_vector vpi (m_data m)), snd (v_vector vpi (m_data m)))
               else None,
            m\<lparr>m_prev := curr\<rparr>)))"

subsection \<open>Runs\<close>

text \<open>The monitor called at the points \<open>vs\<close> of a simulation: its messages, in their order.\<close>

primrec monitor_run :: "vpi list \<Rightarrow> ulpim_handles_t \<Rightarrow> ((u64 \<times> u32 \<times> u32) option list \<times> ulpim_handles_t) outcome" where
  "monitor_run [] m = Inr ([], m)"
| "monitor_run (v # vs) m =
     bind_c (ulpim_calltf v (Some m)) (\<lambda>(out, m).
     bind_c (monitor_run vs m) (\<lambda>(outs, m). Inr (out # outs, m)))"

text \<open>What the monitor should report: a change of \<open>dir\<close> from one call to the next.\<close>

definition change_report :: "ulpim_handles_t \<Rightarrow> u64 \<Rightarrow> vpi \<Rightarrow> vpi \<Rightarrow> (u64 \<times> u32 \<times> u32) option" where
  "change_report m ns v v' =
     (if scalar_of v (m_dir m) = scalar_of v' (m_dir m) then None
      else Some (sim_time v' div ns, fst (v_vector v' (m_data m)), snd (v_vector v' (m_data m))))"

lemma store_bus_prev [simp]: "ulpim_store_bus v (m\<lparr>m_prev := b\<rparr>) = ulpim_store_bus v m"
  by (simp add: ulpim_store_bus_def)

lemma report_prev [simp]: "change_report (m\<lparr>m_prev := b\<rparr>) = change_report m"
  by (simp add: change_report_def fun_eq_iff)

lemma monitor_run_from:
  "m_t_recip m \<noteq> 0 \<Longrightarrow> m_prev m = ulpim_store_bus v0 m \<Longrightarrow>
     monitor_run vs m = Inr (map2 (change_report m (m_t_recip m)) (v0 # vs) vs,
       m\<lparr>m_prev := ulpim_store_bus (last (v0 # vs)) m\<rparr>)"
proof (induction vs arbitrary: m v0)
  case Nil
  then show ?case by simp
next
  case (Cons v vs)
  let ?m = "m\<lparr>m_prev := ulpim_store_bus v m\<rparr>"
  have "ulpim_calltf v (Some m) = Inr (change_report m (m_t_recip m) v0 v, ?m)"
    using Cons.prems by (simp add: ulpim_calltf_def tick_of_def change_report_def Let_def ulpim_store_bus_def)
  then show ?case using Cons.IH [of ?m v] Cons.prems(1) by simp
qed

lemma task_args_6: "vpi_sound vpi \<Longrightarrow> task_args vpi 6 = Some hs \<Longrightarrow>
    \<exists>clock rst_n dir nxt stp data. hs = [clock, rst_n, dir, nxt, stp, data]"
  using task_args_iff [of vpi 6 hs] by (auto simp: length_Suc_conv numeral_eq_Suc)

lemma set_handles_Some:
  assumes "vpi_sound vpi" and "ulpim_set_handles vpi = Some m"
  shows "m_t_recip m = t_recip_of (v_prec vpi)" and "m_prev m = ulpim_store_bus vpi m"
    and "v_args vpi = Some [m_clock m, m_rst_n m, m_dir m, m_nxt m, m_stp m, m_data m]"
proof -
  obtain hs where hs: "task_args vpi 6 = Some hs"
    using assms(2) by (cases "task_args vpi 6") (auto simp: ulpim_set_handles_def)
  from task_args_6 [OF assms(1) hs] obtain clock rst_n dir nxt stp data where
    "hs = [clock, rst_n, dir, nxt, stp, data]" by blast
  then show "m_t_recip m = t_recip_of (v_prec vpi)" "m_prev m = ulpim_store_bus vpi m"
    "v_args vpi = Some [m_clock m, m_rst_n m, m_dir m, m_nxt m, m_stp m, m_data m]"
    using assms(2) hs task_args_iff [OF assms(1)]
    by (auto simp: ulpim_set_handles_def ulpim_store_bus_def Let_def)
qed

lemma set_handles_None: "vpi_sound vpi \<Longrightarrow> ulpim_set_handles vpi = None \<longleftrightarrow> task_args vpi 6 = None"
  by (cases "task_args vpi 6") (use task_args_6 in \<open>fastforce simp: ulpim_set_handles_def Let_def\<close>)+

subsection \<open>The properties\<close>

text \<open>
  The bus monitor is set up exactly when it has six arguments and each is a net or a reg; in
  all other cases it leaves no user-data.
\<close>

theorem monitor_accepts:
  assumes "vpi_sound vpi" and "v_systf vpi \<noteq> 0"
  shows "(\<exists>m. ulpim_compiletf vpi = (0, Some m)) \<longleftrightarrow>
    (\<exists>hs. v_args vpi = Some hs \<and> length hs = 6 \<and> list_all (net_or_reg vpi) hs)"
proof -
  have "(\<exists>m. ulpim_compiletf vpi = (0, Some m)) \<longleftrightarrow> task_args vpi 6 \<noteq> None"
    using set_handles_None [OF assms(1)] by (auto simp: ulpim_compiletf_def)
  then show ?thesis using task_args_iff [OF assms(1), of 6] assms(2) by auto
qed

text \<open>
  (C28) Once it is set up the monitor never fails, and its reports are exactly the changes of \<open>dir\<close>
  from one call to the next, the first against the value when the simulation was compiled. With a
  time precision of \<open>10^-k\<close> seconds, \<open>k\<close> from 9 to 15, a report is stamped with whole nanoseconds.
\<close>

theorem monitor_reports:
  assumes "vpi_sound v0" and "ulpim_compiletf v0 = (0, Some m)" and "v_prec v0 = - int k" and "k \<in> {9..15}"
  shows "\<exists>ns m'. unat ns = 10 ^ (k - 9) \<and>
    monitor_run vs m = Inr (map2 (change_report m ns) (v0 # vs) vs, m')"
proof -
  have set: "ulpim_set_handles v0 = Some m" using assms(2) by (simp add: ulpim_compiletf_def)
  have "nat (-9 - v_prec v0) = k - 9" using assms(3,4) by simp
  then have ns: "unat (m_t_recip m) = 10 ^ (k - 9)"
    using t_recip_unat [of "v_prec v0"] set_handles_Some(1) [OF assms(1) set] assms(3,4) by simp
  then have "m_t_recip m \<noteq> 0" by (auto simp flip: unat_eq_zero)
  from monitor_run_from [OF this set_handles_Some(2) [OF assms(1) set], of vs] ns show ?thesis by blast
qed

text \<open>A simulator with six arguments, and a later moment of it in which \<open>dir\<close> has changed.\<close>

definition sim6 :: "u32 \<Rightarrow> u32 \<Rightarrow> vpi" where
  "sim6 dir t = \<lparr>v_systf = 1, v_args = Some [1, 2, 3, 4, 5, 6],
     v_type = (\<lambda>h. if h \<in> {1, 2, 3, 4, 5, 6} then vpiNet else -1), v_size = (\<lambda>h. 1),
     v_scalar = (\<lambda>h. if h = 3 then dir else 0), v_vector = (\<lambda>h. (7, 8)), v_int = (\<lambda>h. 1),
     v_time = (0, t), v_unit = -9, v_prec = -12\<rparr>"

lemma sim6_sound: "vpi_sound (sim6 d t)"
  by (simp add: vpi_sound_def net_or_reg_def sim6_def)

lemma monitor_accepts_witness: "\<exists>m. ulpim_compiletf (sim6 0 0) = (0, Some m)"
  using monitor_accepts [OF sim6_sound [of 0 0]] by (simp add: sim6_def net_or_reg_def)

lemma sim6_set: "\<exists>m. ulpim_compiletf (sim6 0 0) = (0, Some m) \<and> m_dir m = 3 \<and> m_data m = 6"
  by (simp add: ulpim_compiletf_def ulpim_set_handles_def task_args_def numeral_eq_Suc get_signal_def
    scan_def sim6_def Let_def)

lemma monitor_reports_witness:
  "\<exists>m ns m'. ulpim_compiletf (sim6 0 0) = (0, Some m) \<and> unat ns = 1000 \<and>
    monitor_run [sim6 0 1000, sim6 1 5000] m = Inr ([None, Some (5000 div ns, 7, 8)], m')"
proof -
  obtain m where m: "ulpim_compiletf (sim6 0 0) = (0, Some m)" "m_dir m = 3" "m_data m = 6"
    using sim6_set by blast
  have p: "v_prec (sim6 0 0) = - int 12" by (simp add: sim6_def)
  obtain ns m' where "unat ns = 10 ^ (12 - 9)"
    "monitor_run [sim6 0 1000, sim6 1 5000] m = Inr (map2 (change_report m ns)
      [sim6 0 0, sim6 0 1000, sim6 1 5000] [sim6 0 1000, sim6 1 5000], m')"
    using monitor_reports [OF sim6_sound m(1) p, of "[sim6 0 1000, sim6 1 5000]"] by auto
  then show ?thesis
    using m by (intro exI [of _ m] exI [of _ ns] exI [of _ m'])
      (simp add: change_report_def scalar_of_def sim6_def sim_time_def)
qed

end
