(* ===== verification/Descriptor.thy ===== *)
theory Descriptor
  imports Ulpi
begin

text \<open>
  Receiving a descriptor byte by byte, \<open>src/vpi/usb/descriptor.c\<close>, and the transfer that
  \<open>test_desc_recv\<close> runs. \<open>show_desc\<close> only prints.
\<close>

text \<open>The \<open>switch\<close> of \<open>desc_recv\<close>, reached when \<open>nxt\<close> is 1.\<close>

definition desc_byte :: "transfer_t \<Rightarrow> ulpi_bus_t \<Rightarrow> (int \<times> transfer_t) outcome" where
  "desc_byte xfer inb =
     (let stage = x_stage xfer in
      if stage = DATAxPID then
        (if \<not> check_pid inb \<or> \<not> check_seq xfer (data_a inb AND 0x0F) then Inr (-1, xfer)
         else Inr (0, xfer\<lparr>x_stage := DATAxBody, x_rx_ptr := 0\<rparr>))
      else if stage \<in> {DATAxBody, DATAxCRC1, DATAxCRC2} then
        bind_c (aput (x_rx xfer) (x_rx_ptr xfer) (data_a inb)) (\<lambda>rx.
          let xfer = xfer\<lparr>x_rx := rx, x_rx_ptr := x_rx_ptr xfer + 1\<rparr> in
          if u_stp inb = SIG1
          then Inr (1, xfer\<lparr>x_stage := DATAxStop, x_rx_len := x_rx_ptr xfer - 2\<rparr>)
          else Inr (0, xfer))
      else if stage = DATAxStop then
        (if u_nxt inb \<noteq> SIG0 then Inr (-1, xfer) else Inr (1, xfer\<lparr>x_stage := EndRXCMD\<rparr>))
      else if stage \<in> {EndRXCMD, EOP} then Inr (1, xfer)
      else Inr (-1, xfer))"

definition desc_recv :: "transfer_t \<Rightarrow> ulpi_bus_t \<Rightarrow> (int \<times> transfer_t) outcome" where
  "desc_recv xfer inb =
     (if x_type xfer < UpDATA0 \<or> u_dir inb \<noteq> SIG0 \<or> u_nxt inb > SIG1 \<or> u_stp inb > SIG1
      then Inr (-1, xfer)
      else if u_nxt inb \<noteq> SIG1 then Inr (0, xfer)
      else desc_byte xfer inb)"

subsection \<open>The built-in test\<close>

definition desc_packet :: "u8 list" where
  "desc_packet =
     [0x12, 0x01, 0x00, 0x02, 0xFF, 0x00, 0x00, 0x40, 0xCE, 0xF4, 0x03, 0x00, 0x00, 0x00, 0x01, 0x02,
      0x03, 0x01, 0x21, 0xDD] @ replicate 48 0"

text \<open>
  The \<open>do ... while (result == 0)\<close> loop, with \<open>length\<close> as a parameter; \<open>None\<close> is a loop
  still running after \<open>fuel\<close> rounds.
\<close>

fun desc_loop ::
  "nat \<Rightarrow> int \<Rightarrow> transfer_t \<Rightarrow> ulpi_bus_t \<Rightarrow> int \<Rightarrow> (int \<times> transfer_t) outcome option" where
  "desc_loop 0 len xfer bus index = None"
| "desc_loop (Suc fuel) len xfer bus index =
     (case desc_recv xfer bus of
        Inl e \<Rightarrow> Some (Inl e)
      | Inr (result, xfer) \<Rightarrow>
          (case (if x_stage xfer = DATAxBody then
                   bind_c (aget desc_packet index) (\<lambda>byte.
                     let bus = set_a byte bus in
                     Inr (if index + 1 \<ge> len then bus\<lparr>u_stp := SIG1\<rparr> else bus, index + 1))
                 else Inr (bus\<lparr>u_stp := SIG0\<rparr>, index)) of
             Inl e \<Rightarrow> Some (Inl e)
           | Inr (bus, index) \<Rightarrow>
               if result = 0 then desc_loop fuel len xfer bus index
               else Some (Inr (result, xfer))))"

definition test_desc_recv :: "nat \<Rightarrow> (int \<times> transfer_t) outcome option" where
  "test_desc_recv fuel =
     (let pid = USBPID_DATA1;
          bus = set_a (push_bit 4 (NOT pid AND 0x0F) OR pid)
                  (bus_zero\<lparr>u_clock := SIG1, u_rst_n := SIG1, u_nxt := SIG1\<rparr>);
          xfer = xfer_zero\<lparr>x_type := UpDATA1, x_stage := DATAxPID,
                   x_ep_seq := (x_ep_seq xfer_zero)[0 := 1], x_rx_len := 64\<rparr> in
      desc_loop fuel 20 xfer bus 0)"

end
