(* ===== verification/Usb_main.thy ===== *)
theory Usb_main
  imports Usbhost Usbfunc Descriptor
begin

text \<open>
  The stand-alone simulator \<open>src/vpi/usb/main.c\<close>: its start-up tests and the two loops of
  \<open>main\<close>. \<open>rnd k\<close> is the result of the \<open>k\<close>-th call of \<open>rand()\<close>.
\<close>

subsection \<open>The CRC tests\<close>

text \<open>\<open>buf[i] = rand()\<close> for 512 bytes.\<close>

definition rand_bytes :: "(nat \<Rightarrow> u32) \<Rightarrow> nat \<Rightarrow> u8 list" where
  "rand_bytes rnd n = map (\<lambda>k. ucast (rnd k)) [0..<n]"

text \<open>One round of the second loop; \<open>buf\<close> is the buffer from the moving pointer on.\<close>

definition crc16_round :: "u8 list \<Rightarrow> bool outcome" where
  "crc16_round buf =
     bind_c (crc16_of buf 56) (\<lambda>crc.
     bind_c (aput buf 56 (lo8 crc)) (\<lambda>buf.
     bind_c (aput buf 57 (ucast (drop_bit 8 crc))) (\<lambda>buf.
       Inr (crc16_check buf 58))))"

primrec crc16_rounds :: "nat \<Rightarrow> u8 list \<Rightarrow> unit outcome" where
  "crc16_rounds 0 buf = Inr ()"
| "crc16_rounds (Suc n) buf =
     bind_c (crc16_round buf) (\<lambda>ok. assert_c ok (crc16_rounds n (drop 64 buf)))"

definition check_crc16 :: "(nat \<Rightarrow> u32) \<Rightarrow> unit outcome" where
  "check_crc16 rnd = crc16_rounds 4 (rand_bytes rnd 512)"

definition check_crc5 :: "unit outcome" where
  "check_crc5 =
     assert_c (crc5_check (crc5_calc 0x710))
       (assert_c (crc5_check (crc5_calc 0x715))
         (assert_c (crc5_check (crc5_calc 0x53A)) (Inr ())))"

subsection \<open>The start-up tests\<close>

text \<open>
  \<open>usb_unit_tests\<close>: the four tests in order. A failed assertion ends the program, so the value
  is \<open>Inl Assert_Failed\<close>, and \<open>None\<close> is a test whose loop still runs after \<open>fuel\<close> turns.
  \<open>test_desc_recv\<close> only prints its result.
\<close>

definition usb_unit_tests :: "nat \<Rightarrow> (nat \<Rightarrow> u32) \<Rightarrow> unit outcome option" where
  "usb_unit_tests fuel rnd =
     (case bind_c check_crc5 (\<lambda>_. check_crc16 rnd) of
        Inl e \<Rightarrow> Some (Inl e)
      | Inr _ \<Rightarrow>
          (case test_desc_recv fuel of
             None \<Rightarrow> None
           | Some (Inl e) \<Rightarrow> Some (Inl e)
           | Some (Inr _) \<Rightarrow> map_option (map_sum id (\<lambda>_. ())) (test_func_recv fuel)))"

subsection \<open>The loops of \<open>main\<close>\<close>

text \<open>
  \<open>while (continue) { result = usbh_step(host, &bus, &upd); if (result < 0) break; bus = upd; }\<close>.
  The value is the last result, the host, the bus and the fuel left; \<open>None\<close> is a loop still
  running. The random number of each step is its own.
\<close>

fun host_loop ::
  "(usb_host_t \<Rightarrow> bool) \<Rightarrow> nat \<Rightarrow> (nat \<Rightarrow> u32) \<Rightarrow> int \<Rightarrow> usb_host_t \<Rightarrow> ulpi_bus_t
     \<Rightarrow> (int \<times> usb_host_t \<times> ulpi_bus_t) outcome option" where
  "host_loop cont 0 rnd result host bus = (if cont host then None else Some (Inr (result, host, bus)))"
| "host_loop cont (Suc n) rnd result host bus =
     (if cont host then
        (case usbh_step (rnd n) host bus of
           Inl e \<Rightarrow> Some (Inl e)
         | Inr (result, host, upd) \<Rightarrow>
             if result < 0 then Some (Inr (result, host, bus))
             else host_loop cont n rnd result host upd)
      else Some (Inr (result, host, bus)))"

text \<open>
  \<open>main\<close> from \<open>ulpi_bus_idle(&bus)\<close> on; the last result and the final host. \<open>exit(1)\<close> is
  the result of the request. The addresses are from \<open>malloc\<close>.
\<close>

definition usb_session ::
  "nat \<Rightarrow> (nat \<Rightarrow> u32) \<Rightarrow> u64 \<Rightarrow> u64 \<Rightarrow> usb_host_t \<Rightarrow> (int \<times> usb_host_t) outcome option" where
  "usb_session fuel rnd addr1 addr2 junk =
     (case host_loop (\<lambda>h. h_op h = HostReset) fuel rnd 0 (usbh_init addr1 junk)
             (ulpi_bus_idle bus_zero) of
        None \<Rightarrow> None
      | Some (Inl e) \<Rightarrow> Some (Inl e)
      | Some (Inr (_, host, bus)) \<Rightarrow>
          (case stdreq_get_descriptor addr2 host 0x01 of
             Inl e \<Rightarrow> Some (Inl e)
           | Inr (result, host) \<Rightarrow>
               if result < 0 then Some (Inr (result, host))
               else (case host_loop (\<lambda>h. h_op h \<noteq> HostIdle) fuel rnd result host bus of
                       None \<Rightarrow> None
                     | Some (Inl e) \<Rightarrow> Some (Inl e)
                     | Some (Inr (result, host, _)) \<Rightarrow> Some (Inr (result, host)))))"

text \<open>The 512 first results of \<open>rand()\<close> are for \<open>check_crc16\<close>.\<close>

definition usb_main ::
  "nat \<Rightarrow> (nat \<Rightarrow> u32) \<Rightarrow> u64 \<Rightarrow> u64 \<Rightarrow> usb_host_t \<Rightarrow> (int \<times> usb_host_t) outcome option" where
  "usb_main fuel rnd addr1 addr2 junk =
     (case usb_unit_tests fuel rnd of
        None \<Rightarrow> None
      | Some (Inl e) \<Rightarrow> Some (Inl e)
      | Some (Inr _) \<Rightarrow> usb_session fuel (\<lambda>k. rnd (512 + k)) addr1 addr2 junk)"

end
