(* ===== verification/Usb_main_Props.thy ===== *)
theory Usb_main_Props
  imports Usb_main Usbhost_Props Usbfunc_Props Ulpi_Recv
begin

text \<open>
  The stand-alone simulator as a whole: its start-up tests pass, and \<open>main\<close> resets the host,
  queues a standard request, sends its SETUP token and then stops with an error.
\<close>

subsection \<open>The CRC tests\<close>

lemma crc16_check_take: "crc16_check bs n = crc16_check (take n bs) n"
  by (simp add: crc16_check_def crc16_calc_def)

lemma crc16_round_ok:
  assumes "64 \<le> length buf"
  shows "crc16_round buf = Inr True"
proof -
  let ?c = "crc16_calc buf 56"
  have "take 58 (buf[56 := lo8 ?c, 57 := hi8 ?c]) = take 56 buf @ [lo8 ?c, hi8 ?c]"
    using assms by (auto simp: list_eq_iff_nth_eq nth_append nth_list_update less_Suc_eq)
  then have "crc16_check (buf[56 := lo8 ?c, 57 := hi8 ?c]) 58"
    using assms crc16_ready [of 56 buf] by (subst crc16_check_take) simp
  then show ?thesis
    using assms by (simp add: crc16_round_def crc16_of_def high_byte aput_def)
qed

lemma crc16_rounds_ok: "64 * n \<le> length buf \<Longrightarrow> crc16_rounds n buf = Inr ()"
  by (induction n arbitrary: buf) (simp_all add: crc16_round_ok)

lemma check_crc16_ok: "check_crc16 rnd = Inr ()"
  unfolding check_crc16_def by (rule crc16_rounds_ok) (simp add: rand_bytes_def)

lemma check_crc5_ok: "check_crc5 = Inr ()"
  by (simp add: check_crc5_def crc5_check_calc)

subsection \<open>The descriptor test\<close>

text \<open>The transfer and the bus of \<open>test_desc_recv\<close> when \<open>k\<close> bytes are stored.\<close>

definition desc_xfer :: "nat \<Rightarrow> transfer_t" where
  "desc_xfer k = xfer_zero\<lparr>x_type := UpDATA1, x_stage := DATAxBody, x_ep_seq := (x_ep_seq xfer_zero)[0 := 1],
     x_rx_len := 64, x_rx_ptr := int k, x_rx := put_at 0 (take k desc_packet) (x_rx xfer_zero)\<rparr>"

definition desc_bus :: "nat \<Rightarrow> ulpi_bus_t" where
  "desc_bus k = set_a (desc_packet ! k) (bus_zero\<lparr>u_clock := SIG1, u_rst_n := SIG1, u_nxt := SIG1,
     u_stp := (if 19 \<le> k then SIG1 else SIG0)\<rparr>)"

lemma length_desc_packet [simp]: "length desc_packet = 68"
  by (simp add: desc_packet_def)

lemma length_x_rx_zero [simp]: "length (x_rx xfer_zero) = MAX_PACKET_SIZE"
  by (simp add: xfer_zero_def)

lemma desc_store:
  assumes "k < 68"
  shows "aput (x_rx (desc_xfer k)) (int k) (desc_packet ! k) =
    Inr (put_at 0 (take (Suc k) desc_packet) (x_rx xfer_zero))"
proof -
  have "(put_at 0 (take k desc_packet) (x_rx xfer_zero))[k := desc_packet ! k] =
      put_at 0 (take (Suc k) desc_packet) (x_rx xfer_zero)"
    by (rule put_at_step) (use assms in simp_all)
  moreover have "length (put_at 0 (take k desc_packet) (x_rx xfer_zero)) = MAX_PACKET_SIZE"
    using assms by (simp add: put_at_def)
  ultimately show ?thesis using assms by (simp add: desc_xfer_def)
qed

lemma desc_fields [simp]:
  "x_type (desc_xfer k) = UpDATA1" "x_stage (desc_xfer k) = DATAxBody" "x_rx_ptr (desc_xfer k) = int k"
  "u_dir (desc_bus k) = SIG0" "u_nxt (desc_bus k) = SIG1" "data_a (desc_bus k) = desc_packet ! k"
  "u_stp (desc_bus k) = (if 19 \<le> k then SIG1 else SIG0)"
  by (simp_all add: desc_xfer_def desc_bus_def bus_zero_def)

lemma desc_xfer_Suc:
  "(desc_xfer k)\<lparr>x_rx := put_at 0 (take (Suc k) desc_packet) (x_rx xfer_zero), x_rx_ptr := int k + 1\<rparr> =
     desc_xfer (Suc k)"
  by (simp add: desc_xfer_def)

lemma desc_recv_byte:
  assumes "k < 20"
  shows "desc_recv (desc_xfer k) (desc_bus k) =
    (if k < 19 then Inr (0, desc_xfer (Suc k))
     else Inr (1, (desc_xfer (Suc k))\<lparr>x_stage := DATAxStop, x_rx_len := int k - 1\<rparr>))"
  using desc_store [of k] desc_xfer_Suc [of k] assms
  by (simp add: desc_recv_def desc_byte_def Let_def xfer_order)

lemma desc_bus_Suc:
  "(if int k + 2 \<ge> 20 then (set_a (desc_packet ! Suc k) (desc_bus k))\<lparr>u_stp := SIG1\<rparr>
    else set_a (desc_packet ! Suc k) (desc_bus k)) = desc_bus (Suc k)" if "k < 19"
  using that by (auto simp: desc_bus_def bus_zero_def intro!: bus_eqI)

lemma desc_loop_byte:
  assumes "k < 19"
  shows "desc_loop (Suc n) 20 (desc_xfer k) (desc_bus k) (int (Suc k)) =
    desc_loop n 20 (desc_xfer (Suc k)) (desc_bus (Suc k)) (int (Suc (Suc k)))"
proof -
  have "aget desc_packet (int (Suc k)) = Inr (desc_packet ! Suc k)"
    using assms by (simp add: aget_def nat_add_distrib del: of_nat_Suc)
  then show ?thesis
    using assms desc_bus_Suc [OF assms] by (simp add: desc_recv_byte Let_def add.commute [of _ 2])
qed

lemma desc_loop_bytes:
  "k \<le> 19 \<Longrightarrow> desc_loop n 20 (desc_xfer 0) (desc_bus 0) 1 =
     (if n < k then None else desc_loop (n - k) 20 (desc_xfer k) (desc_bus k) (int (Suc k)))"
proof (induction k)
  case 0
  then show ?case by simp
next
  case (Suc k)
  show ?case
  proof (cases "k < n")
    case True
    then obtain m where "n - k = Suc m" by (metis Suc_diff_Suc)
    moreover from this have "n - Suc k = m" by simp
    ultimately show ?thesis
      using Suc desc_loop_byte [of k m] True by simp
  next
    case False
    then show ?thesis using Suc by simp
  qed
qed

definition desc_result :: transfer_t where
  "desc_result = (desc_xfer 20)\<lparr>x_stage := DATAxStop, x_rx_len := 18\<rparr>"

lemma desc_first: "test_desc_recv (Suc n) = desc_loop n 20 (desc_xfer 0) (desc_bus 0) 1"
proof -
  have "put_at 0 [] (x_rx xfer_zero) = x_rx xfer_zero" by simp
  then have "(xfer_zero\<lparr>x_type := UpDATA1, x_stage := DATAxPID,
      x_ep_seq := (x_ep_seq xfer_zero)[0 := 1], x_rx_len := 64\<rparr>)\<lparr>x_stage := DATAxBody, x_rx_ptr := 0\<rparr> = desc_xfer 0"
    by (simp add: desc_xfer_def)
  moreover have "set_a (desc_packet ! 0) (set_a v (bus_zero\<lparr>u_clock := SIG1, u_rst_n := SIG1, u_nxt := SIG1\<rparr>)) = desc_bus 0" for v
    by (rule bus_eqI) (simp_all add: desc_bus_def bus_zero_def)
  ultimately show ?thesis
    by (simp add: test_desc_recv_def desc_recv_def desc_byte_def check_pid_def check_seq_def Let_def
      xfer_order aget_def) (simp add: xfer_zero_def bus_zero_def)
qed

lemma test_desc_recv_ok:
  "test_desc_recv n = (if n < 21 then None else Some (Inr (1, desc_result)))"
proof (cases n)
  case 0
  then show ?thesis by (simp add: test_desc_recv_def Let_def)
next
  case (Suc m)
  have "desc_loop (Suc i) 20 (desc_xfer 19) (desc_bus 19) (int (Suc 19)) = Some (Inr (1, desc_result))" for i
    by (simp add: desc_recv_byte desc_result_def)
  then have last: "desc_loop i 20 (desc_xfer 19) (desc_bus 19) (int (Suc 19)) =
      (if i = 0 then None else Some (Inr (1, desc_result)))" for i
    by (cases i) simp_all
  have "test_desc_recv n = (if m < 19 then None
      else if m - 19 = 0 then None else Some (Inr (1, desc_result)))"
    unfolding Suc desc_first using desc_loop_bytes [of 19 m] last [of "m - 19"] by simp
  then show ?thesis using Suc by auto
qed

text \<open>What the test leaves: the first 20 bytes of its packet received, 18 of them payload.\<close>

lemma desc_result_fields:
  "take 20 (x_rx desc_result) = take 20 desc_packet" "x_rx_len desc_result = 18"
  "x_stage desc_result = DATAxStop"
  by (simp_all add: desc_result_def desc_xfer_def put_at_def)

subsection \<open>The device test\<close>

lemma datax_send_clocked:
  "clocked b \<Longrightarrow> datax_send_step x b out = Inr (0, x', out') \<Longrightarrow> clocked out'"
  by (auto simp: datax_send_step_def drive_eop_def clocked_def Let_def outcome_eq_Inr assert_c_def split: if_splits)

lemma deaf_await: "deaf f \<Longrightarrow> deaf (await_ack f)"
  by simp

text \<open>Against a device that ignores the bus the host sends as to a listener.\<close>

lemma turns_deaf:
  "turns (Suc n) datax_send_step listen (x, b, out, u) = Some (x', b', out', u') \<Longrightarrow> clocked b \<Longrightarrow> deaf f \<Longrightarrow>
     turns (Suc n) datax_send_step usbf_step (x, b, out, f) = Some (x', b', out', await_ack f) \<and> clocked b'"
proof (induction n arbitrary: x b out u f)
  case 0
  from 0 have t: "turn datax_send_step listen (x, b, out, u) = Some (x', b', out', u')"
    by (auto simp: bind_eq_Some_conv)
  note s = turn_listen [OF t]
  then have "clocked b'" using datax_send_clocked 0 by blast
  then show ?case using s(1,2) deaf_step [OF 0(3)] by (simp add: turn_def)
next
  case (Suc n)
  from Suc.prems(1) obtain x1 b1 o1 u1 where
    t: "turn datax_send_step listen (x, b, out, u) = Some (x1, b1, o1, u1)" and
    ts: "turns (Suc n) datax_send_step listen (x1, b1, o1, u1) = Some (x', b', out', u')"
    unfolding turns.simps(2) [of "Suc n"] by (auto simp: bind_eq_Some_conv simp del: turns.simps(2))
  note s = turn_listen [OF t]
  have c: "clocked b1" using datax_send_clocked s(1) Suc.prems(2) by blast
  then have "turn datax_send_step usbf_step (x, b, out, f) = Some (x1, b1, o1, await_ack f)"
    using s(1,2) deaf_step [OF Suc.prems(3)] by (simp add: turn_def)
  moreover have "turns (Suc n) datax_send_step usbf_step (x1, b1, o1, await_ack f) =
      Some (x', b', out', await_ack (await_ack f)) \<and> clocked b'"
    by (rule Suc.IH [OF ts c]) (use Suc.prems(3) in simp)
  ultimately show ?case by (simp add: turns.simps(2) [of "Suc n"] del: turns.simps(2))
qed

lemma datax_run_deaf:
  assumes "sending x" and "x_tx_ptr x = 0" and "deaf f"
  shows "ulpi_step_with n datax_send_step x bus usbf_step f =
    (if n < nat (x_tx_len x) + 9 then None
     else Some (Inr (1, (data_sent x)\<lparr>x_type := XferIdle, x_stage := NoXfer\<rparr>, bus_released bus, await_ack f)))"
proof -
  let ?y = "x\<lparr>x_stage := NoXfer\<rparr>"
  let ?z = "(data_sent ?y)\<lparr>x_stage := LineIdle\<rparr>"
  let ?l = "nat (x_tx_len x) + 7"
  have c: "clocked (bus_released bus)" "clocked (ulpi_bus_idle bus)"
    by (simp_all add: clocked_def bus_released_def)
  have l: "Suc ?l = nat (x_tx_len x) + 8" by simp
  have "turns (Suc ?l) datax_send_step listen (?y, ulpi_bus_idle bus, bus_zero, []) =
    Some (?z, bus_released bus, bus_released bus, data_pid x # data_bytes x)"
    unfolding l using datax_turns [of ?y bus bus_zero "[]"] assms(1,2) by simp
  from turns_deaf [OF this c(2) assms(3)]
  have "turns (Suc ?l) datax_send_step usbf_step (?y, ulpi_bus_idle bus, bus_zero, f) =
    Some (?z, bus_released bus, bus_released bus, await_ack f)" by simp
  moreover have "datax_send_step ?z (bus_released bus) (bus_released bus) =
      Inr (1, ?z\<lparr>x_type := XferIdle, x_stage := NoXfer\<rparr>, bus_released bus)"
    by (rule datax_last) (use assms(1) in \<open>simp_all add: bus_released_def\<close>)
  moreover have "usbf_step (await_ack f) (bus_released bus) (bus_released bus) =
      Inr (0, await_ack f, bus_released bus)"
    using deaf_step [of "await_ack f" "bus_released bus"] c assms(3) by simp
  moreover have "?z\<lparr>x_type := XferIdle, x_stage := NoXfer\<rparr> =
      (data_sent x)\<lparr>x_type := XferIdle, x_stage := NoXfer\<rparr>"
    by (simp add: data_sent_def)
  ultimately show ?thesis
    unfolding ulpi_step_with_def by (simp only: turns_loop_done) simp
qed

lemma test_func_recv_ok:
  "\<exists>func. \<forall>n. test_func_recv n = (if n < 17 then None else Some (Inr func))"
proof -
  let ?bus = "bus_zero\<lparr>u_clock := SIG1, u_rst_n := SIG1\<rparr>"
  let ?func = "func_zero\<lparr>f_op := HostIdle, f_state := FuncIdle\<rparr>"
  let ?tok = "xfer_zero\<lparr>x_type := SETUP, x_tok1 := 0x00, x_tok2 := 0x10\<rparr>"
  let ?dat = "(?tok\<lparr>x_stage := EOP\<rparr>)\<lparr>x_type := DnDATA0, x_crc1 := 0xDD, x_crc2 := 0x94,
    x_tx_len := 8, x_tx := func_packet @ drop 8 (x_tx ?tok)\<rparr>"
  have idle: "usbf_step ?func ?bus bus_zero = Inr (0, ?func, ?bus)"
    by (simp add: usbf_step_def ulpi_bus_is_idle_def bus_zero_def)
  obtain bus' where tok: "\<And>n. ulpi_step_with n token_send_step ?tok ?bus usbf_step ?func =
      (if n < 7 then None else Some (Inr (1, ?tok\<lparr>x_stage := EOP\<rparr>, bus', with_token ?tok ?func)))"
    using func_token_run [of ?tok ?func ?bus] by (auto simp: func_zero_def)
  have "deaf (with_token ?tok ?func)" by (simp add: deaf_def with_token_def op_of_def)
  moreover have "sending ?dat"
    by (simp add: sending_def check_seq_def data_pid_def xfer_zero_def func_packet_def)
  ultimately have dat: "ulpi_step_with n datax_send_step ?dat bus' usbf_step (with_token ?tok ?func) =
      (if n < 17 then None else Some (Inr (1, (data_sent ?dat)\<lparr>x_type := XferIdle, x_stage := NoXfer\<rparr>,
        bus_released bus', await_ack (with_token ?tok ?func))))" for n
    using datax_run_deaf [of ?dat "with_token ?tok ?func" n bus'] by (simp add: xfer_zero_def)
  have "test_func_recv n = (if n < 17 then None else Some (Inr (await_ack (with_token ?tok ?func))))" for n
    unfolding test_func_recv_def Let_def idle by (simp add: tok dat [simplified])
  then show ?thesis by blast
qed

lemma unit_tests_ok:
  "usb_unit_tests n rnd = (if n < 21 then None else Some (Inr ()))"
proof -
  obtain func where "\<And>n. test_func_recv n = (if n < 17 then None else Some (Inr func))"
    using test_func_recv_ok by blast
  then show ?thesis
    by (simp add: usb_unit_tests_def check_crc5_ok check_crc16_ok test_desc_recv_ok)
qed

subsection \<open>The loops of \<open>main\<close>\<close>

lemma host_loop_result: "cont h \<Longrightarrow> host_loop cont n rnd r h b = host_loop cont n rnd 0 h b"
  by (cases n) simp_all

lemma host_loop_step:
  assumes "cont h" and "\<And>rnd. usbh_step rnd h b = Inr (r', h', b')" and "0 \<le> r'"
  shows "host_loop cont n rnd r h b = (if n < 1 then None else host_loop cont (n - 1) rnd r' h' b')"
  using assms by (cases n) simp_all

lemma reset_loop:
  assumes "h_op h = HostReset" and "h_guard h = GUARDIAN" and "u_rst_n bus \<noteq> SIG0"
    and "unat (h_step h) + k = 6000" and "0 < k"
  shows "\<exists>h'. (\<forall>n rnd r. host_loop (\<lambda>h. h_op h = HostReset) n rnd r h bus =
      (if n < k then None else Some (Inr (0, h', bus)))) \<and>
    h_op h' = HostIdle \<and> h_step h' = 0 \<and> h_cycle h' = h_cycle h + of_nat k \<and> h_xfer h' = h_xfer h \<and>
    h_addr h' = h_addr h"
  using assms
proof (induction k arbitrary: h)
  case 0
  then show ?case by simp
next
  case (Suc k)
  note loop = host_loop_step [where cont = "\<lambda>h. h_op h = HostReset" and h = h and b = bus]
  show ?case
  proof (cases "k = 0")
    case True
    let ?h = "h\<lparr>h_cycle := h_cycle h + 1, h_op := HostIdle, h_step := 0, h_prev := bus\<rparr>"
    have "usbh_step rnd h bus = Inr (0, ?h, bus)" for rnd
      using Suc.prems True by (intro reset_last_step) simp_all
    from loop [OF Suc.prems(1) this]
    have "host_loop (\<lambda>h. h_op h = HostReset) n rnd r h bus =
        (if n < Suc k then None else Some (Inr (0, ?h, bus)))" for n rnd r
      using True by (cases "n - 1") simp_all
    then show ?thesis using True by (intro exI [of _ ?h]) simp
  next
    case False
    let ?h = "h\<lparr>h_cycle := h_cycle h + 1, h_step := h_step h + 1, h_prev := bus\<rparr>"
    have step: "usbh_step rnd h bus = Inr (0, ?h, bus)" for rnd
      using Suc.prems False by (intro reset_step) simp_all
    have "unat (h_step ?h) = Suc (unat (h_step h))"
      using Suc.prems(4) False by (simp add: unat_Suc_small)
    then obtain h' where h': "\<And>n rnd r. host_loop (\<lambda>h. h_op h = HostReset) n rnd r ?h bus =
        (if n < k then None else Some (Inr (0, h', bus)))"
      "h_op h' = HostIdle" "h_step h' = 0" "h_cycle h' = h_cycle ?h + of_nat k" "h_xfer h' = h_xfer ?h"
      "h_addr h' = h_addr ?h"
      using Suc.IH [of ?h] Suc.prems False by auto
    have "host_loop (\<lambda>h. h_op h = HostReset) n rnd r h bus =
        (if n < Suc k then None else Some (Inr (0, h', bus)))" for n rnd r
      using loop [OF Suc.prems(1) step] h'(1) by auto
    then show ?thesis using h'(2-) by (intro exI [of _ h']) (simp add: add.assoc)
  qed
qed

lemma setup_clock:
  assumes "h_op h = HostSETUP" and "h_step h = 0" and "x_type (h_xfer h) = SETUP" and "u_rst_n b \<noteq> SIG0"
    and "token_send_step (h_xfer h) b b = Inr (r, x', out)" and "r \<le> 1"
  shows "usbh_step rnd h b = Inr (r, with_xfer (h\<lparr>h_cycle := h_cycle h + 1\<rparr>) x', out)"
  using assms usbh_frame_busy [of "h\<lparr>h_cycle := h_cycle h + 1\<rparr>" b "h_cycle h"]
  by (simp add: usbh_step_def usbh_dispatch_def on_xfer_def host_order stdreq_step_def stdreq_packet_def
    with_xfer_def)

lemma token_keeps_type:
  "token_send_step x inb out = Inr (0, x', out') \<Longrightarrow> x_type x' = x_type x"
  by (auto simp: token_send_step_def drive_eop_def Let_def assert_c_def split: if_splits)

lemma setup_turns:
  assumes "turns k token_send_step listen (h_xfer h, b, b, u) = Some (x', b', b'', u')"
    and "h_op h = HostSETUP" and "h_step h = 0" and "x_type (h_xfer h) = SETUP" and "u_rst_n b \<noteq> SIG0"
  shows "\<exists>h'. (\<forall>n rnd r. host_loop (\<lambda>h. h_op h \<noteq> HostIdle) n rnd r h b =
      (if n < k then None else host_loop (\<lambda>h. h_op h \<noteq> HostIdle) (n - k) rnd 0 h' b')) \<and>
    h' = with_xfer (h\<lparr>h_cycle := h_cycle h + of_nat k\<rparr>) x' \<and> x_type x' = SETUP \<and> u_rst_n b' = u_rst_n b"
  using assms
proof (induction k arbitrary: h b u)
  case 0
  then have x: "x' = h_xfer h" "b' = b" "h_op h \<noteq> HostIdle" by simp_all
  then have "with_xfer (h\<lparr>h_cycle := h_cycle h + of_nat 0\<rparr>) x' = h" by (simp add: with_xfer_def)
  then show ?case
    using 0 x by (intro exI [of _ h]) (auto intro: host_loop_result)
next
  case (Suc k)
  from Suc.prems(1) obtain s1 where t: "turn token_send_step listen (h_xfer h, b, b, u) = Some s1"
    and ts: "turns k token_send_step listen s1 = Some (x', b', b'', u')"
    by (auto simp: bind_eq_Some_conv)
  obtain x1 b1 o1 u1 where s1: "s1 = (x1, b1, o1, u1)" by (cases s1)
  have st: "token_send_step (h_xfer h) b b = Inr (0, x1, b1)" and o1: "o1 = b1"
    using turn_listen [of token_send_step "h_xfer h" b b u x1 b1 o1 u1] t s1 by simp_all
  have rst: "u_rst_n b1 = u_rst_n b" using token_keeps_rst [of b "h_xfer h"] st by simp
  let ?h1 = "with_xfer (h\<lparr>h_cycle := h_cycle h + 1\<rparr>) x1"
  have h1: "h_op ?h1 = HostSETUP" "h_step ?h1 = 0" "x_type (h_xfer ?h1) = SETUP" "h_xfer ?h1 = x1"
    using Suc.prems(2-4) token_keeps_type [OF st] by (simp_all add: with_xfer_def)
  have step: "usbh_step rnd h b = Inr (0, ?h1, b1)" for rnd
    using setup_clock [OF Suc.prems(2-5) st] by simp
  obtain h' where h': "\<And>n rnd r. host_loop (\<lambda>h. h_op h \<noteq> HostIdle) n rnd r ?h1 b1 =
      (if n < k then None else host_loop (\<lambda>h. h_op h \<noteq> HostIdle) (n - k) rnd 0 h' b')"
    "h' = with_xfer (?h1\<lparr>h_cycle := h_cycle ?h1 + of_nat k\<rparr>) x'" "x_type x' = SETUP" "u_rst_n b' = u_rst_n b1"
    using Suc.IH [of ?h1 b1 u1] ts s1 o1 h1 rst Suc.prems(5) by auto
  have "host_loop (\<lambda>h. h_op h \<noteq> HostIdle) n rnd r h b =
      (if n < Suc k then None else host_loop (\<lambda>h. h_op h \<noteq> HostIdle) (n - Suc k) rnd 0 h' b')" for n rnd r
    using host_loop_step [OF _ step, where cont = "\<lambda>h. h_op h \<noteq> HostIdle"] Suc.prems(2) h'(1) by auto
  then show ?case
    using h'(2-) rst by (intro exI [of _ h']) (simp add: with_xfer_def add.assoc)
qed

text \<open>
  The ten clocks of the second loop: nine for the SETUP token, then one that fails.
\<close>

lemma setup_loop:
  assumes "h_op h = HostSETUP" and "h_step h = 0" and "x_type (h_xfer h) = SETUP"
    and "x_stage (h_xfer h) = NoXfer" and "10 \<le> n"
  shows "host_loop (\<lambda>h. h_op h \<noteq> HostIdle) n rnd r h (ulpi_bus_idle bus) =
    Some (Inr (-1, with_xfer (h\<lparr>h_cycle := h_cycle h + 10\<rparr>)
      ((h_xfer h)\<lparr>x_type := XferIdle\<rparr>), bus_released bus))"
proof -
  let ?x = "h_xfer h"
  let ?l = "?x\<lparr>x_stage := LineIdle\<rparr>"
  let ?h8 = "with_xfer (h\<lparr>h_cycle := h_cycle h + of_nat 8\<rparr>) ?l"
  let ?h9 = "with_xfer (h\<lparr>h_cycle := h_cycle h + 9\<rparr>) (?x\<lparr>x_type := XferIdle\<rparr>)"
  let ?h10 = "with_xfer (h\<lparr>h_cycle := h_cycle h + 10\<rparr>) (?x\<lparr>x_type := XferIdle\<rparr>)"
  let ?b = "bus_released bus"
  note loop = host_loop_step [where cont = "\<lambda>h. h_op h \<noteq> HostIdle"]
  have "turns 8 token_send_step listen (?x, ulpi_bus_idle bus, ulpi_bus_idle bus, []) =
      Some (?l, ?b, ?b, [transfer_type_to_pid ?x, x_tok1 ?x, x_tok2 ?x])"
    using token_turns [of ?x bus "ulpi_bus_idle bus" "[]"] assms by simp
  from setup_turns [OF this assms(1,2,3)]
  have eight: "host_loop (\<lambda>h. h_op h \<noteq> HostIdle) n rnd r h (ulpi_bus_idle bus) =
      host_loop (\<lambda>h. h_op h \<noteq> HostIdle) (n - 8) rnd 0 ?h8 ?b"
    using assms(5) by auto
  have h8: "h_op ?h8 = HostSETUP" "h_step ?h8 = 0" "h_xfer ?h8 = ?l" "x_type ?l = SETUP"
    and rst: "u_rst_n ?b \<noteq> SIG0"
    using assms by (simp_all add: with_xfer_def bus_released_def)
  have "token_send_step ?l ?b ?b = Inr (1, ?l\<lparr>x_type := XferIdle, x_stage := NoXfer\<rparr>, ?b)"
    using token_last [of ?l bus ?b] h8(4) by simp
  moreover have "?l\<lparr>x_type := XferIdle, x_stage := NoXfer\<rparr> = ?x\<lparr>x_type := XferIdle\<rparr>"
    using assms(4) by (cases ?x) simp
  ultimately have "usbh_step rnd ?h8 ?b = Inr (1, ?h9, ?b)" for rnd
    using setup_clock [of ?h8 ?b 1] h8 rst by (simp add: with_xfer_def add.assoc)
  from loop [OF _ this, of "n - 8"]
  have nine: "host_loop (\<lambda>h. h_op h \<noteq> HostIdle) (n - 8) rnd 0 ?h8 ?b =
      host_loop (\<lambda>h. h_op h \<noteq> HostIdle) (n - 9) rnd 1 ?h9 ?b"
    using assms(5) h8(1) by simp
  have "usbh_step v ?h9 ?b = Inr (-1, ?h10, ?b)" for v
    using assms(1,2) rst usbh_frame_busy [of "?h9\<lparr>h_cycle := h_cycle ?h9 + 1\<rparr>" ?b "h_cycle ?h9"]
    by (simp add: usbh_step_def usbh_dispatch_def host_order stdreq_step_def stdreq_packet_def
      with_xfer_def add.assoc)
  moreover obtain m where "n - 9 = Suc m" using assms(5) by (cases "n - 9") auto
  ultimately show ?thesis
    unfolding eight nine using assms(1) by (simp add: with_xfer_def)
qed

text \<open>
  (C15) The stand-alone simulator, whatever \<open>rand()\<close> and \<open>malloc\<close> return and whatever the memory
  of the host holds: its four start-up tests pass, the host is in reset for 6000 clocks, the
  request is queued and its SETUP token is sent. The clock after the token fails and
  ends the loop, because nothing in \<open>main\<close> moves the request on from its first packet. The program
  so stops at cycle 6010 with result -1, and the eight bytes of the request are never sent.
\<close>

theorem usb_main_stops:
  "\<exists>host. (\<forall>fuel. usb_main fuel rnd addr1 addr2 junk =
      (if fuel < 6000 then None else Some (Inr (-1, host)))) \<and>
    h_op host = HostSETUP \<and> h_step host = 0 \<and> h_cycle host = 6010 \<and>
    x_type (h_xfer host) = XferIdle \<and> x_tx_len (h_xfer host) = 8 \<and> x_tx_ptr (h_xfer host) = 0 \<and>
    take 8 (x_tx (h_xfer host)) = [0x80, 0x06, 0x01, 0x00, 0x00, 0x00, 0x40, 0x00]"
proof -
  let ?h0 = "usbh_init addr1 junk"
  let ?bus = "ulpi_bus_idle bus_zero"
  let ?req = "\<lparr>bmRequestType = 0x80, bRequest = STDREQ_GET_DESCRIPTOR, wValue = 1, wIndex = 0,
    wLength = of_nat MAX_CONFIG_SIZE, req_data = addr2\<rparr>"
  have h0: "h_op ?h0 = HostReset" "h_guard ?h0 = GUARDIAN" "unat (h_step ?h0) + 6000 = 6000" "h_cycle ?h0 = 0"
    "h_xfer ?h0 = xfer_zero"
    by (simp_all add: usbh_init_def usbh_reset_def)
  obtain h1 where h1: "\<And>n rnd r. host_loop (\<lambda>h. h_op h = HostReset) n rnd r ?h0 ?bus =
      (if n < 6000 then None else Some (Inr (0, h1, ?bus)))"
    "h_op h1 = HostIdle" "h_cycle h1 = 6000" "h_xfer h1 = xfer_zero"
    using reset_loop [OF h0(1,2) _ h0(3), of ?bus] h0(4,5) by auto
  obtain h2 where h2: "stdreq_start h1 ?req = Inr (1, h2)" "h_op h2 = HostSETUP" "h_step h2 = 0"
      "h_cycle h2 = 6000" "x_type (h_xfer h2) = SETUP" "x_stage (h_xfer h2) = NoXfer" "x_tx_len (h_xfer h2) = 8"
      "x_tx_ptr (h_xfer h2) = 0" "take 8 (x_tx (h_xfer h2)) = take 8 (stdreq_bytes ?req)"
    using stdreq_start_eq [of h1 ?req] h1(3,4) by (simp add: with_xfer_def)
  have get: "stdreq_get_descriptor addr2 h1 1 = Inr (1, h2)"
    using h1(2) h2(1) by (simp add: stdreq_get_descriptor_def get_descriptor_def req_zero_def)
  let ?h3 = "with_xfer (h2\<lparr>h_cycle := h_cycle h2 + 10\<rparr>) ((h_xfer h2)\<lparr>x_type := XferIdle\<rparr>)"
  have "usb_main n rnd addr1 addr2 junk = (if n < 6000 then None else Some (Inr (-1, ?h3)))" for n
    using setup_loop [OF h2(2,3,5,6)]
    by (simp add: usb_main_def unit_tests_ok usb_session_def h1(1) get)
  moreover have "take 8 (stdreq_bytes ?req) = [0x80, 0x06, 0x01, 0x00, 0x00, 0x00, 0x40, 0x00]"
    by (simp add: stdreq_bytes_take lo8_def hi8_def)
  ultimately show ?thesis
    using h2 by (intro exI [of _ ?h3]) (simp add: with_xfer_def)
qed

end
