(* ===== verification/Fast_eop.thy ===== *)
theory Fast_eop
  imports Ulpi_Recv
begin

text \<open>
  The build option \<open>__fast_eop\<close> of \<open>src/vpi/usb/ulpi.h\<close>: a shorter sequence at the end of a
  packet, in \<open>src/vpi/usb/ulpi.c\<close>. The argument \<open>fast\<close> says whether the macro is
  defined; for \<open>False\<close> the step-functions are those of the default build.
\<close>

subsection \<open>The step-functions of both builds\<close>

definition drive_eop_fast :: step_fn where
  "drive_eop_fast xfer inb out =
     (if x_stage xfer = NoXfer then Inr (1, xfer, out)
      else if x_stage xfer = ULPITurn then
        Inr (0, xfer\<lparr>x_stage := DATAxStop\<rparr>,
          set_b 0xFF (set_a 0x00 (out\<lparr>u_dir := SIG1, u_nxt := SIG0\<rparr>)))
      else if x_stage xfer \<in> {Token2, DATAxCRC2, HskPID, DATAxStop} then
        assert_c (x_stage xfer = DATAxStop \<or> u_nxt inb = SIG1)
          (assert_c (x_stage xfer = DATAxStop \<or> data_b inb = 0x00) (assert_c (u_dir inb = SIG1)
            (Inr (0, xfer\<lparr>x_stage := EndRXCMD\<rparr>,
              set_b 0x00 (set_a 0x4D (out\<lparr>u_dir := SIG1, u_nxt := SIG0\<rparr>))))))
      else if x_stage xfer = EndRXCMD then
        assert_c (u_dir out = SIG1) (assert_c (u_nxt out = SIG0) (assert_c (data_b out = 0x00)
          (Inr (0, xfer\<lparr>x_stage := LineIdle\<rparr>, set_b 0xFF (set_a 0x00 (out\<lparr>u_dir := SIG0\<rparr>))))))
      else if x_stage xfer = LineIdle then
        assert_c (u_dir inb = SIG0) (assert_c (u_nxt inb = SIG0) (assert_c (data_a inb = 0x00)
          (Inr (1, xfer\<lparr>x_type := XferIdle, x_stage := NoXfer\<rparr>, out))))
      else Inr (-1, xfer, out))"

definition eop_of :: "bool \<Rightarrow> step_fn" where
  "eop_of fast = (if fast then drive_eop_fast else drive_eop)"

definition token_send_of :: "bool \<Rightarrow> step_fn" where
  "token_send_of fast xfer inb out =
     (if x_stage xfer > NoXfer \<and> x_stage xfer < LineIdle \<and> u_dir inb \<noteq> SIG1
      then Inr (-1, xfer, out)
      else if x_type xfer \<in> {SETUP, OUT, IN, SOF} then
        (let out = inb in
         if x_stage xfer = NoXfer then
           Inr (0, xfer\<lparr>x_stage := AssertDir\<rparr>,
             set_b 0xFF (set_a 0x00 (out\<lparr>u_dir := SIG1, u_nxt := SIG1\<rparr>)))
         else if x_stage xfer = AssertDir then
           Inr (0, xfer\<lparr>x_stage := InitRXCMD\<rparr>,
             set_b 0x00 (set_a 0x5D (out\<lparr>u_nxt := SIG0\<rparr>)))
         else if x_stage xfer = InitRXCMD then
           Inr (0, xfer\<lparr>x_stage := TokenPID\<rparr>,
             set_a (transfer_type_to_pid xfer) (out\<lparr>u_dir := SIG1, u_nxt := SIG1\<rparr>))
         else if x_stage xfer = TokenPID then
           Inr (0, xfer\<lparr>x_stage := Token1\<rparr>,
             set_b 0x00 (set_a (x_tok1 xfer) (out\<lparr>u_nxt := SIG1\<rparr>)))
         else if x_stage xfer = Token1 then
           assert_c (u_dir out = SIG1) (assert_c (u_nxt out = SIG1) (assert_c (data_b out = 0x00)
             (Inr (0, xfer\<lparr>x_stage := Token2\<rparr>, set_a (x_tok2 xfer) out))))
         else eop_of fast xfer inb out)
      else Inr (-1, xfer, out))"

definition datax_send_of :: "bool \<Rightarrow> step_fn" where
  "datax_send_of fast xfer inb out =
     (let pid = (if x_type xfer = DnDATA0 then 0xC3 else 0x4B) in
      if \<not> check_seq xfer (pid AND 0x0F) then Inr (-1, xfer, out)
      else (let out = inb in
        if x_type xfer \<in> {DnDATA0, DnDATA1} then
          (if x_stage xfer = NoXfer then
             (if data_a inb \<noteq> 0x00 \<or> u_stp inb \<noteq> SIG0 then Inr (-1, xfer, out)
              else Inr (0, xfer\<lparr>x_stage := AssertDir\<rparr>,
                set_b 0xFF (set_a 0x00 (out\<lparr>u_dir := SIG1, u_nxt := SIG1\<rparr>))))
           else if x_stage xfer = AssertDir then
             Inr (0, xfer\<lparr>x_stage := InitRXCMD\<rparr>,
               set_b 0x00 (set_a 0x5D (out\<lparr>u_nxt := SIG0\<rparr>)))
           else if x_stage xfer = InitRXCMD then
             Inr (0, xfer\<lparr>x_stage := DATAxPID\<rparr>,
               set_b 0x00 (set_a pid (out\<lparr>u_nxt := SIG1\<rparr>)))
           else if x_stage xfer = DATAxPID then
             (let out = set_b 0x00 (out\<lparr>u_nxt := SIG1\<rparr>) in
              if x_tx_len xfer > 0 then
                bind_c (aget (x_tx xfer) (x_tx_ptr xfer)) (\<lambda>byte.
                  Inr (0, xfer\<lparr>x_tx_ptr := x_tx_ptr xfer + 1, x_stage := DATAxBody\<rparr>,
                    set_a byte out))
              else Inr (0, xfer\<lparr>x_stage := DATAxCRC1\<rparr>, set_a 0x00 out))
           else if x_stage xfer = DATAxBody then
             (let out = set_b 0x00 (out\<lparr>u_nxt := SIG1\<rparr>) in
              if x_tx_ptr xfer < x_tx_len xfer then
                bind_c (aget (x_tx xfer) (x_tx_ptr xfer)) (\<lambda>byte.
                  Inr (0, xfer\<lparr>x_tx_ptr := x_tx_ptr xfer + 1, x_stage := DATAxBody\<rparr>,
                    set_a byte out))
              else Inr (0, xfer\<lparr>x_stage := DATAxCRC1\<rparr>, set_a (x_crc1 xfer) out))
           else if x_stage xfer = DATAxCRC1 then
             Inr (0, xfer\<lparr>x_stage := DATAxCRC2\<rparr>,
               set_b 0x00 (set_a (x_crc2 xfer) (out\<lparr>u_nxt := SIG1\<rparr>)))
           else eop_of fast xfer inb out)
        else Inr (-1, xfer, out)))"

definition datax_recv_of :: "bool \<Rightarrow> step_fn" where
  "datax_recv_of fast xfer inb out =
     (let out = inb in
      if x_type xfer \<in> {UpDATA0, UpDATA1} then
        (if x_stage xfer = NoXfer then
           (let out = out\<lparr>u_dir := SIG0\<rparr> in
            if data_a inb \<noteq> 0x00 then
              Inr (0, xfer\<lparr>x_stage := DATAxPID\<rparr>, out\<lparr>u_nxt := SIG1\<rparr>)
            else Inr (0, xfer, out))
         else if x_stage xfer = DATAxPID then
           assert_c (u_dir inb = SIG0) (assert_c (u_nxt inb = SIG1) (assert_c (data_b inb = 0x00)
             (let out = out\<lparr>u_nxt := SIG0\<rparr>;
                  xfer = xfer\<lparr>x_stage := DATAxBody, x_rx_ptr := 0\<rparr> in
              if data_a inb \<noteq> ULPITX_DATA0 \<and> data_a inb \<noteq> ULPITX_DATA1 then Inr (-2, xfer, out)
              else if \<not> check_seq xfer (data_a inb AND 0x0F) then Inr (-3, xfer, out)
              else Inr (0, xfer, out))))
         else if x_stage xfer = DATAxBody then
           assert_c (u_dir inb = SIG0)
             (if u_stp inb = SIG1 then
                (let out = (if fast then set_b 0x00 (set_a 0x00 (out\<lparr>u_nxt := SIG0, u_dir := SIG0\<rparr>))
                            else set_b 0xFF (set_a 0x00 (out\<lparr>u_nxt := SIG0, u_dir := SIG1\<rparr>)));
                     xfer = xfer\<lparr>x_stage := (if fast then ULPITurn else DATAxStop),
                       x_rx_len := x_rx_ptr xfer - 2\<rparr> in
                 bind_c (check_rx_crc16 xfer) (\<lambda>(ok, xfer).
                   if \<not> ok then Inr (-1, xfer, out) else Inr (0, xfer, out)))
              else if u_nxt inb = SIG1 then
                bind_c (aput (x_rx xfer) (x_rx_ptr xfer) (data_a inb)) (\<lambda>rx.
                  Inr (0, xfer\<lparr>x_rx := rx, x_rx_ptr := x_rx_ptr xfer + 1\<rparr>, out))
              else Inr (0, xfer, out\<lparr>u_nxt := SIG1\<rparr>))
         else eop_of fast xfer inb out)
      else Inr (-1, xfer, out))"

definition ack_send_of :: "bool \<Rightarrow> step_fn" where
  "ack_send_of fast xfer inb out =
     (if x_type xfer \<noteq> DnACK then Inr (-1, xfer, out)
      else if x_stage xfer = NoXfer then
        (if \<not> ulpi_bus_is_idle inb then Inr (-1, xfer, out)
         else Inr (0, xfer\<lparr>x_stage := AssertDir\<rparr>,
           set_b 0xFF (set_a 0x00 (out\<lparr>u_dir := SIG1, u_nxt := SIG1\<rparr>))))
      else if x_stage xfer = AssertDir then
        assert_c (u_dir inb = SIG1) (assert_c (u_nxt inb = SIG1) (assert_c (u_stp inb = SIG0)
          (Inr (0, xfer\<lparr>x_stage := InitRXCMD\<rparr>,
            set_b 0x00 (set_a 0x5D (out\<lparr>u_nxt := SIG0\<rparr>))))))
      else if x_stage xfer = InitRXCMD then
        assert_c (u_dir inb = SIG1) (assert_c (u_nxt inb = SIG0) (assert_c (u_stp inb = SIG0)
          (assert_c (data_b inb = 0x00)
            (Inr (0, xfer\<lparr>x_stage := HskPID\<rparr>,
              set_a (transfer_type_to_pid xfer) (out\<lparr>u_nxt := SIG1\<rparr>))))))
      else eop_of fast xfer inb out)"

text \<open>For \<open>False\<close> they are the step-functions of the default build.\<close>

lemma default_build:
  "token_send_of False = token_send_step" "datax_send_of False = datax_send_step"
  by (intro ext; simp add: token_send_of_def token_send_step_def datax_send_of_def datax_send_step_def eop_of_def)+

lemma default_ack: "ack_send_of False = ack_send_step"
  by (intro ext) (simp add: ack_send_of_def ack_send_step_def eop_of_def)

lemma default_recv: "datax_recv_of False = datax_recv_step"
  by (intro ext) (simp add: datax_recv_of_def datax_recv_step_def eop_of_def Let_def)

subsection \<open>Before the end of the packet\<close>

text \<open>
  Until the last byte of the packet the two builds take the same steps: \<open>early\<close> holds of the
  stages before, and only they lead to such a stage.
\<close>

lemma turns_early:
  assumes "\<And>x b out. early x \<Longrightarrow> going x b \<Longrightarrow> step' x b out = step x b out"
    and "\<And>x b out x' out'. step x b out = Inr (0, x', out') \<Longrightarrow> early x' \<Longrightarrow> early x \<and> going x b"
  shows "turns k step user s = Some s' \<Longrightarrow> early (fst s') \<Longrightarrow> turns k step' user s = Some s' \<and> early (fst s)"
proof (induction k arbitrary: s)
  case 0
  then show ?case by simp
next
  case (Suc k)
  obtain x b out u where s: "s = (x, b, out, u)" by (cases s)
  from Suc.prems(1) obtain s1 where t: "turn step user s = Some s1" and ts: "turns k step user s1 = Some s'"
    by (auto simp: bind_eq_Some_conv)
  have s1: "turns k step' user s1 = Some s'" "early (fst s1)"
    using Suc.IH [OF ts Suc.prems(2)] by simp_all
  obtain x1 out1 where st: "step x b out = Inr (0, x1, out1)" "fst s1 = x1"
    using t s by (auto simp: turn_def or_eq_0_iff split: sum.splits if_splits)
  have h: "early x" "going x b"
    using assms(2) [OF st(1)] s1(2) st(2) by auto
  then have "turn step' user s = Some s1"
    using t assms(1) [OF h] by (simp add: turn_def s)
  then show ?case using s1(1) h(1) s by simp
qed

definition send_early :: "transfer_t \<Rightarrow> bool" where
  "send_early x \<longleftrightarrow> x_stage x \<in> {NoXfer, AssertDir, InitRXCMD, DATAxPID, DATAxBody, DATAxCRC1}"

definition recv_early :: "transfer_t \<Rightarrow> bool" where
  "recv_early x \<longleftrightarrow> x_stage x \<in> {NoXfer, DATAxPID, DATAxBody}"

definition recv_going :: "transfer_t \<Rightarrow> ulpi_bus_t \<Rightarrow> bool" where
  "recv_going x b \<longleftrightarrow> \<not> (x_stage x = DATAxBody \<and> u_stp b = SIG1)"

lemma eop_late:
  "drive_eop x b out = Inr (0, x', out') \<Longrightarrow> x_stage x' \<in> {EndRXCMD, EOP, LineIdle}"
  by (auto simp: drive_eop_def assert_c_def split: if_splits)

lemma send_agree: "send_early x \<Longrightarrow> datax_send_of fast x b out = datax_send_step x b out"
  by (auto simp: datax_send_of_def datax_send_step_def send_early_def Let_def)

lemma recv_agree: "recv_early x \<Longrightarrow> recv_going x b \<Longrightarrow> datax_recv_of fast x b out = datax_recv_step x b out"
  by (auto simp: datax_recv_of_def datax_recv_step_def recv_early_def recv_going_def Let_def)

lemma send_back: "datax_send_step x b out = Inr (0, x', out') \<Longrightarrow> send_early x' \<Longrightarrow> send_early x"
  using eop_late [of x b b x' out']
  by (auto simp: datax_send_step_def send_early_def Let_def split: if_splits)

lemma send_turns:
  assumes "turns k datax_send_step user s = Some s'" and "send_early (fst s')"
  shows "turns k (datax_send_of fast) user s = Some s'"
proof -
  have "turns k (datax_send_of fast) user s = Some s' \<and> send_early (fst s)"
    by (rule turns_early [where early = send_early and going = "\<lambda>_ _. True" and step = datax_send_step])
      (use assms send_agree send_back in simp_all)
  then show ?thesis ..
qed

lemma check_keeps_stage: "check_rx_crc16 x = Inr (ok, y) \<Longrightarrow> x_stage y = x_stage x"
  using returnsD [OF check_rx_crc16_post] by fastforce

lemma recv_back:
  "datax_recv_step x b out = Inr (0, x', out') \<Longrightarrow> recv_early x' \<Longrightarrow> recv_early x \<and> recv_going x b"
  using eop_late [of x b b x' out']
  by (auto simp: datax_recv_step_def recv_early_def recv_going_def Let_def bind_c_eq_Inr
    dest!: check_keeps_stage split: if_splits prod.splits)

lemma recv_turns_early:
  assumes "turns k datax_recv_step user s = Some s'" and "recv_early (fst s')"
  shows "turns k (datax_recv_of fast) user s = Some s'"
proof -
  have "turns k (datax_recv_of fast) user s = Some s' \<and> recv_early (fst s)"
    by (rule turns_early [where going = recv_going, OF recv_agree recv_back assms])
  then show ?thesis ..
qed

subsection \<open>The end of the packet\<close>

lemmas fast_turn = turns_numeral turn_def eop_of_def drive_eop_fast_def

lemma token_turns_fast:
  assumes "x_type x \<in> {SETUP, OUT, IN, SOF}" and "x_stage x = NoXfer"
  shows "turns 7 (token_send_of True) listen (x, ulpi_bus_idle bus, out, u) =
    Some (x\<lparr>x_stage := LineIdle\<rparr>, bus_released bus, bus_released bus,
      u @ [transfer_type_to_pid x, x_tok1 x, x_tok2 x])"
  using assms by (auto simp: fast_turn token_send_of_def
     xfer_order listen_def transfer_type_to_pid_def bus_released_def)

lemma token_last_fast:
  assumes "x_type x \<in> {SETUP, OUT, IN, SOF}" and "x_stage x = LineIdle"
  shows "token_send_of True x (bus_released bus) out =
    Inr (1, x\<lparr>x_type := XferIdle, x_stage := NoXfer\<rparr>, bus_released bus)"
  using assms by (auto simp: token_send_of_def eop_of_def drive_eop_fast_def xfer_order bus_released_def)

lemma data_tail_fast:
  assumes "sending x" and "x_tx_len x > 0 \<longrightarrow> x_tx_ptr x = x_tx_len x"
    and "x_stage x = DATAxCRC1"
  shows "turns 3 (datax_send_of True) listen (x, driven bus b, driven bus b, u) =
    Some (x\<lparr>x_stage := LineIdle\<rparr>, bus_released bus, bus_released bus, u @ [x_crc2 x])"
  using assms by (auto simp: fast_turn datax_send_of_def listen_def sending_def
    check_seq_def data_pid_def bus_released_def)

lemma datax_last_fast:
  assumes "sending x" and "x_stage x = LineIdle"
  shows "datax_send_of True x (bus_released bus) out =
    Inr (1, x\<lparr>x_type := XferIdle, x_stage := NoXfer\<rparr>, bus_released bus)"
  using assms by (auto simp: fast_turn datax_send_of_def listen_def sending_def
    check_seq_def data_pid_def bus_released_def)

lemma datax_turns_fast:
  assumes "sending x" and "x_stage x = NoXfer" and "x_tx_len x > 0 \<longrightarrow> x_tx_ptr x = 0"
  shows "turns (nat (x_tx_len x) + 7) (datax_send_of True) listen (x, ulpi_bus_idle bus, out, u) =
    Some ((data_sent x)\<lparr>x_stage := LineIdle\<rparr>, bus_released bus, bus_released bus, u @ data_pid x # data_bytes x)"
proof -
  let ?z = "(data_sent x)\<lparr>x_stage := DATAxCRC1\<rparr>" and ?l = "nat (x_tx_len x)"
  obtain b where "turns (?l + 4) datax_send_step listen (x, ulpi_bus_idle bus, out, u) =
    Some (?z, driven bus b, driven bus b, u @ data_pid x # butlast (data_bytes x))"
    using data_upto_crc1 [OF assms] by blast
  then have body: "turns (?l + 4) (datax_send_of True) listen (x, ulpi_bus_idle bus, out, u) =
    Some (?z, driven bus b, driven bus b, u @ data_pid x # butlast (data_bytes x))"
    by (rule send_turns) (simp add: send_early_def)
  have "sending ?z" using assms(1) by simp
  moreover have "x_tx_len ?z > 0 \<longrightarrow> x_tx_ptr ?z = x_tx_len ?z" by (simp add: data_sent_def)
  ultimately have tail: "turns 3 (datax_send_of True) listen
      (?z, driven bus b, driven bus b, u @ data_pid x # butlast (data_bytes x)) =
    Some ((data_sent x)\<lparr>x_stage := LineIdle\<rparr>, bus_released bus, bus_released bus, u @ data_pid x # data_bytes x)"
    using data_tail_fast [of ?z bus b] by (simp add: data_bytes_def data_sent_def butlast_append)
  have n: "?l + 7 = (?l + 4) + 3" by simp
  show ?thesis
    unfolding n by (rule turns_trans [OF body tail])
qed

text \<open>The turn-around of the bus after \<open>STP\<close> and the RX command, in the build with the macro.\<close>

lemma check_any_stage:
  "check_rx_crc16 (x\<lparr>x_stage := s\<rparr>) =
     bind_c (check_rx_crc16 x) (\<lambda>(ok, y). Inr (ok, y\<lparr>x_stage := s\<rparr>))"
proof (cases x)
  case (fields address endpoint ty stage ep_seq cycle tx tx_len tx_ptr rx rx_len rx_ptr tok1 tok2 crc1 crc2)
  then show ?thesis
    by (simp add: check_rx_crc16_def crc16_of_def aget_def Let_def)
qed

lemma recv_stop_fast:
  assumes "receiving x pid" and "length ps + 2 \<le> length (x_rx x)" and "crc_right ps c1 c2"
  shows "datax_recv_of True
      (x\<lparr>x_stage := DATAxBody, x_rx := put_at 0 (ps @ [c1, c2]) (x_rx x),
        x_rx_ptr := int (length ps + 2)\<rparr>)
      (sent_bus bus 0 SIG1 SIG1) (sent_bus bus 0 SIG1 SIG1) =
    Inr (0, (received x ps c1 c2)\<lparr>x_stage := ULPITurn\<rparr>, sent_bus bus 0 SIG0 SIG1)"
proof -
  let ?y = "x\<lparr>x_rx := ps @ [c1, c2] @ drop (length ps + 2) (x_rx x),
      x_rx_ptr := int (length ps + 2), x_stage := DATAxStop, x_rx_len := int (length ps)\<rparr>"
  let ?w = "x\<lparr>x_rx := ps @ [c1, c2] @ drop (length ps + 2) (x_rx x),
      x_rx_ptr := int (length ps + 2), x_stage := ULPITurn, x_rx_len := int (length ps)\<rparr>"
  have w: "?w = ?y\<lparr>x_stage := ULPITurn\<rparr>" by simp
  have "check_rx_crc16 ?w = Inr (True, (received x ps c1 c2)\<lparr>x_stage := ULPITurn\<rparr>)"
    unfolding w check_any_stage [where x = ?y] check_received [OF assms(2)] using assms(3) by simp
  moreover have "datax_recv_of True
      (x\<lparr>x_stage := DATAxBody, x_rx := put_at 0 (ps @ [c1, c2]) (x_rx x),
        x_rx_ptr := int (length ps + 2)\<rparr>)
      (sent_bus bus 0 SIG1 SIG1) (sent_bus bus 0 SIG1 SIG1) =
    bind_c (check_rx_crc16 ?w) (\<lambda>(ok, xfer). Inr (if ok then 0 else -1, xfer, sent_bus bus 0 SIG0 SIG1))"
    using assms(1)
    by (auto simp: datax_recv_of_def receiving_def Let_def put_at_0 set_a_def set_b_def
        sent_bus_def ulpi_bus_idle_def intro!: arg_cong2 [of _ _ _ _ bind_c] ext)
  ultimately show ?thesis by (simp only:) simp
qed

lemma recv_eop_fast:
  assumes "x_type x \<in> {UpDATA0, UpDATA1}" and "x_stage x = ULPITurn" and "l_stopped l" and "l_bytes l = []"
  shows "turns 3 (datax_recv_of True) link_send (x, sent_bus bus 0 SIG0 SIG0, sent_bus bus 0 SIG0 SIG0, l) =
    Some (x\<lparr>x_stage := LineIdle\<rparr>, sent_bus bus 0 SIG0 SIG0, sent_bus bus 0 SIG0 SIG0, link_done)"
  using assms by (auto simp: fast_turn datax_recv_of_def link_send_def intro!: sent_busI)

lemma recv_last_fast:
  assumes "receiving x pid"
  shows "datax_recv_of True ((received x ps c1 c2)\<lparr>x_stage := LineIdle\<rparr>) (sent_bus bus 0 SIG0 SIG0) (sent_bus bus 0 SIG0 SIG0) =
    Inr (1, (received x ps c1 c2)\<lparr>x_type := XferIdle, x_stage := NoXfer\<rparr>, sent_bus bus 0 SIG0 SIG0)"
  using assms by (auto simp: datax_recv_of_def eop_of_def drive_eop_fast_def receiving_def)

subsection \<open>Whole packets\<close>

lemma token_fast:
  assumes "x_type x \<in> {SETUP, OUT, IN, SOF}"
  shows "ulpi_step_with n (token_send_of True) x bus listen [] = ulpi_step_with (Suc n) token_send_step x bus listen []"
proof -
  let ?x = "x\<lparr>x_stage := NoXfer\<rparr>"
  have ty: "x_type ?x \<in> {SETUP, OUT, IN, SOF}" using assms by simp
  show ?thesis
    unfolding ulpi_step_with_def
    using turns_loop_done [OF token_turns [OF ty, of bus bus_zero "[]"] token_last listen_released, where n = "Suc n"]
      turns_loop_done [OF token_turns_fast [OF ty, of bus bus_zero "[]"] token_last_fast listen_released, where n = n] ty
    by simp
qed

text \<open>The handshake starts on a bus that both parties hold idle: \<open>bus\<close> and \<open>out\<close> are the same.\<close>

lemma ack_fast:
  assumes "x_type x = DnACK"
  shows "ulpi_step_loop n (ack_send_of True) listen (x\<lparr>x_stage := NoXfer\<rparr>) (ulpi_bus_idle bus) (ulpi_bus_idle bus) [] =
    ulpi_step_loop (Suc n) ack_send_step listen (x\<lparr>x_stage := NoXfer\<rparr>) (ulpi_bus_idle bus) (ulpi_bus_idle bus) []"
proof -
  let ?s = "(x\<lparr>x_stage := NoXfer\<rparr>, ulpi_bus_idle bus, ulpi_bus_idle bus, [])"
  let ?y = "x\<lparr>x_stage := LineIdle\<rparr>" and ?b = "bus_released bus"
  have "turns 5 (ack_send_of True) listen ?s = Some (?y, ?b, ?b, [0xD2])"
    using assms by (auto simp: fast_turn ack_send_of_def listen_def ulpi_bus_is_idle_def
      transfer_type_to_pid_def bus_released_def xfer_order)
  moreover have "turns 6 ack_send_step listen ?s = Some (?y, ?b, ?b, [0xD2])"
    using assms by (auto simp: turns_numeral turn_def drive_eop_def ack_send_step_def listen_def
      ulpi_bus_is_idle_def transfer_type_to_pid_def bus_released_def xfer_order)
  moreover have "ack_send_of True ?y ?b ?b = Inr (1, ?y\<lparr>x_type := XferIdle, x_stage := NoXfer\<rparr>, ?b)"
    "ack_send_step ?y ?b ?b = Inr (1, ?y\<lparr>x_type := XferIdle, x_stage := NoXfer\<rparr>, ?b)"
    using assms by (simp_all add: ack_send_of_def ack_send_step_def eop_of_def drive_eop_fast_def drive_eop_def
      bus_released_def)
  ultimately show ?thesis
    using turns_loop_done [where step = "ack_send_of True" and user = listen and m = 5 and n = n, OF _ _ listen_released]
      turns_loop_done [where step = ack_send_step and user = listen and m = 6 and n = "Suc n", OF _ _ listen_released]
    by simp
qed

lemma datax_fast:
  assumes "sending x" and "x_tx_ptr x = 0"
  shows "ulpi_step_with n (datax_send_of True) x bus listen [] = ulpi_step_with (Suc n) datax_send_step x bus listen []"
proof -
  let ?y = "x\<lparr>x_stage := NoXfer\<rparr>"
  let ?z = "(data_sent ?y)\<lparr>x_stage := LineIdle\<rparr>"
  have y: "sending ?y" "x_stage ?y = NoXfer" "x_tx_len ?y > 0 \<longrightarrow> x_tx_ptr ?y = 0" using assms by simp_all
  have l: "datax_send_step ?z (bus_released bus) (bus_released bus) =
      Inr (1, ?z\<lparr>x_type := XferIdle, x_stage := NoXfer\<rparr>, bus_released bus)"
    by (rule datax_last) (use assms in \<open>simp_all add: bus_released_def\<close>)
  have f: "datax_send_of True ?z (bus_released bus) (bus_released bus) =
      Inr (1, ?z\<lparr>x_type := XferIdle, x_stage := NoXfer\<rparr>, bus_released bus)"
    by (rule datax_last_fast) (use assms in simp_all)
  show ?thesis
    unfolding ulpi_step_with_def
      turns_loop_done [OF datax_turns [OF y, of bus bus_zero "[]"] l listen_released]
      turns_loop_done [OF datax_turns_fast [OF y, of bus bus_zero "[]"] f listen_released]
    by simp
qed

lemma recv_fast:
  assumes "receiving x pid" and "length ps + 2 \<le> length (x_rx x)" and "crc_right ps c1 c2"
  shows "ulpi_step_with n (datax_recv_of True) x bus link_send (link_start (pid # ps @ [c1, c2])) =
    ulpi_step_with n datax_recv_step x bus link_send (link_start (pid # ps @ [c1, c2]))"
proof -
  let ?s = "x\<lparr>x_stage := DATAxBody, x_rx := put_at 0 (ps @ [c1, c2]) (x_rx x), x_rx_ptr := int (length ps + 2)\<rparr>"
  let ?b = "sent_bus bus 0 SIG0 SIG0" and ?r = "received x ps c1 c2"
  let ?l = "\<lparr>l_nxt = True, l_bytes = [], l_stopped = True\<rparr>"
  have early: "turns (4 + (length ps + 2)) (datax_recv_of True) link_send
      (x\<lparr>x_stage := NoXfer\<rparr>, ulpi_bus_idle bus, bus_zero, link_start (pid # ps @ [c1, c2])) =
    Some (?s, sent_bus bus 0 SIG1 SIG1, sent_bus bus 0 SIG1 SIG1, ?l)"
    by (rule recv_turns_early [OF recv_upto_stop [OF assms(1,2)]]) (simp add: recv_early_def)
  have "turns 1 (datax_recv_of True) link_send (?s, sent_bus bus 0 SIG1 SIG1, sent_bus bus 0 SIG1 SIG1, ?l) =
    Some (?r\<lparr>x_stage := ULPITurn\<rparr>, ?b, ?b, link_done)"
    using recv_stop_fast [OF assms] by (auto simp: turn_def link_send_def intro!: sent_busI)
  moreover have "turns 3 (datax_recv_of True) link_send (?r\<lparr>x_stage := ULPITurn\<rparr>, ?b, ?b, link_done) =
    Some (?r\<lparr>x_stage := LineIdle\<rparr>, ?b, ?b, link_done)"
    using recv_eop_fast [of "?r\<lparr>x_stage := ULPITurn\<rparr>" link_done bus] assms(1) by (auto simp: receiving_def)
  ultimately have fast: "turns (4 + (length ps + 2) + 1 + 3) (datax_recv_of True) link_send
      (x\<lparr>x_stage := NoXfer\<rparr>, ulpi_bus_idle bus, bus_zero, link_start (pid # ps @ [c1, c2])) =
    Some (?r\<lparr>x_stage := LineIdle\<rparr>, ?b, ?b, link_done)"
    by (intro turns_trans [OF turns_trans [OF early]])
  show ?thesis
    unfolding ulpi_step_with_def
      turns_loop_done [OF recv_turns [OF assms, of bus bus_zero] recv_last [OF assms(1)] link_done_step]
      turns_loop_done [OF fast recv_last_fast [OF assms(1)] link_done_step] ..
qed

text \<open>
  (C16) Building with \<open>__fast_eop\<close> changes the duration of packets and nothing else. A token, a data
  packet and a handshake take one turn less: what the device hears, the transfer, the bus and the result
  after \<open>n\<close> turns are those of the default build after \<open>n + 1\<close>. Receiving a packet with a right CRC takes the
  same number of turns, with the same outcome at every number of turns.
\<close>

theorem fast_eop_equivalent:
  assumes "x_type t \<in> {SETUP, OUT, IN, SOF}"
    and "x_type d \<in> {DnDATA0, DnDATA1}" and "check_seq d (if x_type d = DnDATA0 then 0x3 else 0xB)"
    and "x_tx_len d \<le> int (length (x_tx d))" and "x_tx_ptr d = 0"
    and "x_type a = DnACK"
    and "x_type r \<in> {UpDATA0, UpDATA1}" and "pid \<in> {ULPITX_DATA0, ULPITX_DATA1}"
    and "check_seq r (pid AND 0x0F)" and "length ps + 2 \<le> length (x_rx r)"
    and "c1 = lo8 (crc16_calc ps (length ps))" and "c2 = hi8 (crc16_calc ps (length ps))"
  shows "ulpi_step_with n (token_send_of True) t bus listen [] =
      ulpi_step_with (n + 1) (token_send_of False) t bus listen [] \<and>
    ulpi_step_with n (datax_send_of True) d bus listen [] =
      ulpi_step_with (n + 1) (datax_send_of False) d bus listen [] \<and>
    (let s = a\<lparr>x_stage := NoXfer\<rparr>; b = ulpi_bus_idle bus in
     ulpi_step_loop n (ack_send_of True) listen s b b [] =
       ulpi_step_loop (n + 1) (ack_send_of False) listen s b b []) \<and>
    ulpi_step_with n (datax_recv_of True) r bus link_send (link_start (pid # ps @ [c1, c2])) =
      ulpi_step_with n (datax_recv_of False) r bus link_send (link_start (pid # ps @ [c1, c2]))"
proof -
  have "sending d" using assms(2-4) by (auto simp: sending_def data_pid_def)
  moreover have "receiving r pid" "crc_right ps c1 c2"
    using assms(7-9,11,12) by (simp_all add: receiving_def crc_right_def)
  ultimately show ?thesis
    unfolding default_build default_recv default_ack Let_def
    using token_fast [OF assms(1)] datax_fast [OF _ assms(5)] ack_fast [OF assms(6)] recv_fast [OF _ assms(10)]
    by simp
qed

lemma fast_eop_equivalent_witness:
  "ulpi_step_with 8 (token_send_of True) (xfer_zero\<lparr>x_type := SETUP\<rparr>) bus_zero listen [] =
      ulpi_step_with 9 (token_send_of False) (xfer_zero\<lparr>x_type := SETUP\<rparr>) bus_zero listen [] \<and>
    ulpi_step_with 8 (datax_send_of True) (xfer_zero\<lparr>x_type := DnDATA0\<rparr>) bus_zero listen [] =
      ulpi_step_with 9 (datax_send_of False) (xfer_zero\<lparr>x_type := DnDATA0\<rparr>) bus_zero listen [] \<and>
    ulpi_step_with 8 (datax_recv_of True) (xfer_zero\<lparr>x_type := UpDATA0\<rparr>) bus_zero link_send (link_start [0x43, 0, 0]) =
      ulpi_step_with 8 (datax_recv_of False) (xfer_zero\<lparr>x_type := UpDATA0\<rparr>) bus_zero link_send (link_start [0x43, 0, 0])"
  using fast_eop_equivalent [of "xfer_zero\<lparr>x_type := SETUP\<rparr>" "xfer_zero\<lparr>x_type := DnDATA0\<rparr>"
      "xfer_zero\<lparr>x_type := DnACK\<rparr>" "xfer_zero\<lparr>x_type := UpDATA0\<rparr>" "0x43" "[]" "0x00" "0x00" 8 bus_zero]
  by (simp add: check_seq_def xfer_zero_def crc_empty lo8_def hi8_def)

end
