(* ===== verification/Tc_Restarts.thy ===== *)
theory Tc_Restarts
  imports Host
begin

text \<open>
  The link-restart test-case, \<open>src/vpi/tc_restarts.c\<close>: it watches and drives the bus values
  that the host remembers in \<open>host->prev\<close>. The values \<open>vpi0\<close> and \<open>vpi1\<close> are 0 and 1.
\<close>

datatype restart_stage_t =
  ErrReset | PowerOff | RefClock | TStart | LinkIdle | RXCMD | Restarted | Completed

record restart_t =
  por_stage :: restart_stage_t
  por_ticks :: int

abbreviation TSTART_TICKS :: int where "TSTART_TICKS \<equiv> 61800"
abbreviation LINK_IDLE_TICKS :: int where "LINK_IDLE_TICKS \<equiv> 1"

definition data_is_idle :: "ulpi_bus_t \<Rightarrow> bool" where
  "data_is_idle bus \<longleftrightarrow> data_a bus = 0x00 \<and> data_b bus = 0x00"

definition phy_is_driving :: "ulpi_bus_t \<Rightarrow> bool" where
  "phy_is_driving bus \<longleftrightarrow> u_rst_n bus = 1 \<and> u_dir bus = 1"

definition link_is_idle :: "ulpi_bus_t \<Rightarrow> bool" where
  "link_is_idle bus \<longleftrightarrow>
     u_rst_n bus = 1 \<and> u_dir bus = 0 \<and> u_nxt bus = 0 \<and> u_stp bus = 0 \<and> data_is_idle bus"

definition tc_restarts_init :: "usb_host_t \<Rightarrow> restart_t \<Rightarrow> int \<times> usb_host_t \<times> restart_t" where
  "tc_restarts_init host por = (0, host, por\<lparr>por_stage := PowerOff, por_ticks := 0\<rparr>)"

definition tc_restarts_step :: "usb_host_t \<Rightarrow> restart_t \<Rightarrow> int \<times> usb_host_t \<times> restart_t" where
  "tc_restarts_step host por =
     (let bus = h_prev host in
      case por_stage por of
        ErrReset \<Rightarrow> (-1, host, por)
      | PowerOff \<Rightarrow>
          (0, host, if u_rst_n bus = 0 then por\<lparr>por_stage := RefClock\<rparr> else por)
      | RefClock \<Rightarrow>
          (if u_rst_n bus = 1 then
             (0, host\<lparr>h_prev := set_b 0x00 (set_a 0x00 (bus\<lparr>u_dir := 1, u_nxt := 0\<rparr>))\<rparr>,
              por\<lparr>por_stage := TStart, por_ticks := 0\<rparr>)
           else if u_rst_n bus \<noteq> 0 then (-1, host, por\<lparr>por_stage := ErrReset\<rparr>)
           else (0, host, por\<lparr>por_ticks := por_ticks por + 1\<rparr>))
      | TStart \<Rightarrow>
          (if phy_is_driving bus \<and> data_is_idle bus then
             (let por = por\<lparr>por_ticks := por_ticks por + 1\<rparr> in
              if por_ticks por \<ge> TSTART_TICKS \<and> u_stp bus = 0 then
                (0, host\<lparr>h_prev := phy_bus_release bus\<rparr>,
                 por\<lparr>por_stage := LinkIdle, por_ticks := 0\<rparr>)
              else (0, host, por))
           else (-1, host, por))
      | LinkIdle \<Rightarrow>
          (if link_is_idle bus then
             (let por = por\<lparr>por_ticks := por_ticks por + 1\<rparr> in
              if por_ticks por \<ge> LINK_IDLE_TICKS then
                (0, host\<lparr>h_prev := bus\<lparr>u_dir := 1\<rparr>\<rparr>, por\<lparr>por_stage := RXCMD, por_ticks := 0\<rparr>)
              else (0, host, por))
           else (0, host, por))
      | RXCMD \<Rightarrow> (0, host, por\<lparr>por_stage := Restarted, por_ticks := 0\<rparr>)
      | Restarted \<Rightarrow>
          (0, host\<lparr>h_prev := phy_bus_release bus\<rparr>, por\<lparr>por_stage := Completed, por_ticks := 0\<rparr>)
      | Completed \<Rightarrow> (1, host, por))"

end
