(* ===== verification/Tc_Memory.thy ===== *)
theory Tc_Memory
  imports Ulpisim Tc_Restarts
begin

text \<open>
  The memory of the test-cases: \<open>tc_create\<close> and \<open>tc_finish\<close> of \<open>src/vpi/testcase.c\<close>, the constructors
  \<open>test_*\<close> of \<open>src/vpi/tc_*.c\<close>, and the registry that \<open>ut_compiletf\<close> builds with them. The
  other theories take a test-case as a value; here it is what the code has: a \<open>testcase_t\<close> structure
  that points to its data and to two routines.
\<close>

subsection \<open>Blocks of memory\<close>

text \<open>The routines a test-case can point to: the pair \<open>tc_X_init\<close>, \<open>tc_X_step\<close> of a file.\<close>

datatype tc_kind =
  KGetdesc | KGetconf | KGetstrs | KSetaddr | KSetconf | KWaitsof | KBulkin | KBulkout | KDdr3in
| KDdr3out | KParity | KRestarts

record tc_struct =
  tb_name :: string
  tb_data :: u64
  tb_init :: "tc_kind option"
  tb_step :: "tc_kind option"

text \<open>
  A block that \<open>malloc\<close> returned: not yet written, a structure, the data of a test-case, or a
  buffer of so many bytes.
\<close>

datatype block = Fresh | Struct tc_struct | Data testcase_t | Restart restart_t | Bytes nat

type_synonym heap = "u64 \<rightharpoonup> block"

text \<open>
  \<open>addr k\<close> is what the \<open>k\<close>-th call of \<open>malloc\<close> from here on returns; 0 is \<open>NULL\<close>. A routine
  that calls another passes it the rest.
\<close>

type_synonym mallocs = "nat \<Rightarrow> u64"

definition malloc_c :: "u64 \<Rightarrow> block \<Rightarrow> heap \<Rightarrow> heap" where
  "malloc_c a b h = (if a = 0 then h else h(a \<mapsto> b))"

definition store_c :: "u64 \<Rightarrow> block \<Rightarrow> heap \<Rightarrow> heap outcome" where
  "store_c a b h = (if a = 0 then Inl Null_Pointer else Inr (h(a \<mapsto> b)))"

definition free_c :: "u64 \<Rightarrow> heap \<Rightarrow> heap outcome" where
  "free_c a h = (if a = 0 then Inr h else if h a = None then Inl Invalid_Free else Inr (h(a := None)))"

definition load_struct :: "u64 \<Rightarrow> heap \<Rightarrow> tc_struct outcome" where
  "load_struct a h =
     (if a = 0 then Inl Null_Pointer
      else case h a of Some (Struct t) \<Rightarrow> Inr t | _ \<Rightarrow> Inl Uninitialised)"

subsection \<open>\<open>testcase.c\<close>\<close>

definition tc_create :: "mallocs \<Rightarrow> string \<Rightarrow> u64 \<Rightarrow> heap \<Rightarrow> (u64 \<times> heap) outcome" where
  "tc_create addr name data h =
     (let test = addr 0; h = malloc_c test Fresh h in
      bind_c (store_c test (Struct \<lparr>tb_name = name, tb_data = data, tb_init = None, tb_step = None\<rparr>) h)
        (\<lambda>h. Inr (test, h)))"

definition tc_finish :: "u64 \<Rightarrow> heap \<Rightarrow> heap outcome" where
  "tc_finish test h =
     (if test \<noteq> 0 then
        bind_c (load_struct test h) (\<lambda>t.
        bind_c (if tb_data t \<noteq> 0 then free_c (tb_data t) h else Inr h) (\<lambda>h.
          free_c test h))
      else Inr h)"

subsection \<open>The constructors\<close>

text \<open>
  What they share: the structure is allocated, then the data, and both are filled in. \<open>test_restarts\<close>
  allocates the data first and lets \<open>tc_create\<close> do the rest.
\<close>

definition new_test :: "mallocs \<Rightarrow> string \<Rightarrow> tc_kind \<Rightarrow> block \<Rightarrow> heap \<Rightarrow> (u64 \<times> heap) outcome" where
  "new_test addr name kind data h =
     (let tc = addr 0; h = malloc_c tc Fresh h;
          st = addr 1; h = malloc_c st Fresh h in
      bind_c (store_c st data h) (\<lambda>h.
      bind_c (store_c tc (Struct \<lparr>tb_name = name, tb_data = st, tb_init = Some kind, tb_step = Some kind\<rparr>) h) (\<lambda>h.
        Inr (tc, h))))"

definition new_getdesc :: "mallocs \<Rightarrow> heap \<Rightarrow> (u64 \<times> heap) outcome" where
  "new_getdesc addr = new_test addr ''GET DESCRIPTOR'' KGetdesc (Data (TcGetdesc SendSETUP))"

definition new_waitsof :: "mallocs \<Rightarrow> heap \<Rightarrow> (u64 \<times> heap) outcome" where
  "new_waitsof addr = new_test addr ''Wait for SOF'' KWaitsof (Data (TcWaitsof WaitIdle))"

definition new_bulkin :: "mallocs \<Rightarrow> u8 \<Rightarrow> heap \<Rightarrow> (u64 \<times> heap) outcome" where
  "new_bulkin addr ep = new_test addr ''BULK IN'' KBulkin (Data (TcBulkin (test_bulkin ep)))"

definition new_bulkout :: "mallocs \<Rightarrow> heap \<Rightarrow> (u64 \<times> heap) outcome" where
  "new_bulkout addr = new_test addr ''BULK OUT'' KBulkout (Data (TcBulkout BulkOUT0))"

definition new_ddr3in :: "mallocs \<Rightarrow> rand_t \<Rightarrow> u32 \<Rightarrow> heap \<Rightarrow> (u64 \<times> heap) outcome" where
  "new_ddr3in addr rnd a = new_test addr ''BULK DDR3 IN'' KDdr3in (Data (TcDdr3in (test_ddr3in rnd a)))"

definition new_ddr3out :: "mallocs \<Rightarrow> u32 \<Rightarrow> heap \<Rightarrow> (u64 \<times> heap) outcome" where
  "new_ddr3out addr a = new_test addr ''BULK DDR3 OUT'' KDdr3out (Data (TcDdr3out (test_ddr3out a)))"

definition new_parity :: "mallocs \<Rightarrow> heap \<Rightarrow> (u64 \<times> heap) outcome" where
  "new_parity addr = new_test addr ''BULK IN/OUT PARITY'' KParity (Data (TcParity test_parity))"

text \<open>Two constructors refuse some arguments, with \<open>NULL\<close> and without allocating.\<close>

definition new_setaddr :: "mallocs \<Rightarrow> u8 \<Rightarrow> heap \<Rightarrow> (u64 \<times> heap) outcome" where
  "new_setaddr addr a h =
     (case test_setaddr a of
        None \<Rightarrow> Inr (0, h)
      | Some st \<Rightarrow> new_test addr ''SET ADDRESS'' KSetaddr (Data (TcSetaddr st)) h)"

definition new_setconf :: "mallocs \<Rightarrow> u8 \<Rightarrow> heap \<Rightarrow> (u64 \<times> heap) outcome" where
  "new_setconf addr conf h =
     (case test_setconf conf of
        None \<Rightarrow> Inr (0, h)
      | Some st \<Rightarrow> new_test addr ''SET CONFIGURATION'' KSetconf (Data (TcSetconf st)) h)"

text \<open>Two allocate a buffer of 512 bytes of their own, after the structure and the data.\<close>

definition new_with_buf ::
  "mallocs \<Rightarrow> string \<Rightarrow> tc_kind \<Rightarrow> (u64 \<Rightarrow> testcase_t) \<Rightarrow> heap \<Rightarrow> (u64 \<times> heap) outcome" where
  "new_with_buf addr name kind data h =
     (let tc = addr 0; h = malloc_c tc Fresh h;
          st = addr 1; h = malloc_c st Fresh h in
      bind_c (store_c st Fresh h) (\<lambda>h.
        let buf = addr 2; h = malloc_c buf (Bytes 512) h in
        bind_c (store_c st (Data (data buf)) h) (\<lambda>h.
        bind_c (store_c tc (Struct \<lparr>tb_name = name, tb_data = st, tb_init = Some kind, tb_step = Some kind\<rparr>) h) (\<lambda>h.
          Inr (tc, h)))))"

definition new_getconf :: "mallocs \<Rightarrow> heap \<Rightarrow> (u64 \<times> heap) outcome" where
  "new_getconf addr =
     new_with_buf addr ''GET CONFIG DESCRIPTOR'' KGetconf (\<lambda>buf. TcGetconf (test_getconf buf))"

definition new_getstrs :: "mallocs \<Rightarrow> heap \<Rightarrow> (u64 \<times> heap) outcome" where
  "new_getstrs addr =
     new_with_buf addr ''GET STRING DESCRIPTOR'' KGetstrs (\<lambda>buf. TcGetstrs (test_getstrs buf))"

text \<open>The data of this one is not written before \<open>tc_restarts_init\<close>.\<close>

definition new_restarts :: "mallocs \<Rightarrow> heap \<Rightarrow> (u64 \<times> heap) outcome" where
  "new_restarts addr h =
     (let data = addr 0; h = malloc_c data Fresh h in
      bind_c (tc_create (\<lambda>k. addr (Suc k)) ''Link-restart test-case'' data h) (\<lambda>(test, h).
      bind_c (load_struct test h) (\<lambda>t.
      bind_c (store_c test (Struct (t\<lparr>tb_init := Some KRestarts, tb_step := Some KRestarts\<rparr>)) h) (\<lambda>h.
        Inr (test, h)))))"

subsection \<open>The registry\<close>

text \<open>
  The sixteen constructors \<open>ut_compiletf\<close> calls, each with the number of times it calls \<open>malloc\<close>.
\<close>

definition constructors :: "rand_t \<Rightarrow> (nat \<times> (mallocs \<Rightarrow> heap \<Rightarrow> (u64 \<times> heap) outcome)) list" where
  "constructors rnd =
     [(2, new_getdesc), (2, \<lambda>addr. new_setaddr addr 0x23), (3, new_getconf),
      (2, \<lambda>addr. new_setconf addr 0x01), (3, new_getstrs), (2, new_waitsof), (2, new_bulkout),
      (2, \<lambda>addr. new_ddr3out addr 0x02A8F0), (2, new_waitsof), (2, \<lambda>addr. new_ddr3in addr rnd 0x02A8F0),
      (2, new_bulkout), (2, \<lambda>addr. new_bulkin addr 1), (2, new_waitsof), (3, new_getconf),
      (2, new_parity), (2, new_waitsof)]"

primrec construct ::
  "(nat \<times> (mallocs \<Rightarrow> heap \<Rightarrow> (u64 \<times> heap) outcome)) list \<Rightarrow> mallocs \<Rightarrow> heap \<Rightarrow> (u64 list \<times> heap) outcome" where
  "construct [] addr h = Inr ([], h)"
| "construct (c # cs) addr h =
     bind_c (snd c addr h) (\<lambda>(p, h).
     bind_c (construct cs (\<lambda>k. addr (fst c + k)) h) (\<lambda>(ps, h). Inr (p # ps, h)))"

abbreviation NUM_TESTCASES :: nat where "NUM_TESTCASES \<equiv> 64"

text \<open>The array of the pointers comes first; then the tests are created and entered in it.\<close>

definition new_tests :: "mallocs \<Rightarrow> rand_t \<Rightarrow> heap \<Rightarrow> (u64 list \<times> heap) outcome" where
  "new_tests addr rnd h =
     (let tests = addr 0; h = malloc_c tests (Bytes (NUM_TESTCASES * 8)) h in
      if tests = 0 then Inl Null_Pointer
      else construct (constructors rnd) (\<lambda>k. addr (Suc k)) h)"

text \<open>
  What a pointer in the registry stands for: the data of its structure, if \<open>init\<close> and \<open>step\<close> are the
  routines of the file that declares this data, which is what \<open>test_init\<close> and \<open>test_advance\<close> rest on.
\<close>

primrec tc_kind_of :: "testcase_t \<Rightarrow> tc_kind" where
  "tc_kind_of (TcGetdesc d) = KGetdesc"
| "tc_kind_of (TcGetconf d) = KGetconf"
| "tc_kind_of (TcGetstrs d) = KGetstrs"
| "tc_kind_of (TcSetaddr d) = KSetaddr"
| "tc_kind_of (TcSetconf d) = KSetconf"
| "tc_kind_of (TcWaitsof d) = KWaitsof"
| "tc_kind_of (TcBulkin d) = KBulkin"
| "tc_kind_of (TcBulkout d) = KBulkout"
| "tc_kind_of (TcDdr3in d) = KDdr3in"
| "tc_kind_of (TcDdr3out d) = KDdr3out"
| "tc_kind_of (TcParity d) = KParity"

definition the_test :: "heap \<Rightarrow> u64 \<Rightarrow> testcase_t option" where
  "the_test h p =
     (if p = 0 then None
      else case h p of
        Some (Struct t) \<Rightarrow>
          (case h (tb_data t) of
            Some (Data d) \<Rightarrow>
              (if tb_init t = Some (tc_kind_of d) \<and> tb_step t = Some (tc_kind_of d) then Some d else None)
          | _ \<Rightarrow> None)
      | _ \<Rightarrow> None)"

primrec finish_all :: "u64 list \<Rightarrow> heap \<Rightarrow> heap outcome" where
  "finish_all [] h = Inr h"
| "finish_all (p # ps) h = bind_c (tc_finish p h) (finish_all ps)"

subsection \<open>What a constructor promises\<close>

text \<open>
  A constructor that gets \<open>n\<close> fresh blocks writes these and no others, whatever else is in memory; its
  pointer stands for \<open>d\<close>; and \<open>tc_finish\<close> gives back all of them but the buffer, if there is one.
\<close>

definition fresh_blocks :: "mallocs \<Rightarrow> nat \<Rightarrow> bool" where
  "fresh_blocks addr n \<longleftrightarrow> inj_on addr {..<n} \<and> 0 \<notin> addr ` {..<n}"

definition builds :: "(mallocs \<Rightarrow> heap \<Rightarrow> (u64 \<times> heap) outcome) \<Rightarrow> nat \<Rightarrow> (mallocs \<Rightarrow> testcase_t) \<Rightarrow>
    (mallocs \<Rightarrow> heap) \<Rightarrow> bool" where
  "builds new n d kept \<longleftrightarrow> (\<forall>addr. fresh_blocks addr n \<longrightarrow> (\<exists>M. dom M = addr ` {..<n} \<and> kept addr \<subseteq>\<^sub>m M \<and>
     addr 0 \<noteq> 0 \<and> the_test M (addr 0) = Some (d addr) \<and>
     (\<forall>h. dom h \<inter> dom M = {} \<longrightarrow> new addr h = Inr (addr 0, h ++ M) \<and>
        tc_finish (addr 0) (h ++ M) = Inr (h ++ kept addr))))"

lemma new_test_builds:
  assumes "\<And>addr h. new addr h = new_test addr name kind (Data (d addr)) h"
    and "\<And>addr. kind = tc_kind_of (d addr)"
  shows "builds new 2 d (\<lambda>_. Map.empty)"
  unfolding builds_def
proof (intro allI impI)
  fix addr :: mallocs
  assume "fresh_blocks addr 2"
  then have a: "addr 0 \<noteq> 0" "addr 1 \<noteq> 0" "addr 0 \<noteq> addr 1"
    by (auto simp: fresh_blocks_def numeral_2_eq_2 lessThan_Suc)
  let ?s = "Struct \<lparr>tb_name = name, tb_data = addr 1, tb_init = Some kind, tb_step = Some kind\<rparr>"
  let ?M = "[addr 1 \<mapsto> Data (d addr), addr 0 \<mapsto> ?s]"
  have dom: "dom ?M = addr ` {..<2}" by (auto simp: numeral_2_eq_2 lessThan_Suc)
  have run: "new addr h = Inr (addr 0, h ++ ?M) \<and> tc_finish (addr 0) (h ++ ?M) = Inr (h ++ Map.empty)"
    if "dom h \<inter> dom ?M = {}" for h
  proof -
    have n: "h (addr 0) = None" "h (addr 1) = None" using that by (auto simp: domIff)
    have "new addr h = Inr (addr 0, h ++ ?M)"
      using a by (simp add: assms(1) new_test_def malloc_c_def store_c_def Let_def fun_upd_twist)
    moreover have "(h ++ ?M)(addr 1 := None, addr 0 := None) = h"
      using n a by (auto simp: fun_eq_iff)
    then have "tc_finish (addr 0) (h ++ ?M) = Inr h"
      using a by (simp add: tc_finish_def load_struct_def free_c_def)
    ultimately show ?thesis by simp
  qed
  have test: "the_test ?M (addr 0) = Some (d addr)" using a assms(2) by (simp add: the_test_def)
  have le: "Map.empty \<subseteq>\<^sub>m ?M" by simp
  show "\<exists>M. dom M = addr ` {..<2} \<and> Map.empty \<subseteq>\<^sub>m M \<and> addr 0 \<noteq> 0 \<and> the_test M (addr 0) = Some (d addr) \<and>
     (\<forall>h. dom h \<inter> dom M = {} \<longrightarrow> new addr h = Inr (addr 0, h ++ M) \<and>
        tc_finish (addr 0) (h ++ M) = Inr (h ++ Map.empty))"
    by (rule exI [of _ ?M], intro conjI allI impI) (use dom a(1) test le run in blast)+
qed

lemma new_with_buf_builds:
  assumes "\<And>buf. kind = tc_kind_of (d buf)"
  shows "builds (\<lambda>addr. new_with_buf addr name kind d) 3 (\<lambda>addr. d (addr 2)) (\<lambda>addr. [addr 2 \<mapsto> Bytes 512])"
  unfolding builds_def
proof (intro allI impI)
  fix addr :: mallocs
  assume "fresh_blocks addr 3"
  then have a: "addr 0 \<noteq> 0" "addr 1 \<noteq> 0" "addr 2 \<noteq> 0" "addr 0 \<noteq> addr 1" "addr 0 \<noteq> addr 2" "addr 1 \<noteq> addr 2"
    by (auto simp: fresh_blocks_def numeral_3_eq_3 numeral_2_eq_2 lessThan_Suc)
  let ?s = "Struct \<lparr>tb_name = name, tb_data = addr 1, tb_init = Some kind, tb_step = Some kind\<rparr>"
  let ?M = "[addr 2 \<mapsto> Bytes 512, addr 1 \<mapsto> Data (d (addr 2)), addr 0 \<mapsto> ?s]"
  have dom: "dom ?M = addr ` {..<3}" by (auto simp: numeral_3_eq_3 numeral_2_eq_2 lessThan_Suc)
  have run: "new_with_buf addr name kind d h = Inr (addr 0, h ++ ?M) \<and>
      tc_finish (addr 0) (h ++ ?M) = Inr (h ++ [addr 2 \<mapsto> Bytes 512])"
    if "dom h \<inter> dom ?M = {}" for h
  proof -
    have n: "h (addr 0) = None" "h (addr 1) = None" using that by (auto simp: domIff)
    have "h(addr 0 \<mapsto> Fresh, addr 1 \<mapsto> Fresh, addr 1 \<mapsto> Fresh, addr 2 \<mapsto> Bytes 512,
        addr 1 \<mapsto> Data (d (addr 2)), addr 0 \<mapsto> ?s) = h ++ ?M"
      by (auto simp: fun_eq_iff)
    then have "new_with_buf addr name kind d h = Inr (addr 0, h ++ ?M)"
      using a by (simp add: new_with_buf_def malloc_c_def store_c_def Let_def)
    moreover have "(h ++ ?M)(addr 1 := None, addr 0 := None) = h ++ [addr 2 \<mapsto> Bytes 512]"
      using n a by (auto simp: fun_eq_iff)
    then have "tc_finish (addr 0) (h ++ ?M) = Inr (h ++ [addr 2 \<mapsto> Bytes 512])"
      using a by (simp add: tc_finish_def load_struct_def free_c_def)
    ultimately show ?thesis by simp
  qed
  have test: "the_test ?M (addr 0) = Some (d (addr 2))" using a assms by (simp add: the_test_def)
  have le: "[addr 2 \<mapsto> Bytes 512] \<subseteq>\<^sub>m ?M" using a by (simp add: map_le_def)
  show "\<exists>M. dom M = addr ` {..<3} \<and> [addr 2 \<mapsto> Bytes 512] \<subseteq>\<^sub>m M \<and> addr 0 \<noteq> 0 \<and>
     the_test M (addr 0) = Some (d (addr 2)) \<and>
     (\<forall>h. dom h \<inter> dom M = {} \<longrightarrow> new_with_buf addr name kind d h = Inr (addr 0, h ++ M) \<and>
        tc_finish (addr 0) (h ++ M) = Inr (h ++ [addr 2 \<mapsto> Bytes 512]))"
    by (rule exI [of _ ?M], intro conjI allI impI) (use dom a(1) test le run in blast)+
qed

text \<open>The constructors of the registry.\<close>

lemma constructors_build:
  "builds new_getdesc 2 (\<lambda>_. TcGetdesc SendSETUP) (\<lambda>_. Map.empty)"
  "builds (\<lambda>addr. new_setaddr addr 0x23) 2 (\<lambda>_. TcSetaddr (the (test_setaddr 0x23))) (\<lambda>_. Map.empty)"
  "builds new_getconf 3 (\<lambda>addr. TcGetconf (test_getconf (addr 2))) (\<lambda>addr. [addr 2 \<mapsto> Bytes 512])"
  "builds (\<lambda>addr. new_setconf addr 0x01) 2 (\<lambda>_. TcSetconf (the (test_setconf 0x01))) (\<lambda>_. Map.empty)"
  "builds new_getstrs 3 (\<lambda>addr. TcGetstrs (test_getstrs (addr 2))) (\<lambda>addr. [addr 2 \<mapsto> Bytes 512])"
  "builds new_waitsof 2 (\<lambda>_. TcWaitsof WaitIdle) (\<lambda>_. Map.empty)"
  "builds new_bulkout 2 (\<lambda>_. TcBulkout BulkOUT0) (\<lambda>_. Map.empty)"
  "builds (\<lambda>addr. new_ddr3out addr a) 2 (\<lambda>_. TcDdr3out (test_ddr3out a)) (\<lambda>_. Map.empty)"
  "builds (\<lambda>addr. new_ddr3in addr rnd a) 2 (\<lambda>_. TcDdr3in (test_ddr3in rnd a)) (\<lambda>_. Map.empty)"
  "builds (\<lambda>addr. new_bulkin addr ep) 2 (\<lambda>_. TcBulkin (test_bulkin ep)) (\<lambda>_. Map.empty)"
  "builds new_parity 2 (\<lambda>_. TcParity test_parity) (\<lambda>_. Map.empty)"
  unfolding new_getconf_def new_getstrs_def
  by (rule new_with_buf_builds new_test_builds;
      simp add: new_getdesc_def new_setaddr_def new_setconf_def new_waitsof_def new_bulkout_def new_ddr3out_def
        new_ddr3in_def new_bulkin_def new_parity_def test_setaddr_def test_setconf_def)+

text \<open>\<open>test_restarts\<close>, which the bench does not use, keeps no buffer; its data is not a \<open>testcase_t\<close> of the registry.\<close>

lemma restarts_finish:
  assumes "fresh_blocks addr 2" and "h (addr 0) = None" and "h (addr 1) = None"
  shows "bind_c (new_restarts addr h) (\<lambda>(test, h'). tc_finish test h') = Inr h"
proof -
  have a: "addr 0 \<noteq> 0" "addr (Suc 0) \<noteq> 0" "addr 0 \<noteq> addr (Suc 0)"
    using assms(1) by (auto simp: fresh_blocks_def numeral_2_eq_2 lessThan_Suc)
  then show ?thesis
    using assms(2,3)
    by (auto simp: new_restarts_def tc_create_def malloc_c_def store_c_def load_struct_def tc_finish_def free_c_def
      Let_def fun_eq_iff)
qed

subsection \<open>Lists of constructors\<close>

type_synonym ctor = "(mallocs \<Rightarrow> heap \<Rightarrow> (u64 \<times> heap) outcome) \<times> nat \<times> (mallocs \<Rightarrow> testcase_t) \<times> (mallocs \<Rightarrow> heap)"

abbreviation shift :: "mallocs \<Rightarrow> nat \<Rightarrow> mallocs" where
  "shift addr n \<equiv> (\<lambda>k. addr (n + k))"

fun blocks :: "ctor list \<Rightarrow> nat" where
  "blocks [] = 0"
| "blocks ((c, n, d, k) # cs) = n + blocks cs"

fun datas :: "ctor list \<Rightarrow> mallocs \<Rightarrow> testcase_t list" where
  "datas [] addr = []"
| "datas ((c, n, d, k) # cs) addr = d addr # datas cs (shift addr n)"

fun keeps :: "ctor list \<Rightarrow> mallocs \<Rightarrow> heap" where
  "keeps [] addr = Map.empty"
| "keeps ((c, n, d, k) # cs) addr = k addr ++ keeps cs (shift addr n)"

lemma fresh_blocks_add:
  assumes "fresh_blocks addr (m + n)"
  shows "fresh_blocks addr m" "fresh_blocks (shift addr m) n"
    and "addr ` {..<m} \<inter> shift addr m ` {..<n} = {}"
    and "addr ` {..<m + n} = addr ` {..<m} \<union> shift addr m ` {..<n}"
proof -
  have split: "i < m + n \<longleftrightarrow> i < m \<or> (\<exists>k<n. i = m + k)" for i by presburger
  show "addr ` {..<m + n} = addr ` {..<m} \<union> shift addr m ` {..<n}"
    unfolding image_def lessThan_iff bex_simps(8) Bex_def split by blast
  show "fresh_blocks addr m"
    using assms by (auto simp: fresh_blocks_def intro: inj_on_subset)
  have "x = y" if "x < n" "y < n" "addr (m + x) = addr (m + y)" for x y
    using assms that unfolding fresh_blocks_def by (auto dest!: inj_onD [where x = "m + x" and y = "m + y"])
  moreover have "addr (m + x) \<noteq> 0" if "x < n" for x
    using assms that unfolding fresh_blocks_def by force
  ultimately show "fresh_blocks (shift addr m) n"
    unfolding fresh_blocks_def by (auto simp: inj_on_def)
  have "addr x \<noteq> addr (m + y)" if "x < m" "y < n" for x y
    using assms that unfolding fresh_blocks_def by (auto dest!: inj_onD [where x = x and y = "m + y"])
  then show "addr ` {..<m} \<inter> shift addr m ` {..<n} = {}" by auto
qed

lemma the_test_mono:
  assumes "the_test M p = Some d" and "M \<subseteq>\<^sub>m H"
  shows "the_test H p = Some d"
proof -
  obtain t where t: "p \<noteq> 0" "M p = Some (Struct t)" "M (tb_data t) = Some (Data d)"
      "tb_init t = Some (tc_kind_of d)" "tb_step t = Some (tc_kind_of d)"
    using assms(1) by (auto simp: the_test_def split: if_splits option.splits block.splits)
  then have "H p = M p" "H (tb_data t) = M (tb_data t)"
    using assms(2) by (auto simp: map_le_def dom_def)
  then show ?thesis using t by (simp add: the_test_def)
qed

lemma map_le_add: "M \<subseteq>\<^sub>m H \<Longrightarrow> dom H \<inter> dom N = {} \<Longrightarrow> M \<subseteq>\<^sub>m H ++ N"
  by (metis map_add_comm map_le_map_add map_le_trans)

lemma construct_builds:
  assumes "list_all (\<lambda>(c, n, d, k). builds c n d k) cs" and "fresh_blocks addr (blocks cs)"
  shows "\<exists>M ps. dom M = addr ` {..<blocks cs} \<and> keeps cs addr \<subseteq>\<^sub>m M \<and> (\<forall>h. dom h \<inter> dom M = {} \<longrightarrow>
    construct (map (\<lambda>(c, n, d, k). (n, c)) cs) addr h = Inr (ps, h ++ M) \<and>
    map (the_test (h ++ M)) ps = map Some (datas cs addr) \<and>
    finish_all ps (h ++ M) = Inr (h ++ keeps cs addr))"
  using assms
proof (induction cs arbitrary: addr)
  case Nil
  then show ?case by (intro exI [of _ Map.empty] exI [of _ "[]"]) simp
next
  case (Cons x cs)
  obtain c n d k where x: "x = (c, n, d, k)" by (cases x)
  have b: "builds c n d k" and bs: "list_all (\<lambda>(c, n, d, k). builds c n d k) cs"
    using Cons.prems(1) x by simp_all
  have "fresh_blocks addr (n + blocks cs)" using Cons.prems(2) x by simp
  note fresh = fresh_blocks_add [OF this]
  obtain M1 where m: "dom M1 = addr ` {..<n} \<and> k addr \<subseteq>\<^sub>m M1 \<and> addr 0 \<noteq> 0 \<and>
      the_test M1 (addr 0) = Some (d addr) \<and> (\<forall>h. dom h \<inter> dom M1 = {} \<longrightarrow>
        c addr h = Inr (addr 0, h ++ M1) \<and> tc_finish (addr 0) (h ++ M1) = Inr (h ++ k addr))"
    using b [unfolded builds_def, rule_format, OF fresh(1)] by (rule exE)
  then have M1: "dom M1 = addr ` {..<n}" "k addr \<subseteq>\<^sub>m M1" "the_test M1 (addr 0) = Some (d addr)"
    "\<And>h. dom h \<inter> dom M1 = {} \<Longrightarrow> c addr h = Inr (addr 0, h ++ M1)"
    "\<And>h. dom h \<inter> dom M1 = {} \<Longrightarrow> tc_finish (addr 0) (h ++ M1) = Inr (h ++ k addr)"
    by simp_all
  obtain M2 ps where M2: "dom M2 = shift addr n ` {..<blocks cs}" "keeps cs (shift addr n) \<subseteq>\<^sub>m M2"
    "\<And>h. dom h \<inter> dom M2 = {} \<Longrightarrow>
       construct (map (\<lambda>(c, n, d, k). (n, c)) cs) (shift addr n) h = Inr (ps, h ++ M2)"
    "\<And>h. dom h \<inter> dom M2 = {} \<Longrightarrow> map (the_test (h ++ M2)) ps = map Some (datas cs (shift addr n))"
    "\<And>h. dom h \<inter> dom M2 = {} \<Longrightarrow> finish_all ps (h ++ M2) = Inr (h ++ keeps cs (shift addr n))"
    using Cons.IH [OF bs fresh(2)] by blast
  have disj: "dom M1 \<inter> dom M2 = {}" using fresh(3) M1(1) M2(1) by simp
  have kdom: "dom (k addr) \<subseteq> dom M1" using M1(2) by (rule map_le_implies_dom_le)
  have run: "construct (map (\<lambda>(c, n, d, k). (n, c)) (x # cs)) addr h = Inr (addr 0 # ps, h ++ (M1 ++ M2)) \<and>
      map (the_test (h ++ (M1 ++ M2))) (addr 0 # ps) = map Some (datas (x # cs) addr) \<and>
      finish_all (addr 0 # ps) (h ++ (M1 ++ M2)) = Inr (h ++ keeps (x # cs) addr)"
    if "dom h \<inter> dom (M1 ++ M2) = {}" for h
  proof (intro conjI)
    have h: "dom h \<inter> dom M1 = {}" "dom (h ++ M1) \<inter> dom M2 = {}" "dom (h ++ M2) \<inter> dom M1 = {}"
      "dom (h ++ k addr) \<inter> dom M2 = {}"
      using that disj kdom by (auto simp: disjoint_iff subset_iff)
    show "construct (map (\<lambda>(c, n, d, k). (n, c)) (x # cs)) addr h = Inr (addr 0 # ps, h ++ (M1 ++ M2))"
      using M1(4) [OF h(1)] M2(3) [OF h(2)] by (simp add: x)
    have "M1 \<subseteq>\<^sub>m h ++ M1 ++ M2" by (rule map_le_add [OF _ h(2)]) simp
    from the_test_mono [OF M1(3) this] M2(4) [OF h(2)]
    show "map (the_test (h ++ (M1 ++ M2))) (addr 0 # ps) = map Some (datas (x # cs) addr)" by (simp add: x)
    have "h ++ (M1 ++ M2) = (h ++ M2) ++ M1"
      using map_add_comm [OF disj] by simp
    moreover have "(h ++ M2) ++ k addr = (h ++ k addr) ++ M2"
      using kdom disj map_add_comm [of M2 "k addr"] by (metis (no_types, lifting) Int_commute disjoint_iff map_add_assoc subsetD)
    ultimately show "finish_all (addr 0 # ps) (h ++ (M1 ++ M2)) = Inr (h ++ keeps (x # cs) addr)"
      using M1(5) [OF h(3)] M2(5) [OF h(4)] by (simp add: x)
  qed
  have "dom (M1 ++ M2) = addr ` {..<blocks (x # cs)}" using fresh(4) M1(1) M2(1) by (simp add: x Un_commute)
  moreover have "keeps (x # cs) addr \<subseteq>\<^sub>m M1 ++ M2"
    using map_add_le_mapI [OF map_le_add [OF M1(2) disj] map_le_trans [OF M2(2) map_le_map_add]] by (simp add: x)
  ultimately show ?case using run by blast
qed

subsection \<open>The registry in memory\<close>

definition registry :: "rand_t \<Rightarrow> ctor list" where
  "registry rnd =
     [(new_getdesc, 2, \<lambda>_. TcGetdesc SendSETUP, \<lambda>_. Map.empty),
      (\<lambda>addr. new_setaddr addr 0x23, 2, \<lambda>_. TcSetaddr (the (test_setaddr 0x23)), \<lambda>_. Map.empty),
      (new_getconf, 3, \<lambda>addr. TcGetconf (test_getconf (addr 2)), \<lambda>addr. [addr 2 \<mapsto> Bytes 512]),
      (\<lambda>addr. new_setconf addr 0x01, 2, \<lambda>_. TcSetconf (the (test_setconf 0x01)), \<lambda>_. Map.empty),
      (new_getstrs, 3, \<lambda>addr. TcGetstrs (test_getstrs (addr 2)), \<lambda>addr. [addr 2 \<mapsto> Bytes 512]),
      (new_waitsof, 2, \<lambda>_. TcWaitsof WaitIdle, \<lambda>_. Map.empty),
      (new_bulkout, 2, \<lambda>_. TcBulkout BulkOUT0, \<lambda>_. Map.empty),
      (\<lambda>addr. new_ddr3out addr 0x02A8F0, 2, \<lambda>_. TcDdr3out (test_ddr3out 0x02A8F0), \<lambda>_. Map.empty),
      (new_waitsof, 2, \<lambda>_. TcWaitsof WaitIdle, \<lambda>_. Map.empty),
      (\<lambda>addr. new_ddr3in addr rnd 0x02A8F0, 2, \<lambda>_. TcDdr3in (test_ddr3in rnd 0x02A8F0), \<lambda>_. Map.empty),
      (new_bulkout, 2, \<lambda>_. TcBulkout BulkOUT0, \<lambda>_. Map.empty),
      (\<lambda>addr. new_bulkin addr 1, 2, \<lambda>_. TcBulkin (test_bulkin 1), \<lambda>_. Map.empty),
      (new_waitsof, 2, \<lambda>_. TcWaitsof WaitIdle, \<lambda>_. Map.empty),
      (new_getconf, 3, \<lambda>addr. TcGetconf (test_getconf (addr 2)), \<lambda>addr. [addr 2 \<mapsto> Bytes 512]),
      (new_parity, 2, \<lambda>_. TcParity test_parity, \<lambda>_. Map.empty),
      (new_waitsof, 2, \<lambda>_. TcWaitsof WaitIdle, \<lambda>_. Map.empty)]"

lemma registry_facts:
  "list_all (\<lambda>(c, n, d, k). builds c n d k) (registry rnd)"
  "map (\<lambda>(c, n, d, k). (n, c)) (registry rnd) = constructors rnd"
  "blocks (registry rnd) = 35"
  "map Some (datas (registry rnd) (shift addr 1)) = ut_tests rnd (addr 7, addr 12, addr 31)"
  "keeps (registry rnd) (shift addr 1) = [addr 7 \<mapsto> Bytes 512, addr 12 \<mapsto> Bytes 512, addr 31 \<mapsto> Bytes 512]"
proof -
  show "list_all (\<lambda>(c, n, d, k). builds c n d k) (registry rnd)"
    unfolding registry_def list.pred_inject prod.case
    by (intro conjI constructors_build TrueI list.pred_inject(1))
qed (simp_all add: registry_def constructors_def ut_tests_def test_setaddr_def test_setconf_def)

text \<open>
  (C18) The registry of test-cases in memory. If \<open>malloc\<close> returns fresh blocks, the constructors that
  \<open>ut_compiletf\<close> calls build, block by block, the sixteen test-cases that the other theories take as
  values, each with the \<open>init\<close> and \<open>step\<close> of its own file. Finishing all of them frees no block twice and none that is not theirs, and leaves what was
  in memory before, the array of the pointers, and the three buffers of the
  configuration and string tests, which \<open>tc_finish\<close> does not know.
\<close>

theorem registry_memory:
  assumes "inj_on addr {..<36}" and "\<forall>k<36. addr k \<noteq> 0 \<and> h (addr k) = None"
  shows "\<exists>ps h'. new_tests addr rnd h = Inr (ps, h') \<and>
    map (the_test h') ps = ut_tests rnd (addr 7, addr 12, addr 31) \<and>
    finish_all ps h' = Inr (h(addr 0 \<mapsto> Bytes 512, addr 7 \<mapsto> Bytes 512, addr 12 \<mapsto> Bytes 512,
      addr 31 \<mapsto> Bytes 512))"
proof -
  have f: "fresh_blocks addr (1 + 35)"
    using assms by (auto simp: fresh_blocks_def)
  note fresh = fresh_blocks_add [OF f]
  let ?h = "h(addr 0 \<mapsto> Bytes 512)"
  obtain M ps where M: "dom M = shift addr 1 ` {..<35}"
    "\<And>h. dom h \<inter> dom M = {} \<Longrightarrow> construct (constructors rnd) (shift addr 1) h = Inr (ps, h ++ M) \<and>
      map (the_test (h ++ M)) ps = ut_tests rnd (addr 7, addr 12, addr 31) \<and>
      finish_all ps (h ++ M) = Inr (h ++ [addr 7 \<mapsto> Bytes 512, addr 12 \<mapsto> Bytes 512, addr 31 \<mapsto> Bytes 512])"
    using construct_builds [OF registry_facts(1), of "shift addr 1" rnd] fresh(2)
    unfolding registry_facts(2-5) by blast
  have "h (addr k) = None" if "k < 36" for k using assms(2) that by blast
  then have "dom ?h \<inter> dom M = {}"
    using M(1) fresh(3) by (auto simp: domIff)
  from M(2) [OF this] show ?thesis
    using assms(2) by (intro exI [of _ ps] exI [of _ "?h ++ M"]) (simp add: new_tests_def malloc_c_def Let_def)
qed

lemma registry_memory_witness:
  "\<exists>ps h'. new_tests (\<lambda>k. 0x1000 * of_nat (Suc k)) (\<lambda>_. 5) Map.empty = Inr (ps, h') \<and>
    map (the_test h') ps = ut_tests (\<lambda>_. 5) (0x8000, 0xD000, 0x20000) \<and>
    finish_all ps h' = Inr [0x1000 \<mapsto> Bytes 512, 0x8000 \<mapsto> Bytes 512, 0xD000 \<mapsto> Bytes 512, 0x20000 \<mapsto> Bytes 512]"
proof -
  have u: "unat (0x1000 * of_nat (Suc k) :: u64) = 0x1000 * Suc k" if "k < 36" for k
    using that by (simp add: unat_word_ariths unat_of_nat del: of_nat_Suc) 
  have "inj_on (\<lambda>k. 0x1000 * of_nat (Suc k) :: u64) {..<36}"
    by (rule inj_onI) (metis u lessThan_iff mult_left_cancel nat.inject numeral_neq_zero)
  moreover have "\<forall>k<36. (0x1000 * of_nat (Suc k) :: u64) \<noteq> 0 \<and> Map.empty (0x1000 * of_nat (Suc k) :: u64) = None"
    using u by (metis mult_is_0 nat.distinct(1) numeral_neq_zero unsigned_0)
  ultimately show ?thesis
    using registry_memory [of "\<lambda>k. 0x1000 * of_nat (Suc k)" Map.empty "\<lambda>_. 5"] by simp
qed

end
