(* ===== verification/Messages.thy ===== *)
theory Messages
  imports Usbhost
begin

text \<open>
  The messages of \<open>src/vpi/usb/ulpi.c\<close> and \<open>src/vpi/usb/usbhost.c\<close> that are built with
  \<open>sprintf\<close> in buffers of a fixed size: their text, and the sizes that it needs. How \<open>%p\<close> writes a
  pointer is left open by C; it is the parameter \<open>ptr\<close>.
\<close>

subsection \<open>Conversions of \<open>printf\<close>\<close>

text \<open>\<open>radix ds n\<close> writes \<open>n\<close> with the digits \<open>ds\<close>, in the base that is their number.\<close>

function radix :: "string \<Rightarrow> nat \<Rightarrow> string" where
  "radix ds n = (if length ds < 2 \<or> n < length ds then [ds ! n]
     else radix ds (n div length ds) @ [ds ! (n mod length ds)])"
  by pat_completeness auto
termination
  by (relation "measure snd") auto

declare radix.simps [simp del]

abbreviation dec :: "nat \<Rightarrow> string" where "dec \<equiv> radix ''0123456789''"
abbreviation hex :: "nat \<Rightarrow> string" where "hex \<equiv> radix ''0123456789abcdef''"
abbreviation HEX :: "nat \<Rightarrow> string" where "HEX \<equiv> radix ''0123456789ABCDEF''"

text \<open>\<open>%d\<close>, and the padding of \<open>%04x\<close>.\<close>

definition sdec :: "int \<Rightarrow> string" where
  "sdec i = (if i < 0 then ''-'' @ dec (nat (- i)) else dec (nat i))"

definition zeros :: "nat \<Rightarrow> string \<Rightarrow> string" where
  "zeros w s = replicate (w - length s) (CHR ''0'') @ s"

abbreviation nl :: string where "nl \<equiv> [CHR 0x0A]"
abbreviation tab :: string where "tab \<equiv> [CHR 0x09]"

text \<open>
  \<open>sprintf\<close> into \<open>cap\<close> bytes, the terminating zero among them; and the string that a terminated
  array of characters holds.
\<close>

definition to_buf :: "nat \<Rightarrow> string \<Rightarrow> string outcome" where
  "to_buf cap s = (if length s < cap then Inr s else Inl Out_Of_Bounds)"

definition c_str :: "char list \<Rightarrow> string" where
  "c_str cells = takeWhile (\<lambda>c. c \<noteq> CHR 0x00) cells"

type_synonym ptr_fmt = "u64 \<Rightarrow> string"

text \<open>The digits of a number give it back, and how many they are.\<close>

definition digit_value :: "string \<Rightarrow> char \<Rightarrow> nat" where
  "digit_value ds c = length (takeWhile (\<lambda>d. d \<noteq> c) ds)"

lemma digit_value_nth:
  assumes "distinct ds" and "k < length ds"
  shows "digit_value ds (ds ! k) = k"
proof -
  have "takeWhile (\<lambda>d. d \<noteq> ds ! k) ds = take k ds"
    by (rule takeWhile_eq_take_P_nth) (use assms in \<open>auto simp: nth_eq_iff_index_eq\<close>)
  then show ?thesis using assms(2) by (simp add: digit_value_def)
qed

lemma radix_value:
  assumes "distinct ds" and "2 \<le> length ds"
  shows "foldl (\<lambda>a c. a * length ds + digit_value ds c) 0 (radix ds n) = n"
proof (induction n rule: less_induct)
  case (less n)
  show ?case
  proof (cases "n < length ds")
    case True
    moreover have "ds \<noteq> []" using assms(2) by (cases ds) simp_all
    ultimately show ?thesis using assms(1) by (simp add: radix.simps [of ds n] digit_value_nth)
  next
    case False
    have "0 < n" using False assms(2) by linarith
    moreover have "1 < length ds" using assms(2) by linarith
    ultimately have "n div length ds < n" by (intro div_less_dividend)
    moreover have "n mod length ds < length ds" by (rule mod_less_divisor) (use assms(2) in linarith)
    ultimately show ?thesis
      using less False assms by (simp add: radix.simps [of ds n] digit_value_nth)
  qed
qed

lemma radix_length:
  assumes "2 \<le> length ds"
  shows "n < length ds ^ Suc k \<Longrightarrow> length (radix ds n) \<le> Suc k"
proof (induction k arbitrary: n)
  case 0
  then show ?case by (simp add: radix.simps [of ds n])
next
  case (Suc k)
  have "n div length ds < length ds ^ Suc k" using Suc.prems assms
    by (intro less_mult_imp_div_less) (simp add: mult.commute)
  then show ?case using Suc.IH [of "n div length ds"] by (simp add: radix.simps [of ds n])
qed

lemma digits_length: "length ''0123456789'' = 10" "length ''0123456789abcdef'' = 16" "length ''0123456789ABCDEF'' = 16"
  by simp_all

lemma dec_length: "n < 10 ^ Suc k \<Longrightarrow> length (dec n) \<le> Suc k"
  by (rule radix_length [of "''0123456789''", unfolded digits_length]) simp

lemma hex_length: "n < 16 ^ Suc k \<Longrightarrow> length (hex n) \<le> Suc k"
  by (rule radix_length [of "''0123456789abcdef''", unfolded digits_length]) simp

lemma dec_byte: "length (dec (unat (b :: u8))) \<le> 3"
  using dec_length [of "unat b" 2] unsigned_less [of b, where 'a = nat] by simp

lemma dec_half: "length (dec (unat (b :: u16))) \<le> 5"
  using dec_length [of "unat b" 4] unsigned_less [of b, where 'a = nat] by simp

lemma dec_word: "length (dec (unat (w :: u32))) \<le> 10"
  using dec_length [of "unat w" 9] unsigned_less [of w, where 'a = nat] by simp

lemma dec_long: "length (dec (unat (w :: u64))) \<le> 20"
  using dec_length [of "unat w" 19] unsigned_less [of w, where 'a = nat] by simp

lemma sdec_int:
  assumes "- (2 ^ 31) \<le> i" and "i < 2 ^ 31"
  shows "length (sdec i) \<le> 11"
proof -
  have "nat (- i) < 10 ^ Suc 9" "nat i < 10 ^ Suc 9" using assms by auto
  from this [THEN dec_length] show ?thesis by (simp add: sdec_def)
qed

lemma zeros_length: "length s \<le> w \<Longrightarrow> length (zeros w s) = w"
  by (simp add: zeros_def)

lemma hex_half: "length (zeros 4 (hex (unat (w :: u16)))) = 4"
  using hex_length [of "unat w" 3] unsigned_less [of w, where 'a = nat] by (intro zeros_length) simp

subsection \<open>Transfers and buses\<close>

definition type_strings :: "string list" where
  "type_strings = [''XferIdle'', ''NOPID'', ''RegWrite'', ''RegRead'', ''SETUP'', ''OUT'', ''IN'', ''SOF'',
     ''PING'', ''DnDATA0'', ''DnDATA1'', ''DnACK'', ''UpACK'', ''UpNYET'', ''UpNAK'', ''UpSTALL'', ''UpDATA0'',
     ''UpDATA1'', ''TimeOut'']"

definition stage_strings :: "string list" where
  "stage_strings = [''NoXfer'', ''AssertDir'', ''InitRXCMD'', ''TokenPID'', ''Token1'', ''Token2'', ''HskPID'',
     ''HskStop'', ''DATAxPID'', ''DATAxBody'', ''DATAxCRC1'', ''DATAxCRC2'', ''DATAxStop'', ''ULPITurn'',
     ''EndRXCMD'', ''EOP'', ''REGW'', ''REGR'', ''REGD'', ''LineIdle'']"

definition transfer_type_string :: "transfer_t \<Rightarrow> string" where
  "transfer_type_string xfer = type_strings ! xfer_type_val (x_type xfer)"

text \<open>
  The loop over \<open>ep_seq\<close>: the toggles as a bit mask, or \<open>None\<close> when one of them is neither 0
  nor 1, at which the loop ends.
\<close>

primrec seq_mask :: "nat \<Rightarrow> bit_t list \<Rightarrow> u16 \<Rightarrow> u16 option" where
  "seq_mask i [] v = Some v"
| "seq_mask i (s # ss) v =
     (if s = 0 then seq_mask (Suc i) ss v
      else if s > 1 then None
      else seq_mask (Suc i) ss (v OR push_bit i 1))"

definition seq_string :: "transfer_t \<Rightarrow> string" where
  "seq_string xfer =
     (case seq_mask 0 (take 16 (x_ep_seq xfer)) 0 of
        None \<Rightarrow> ''0xXXXX''
      | Some v \<Rightarrow> ''0x'' @ zeros 4 (hex (unat v)))"

text \<open>\<open>tx\<close> and \<open>rx\<close> are the addresses of the two arrays of the transfer.\<close>

definition transfer_string :: "ptr_fmt \<Rightarrow> u64 \<Rightarrow> u64 \<Rightarrow> transfer_t \<Rightarrow> string outcome" where
  "transfer_string ptr tx rx xfer =
     (let tok = push_bit 8 (ucast (x_tok2 xfer)) OR ucast (x_tok1 xfer) :: u16;
          crc = push_bit 8 (ucast (x_crc2 xfer)) OR ucast (x_crc1 xfer) :: u16 in
      bind_c (to_buf 7 (seq_string xfer)) (\<lambda>seq_str.
        to_buf 256
          (''addr: '' @ dec (unat (x_address xfer)) @ '', ep: '' @ dec (unat (x_endpoint xfer)) @
           '', type: '' @ dec (xfer_type_val (x_type xfer)) @
           '' ('' @ type_strings ! xfer_type_val (x_type xfer) @ ''), stage: '' @
           dec (xfer_stage_val (x_stage xfer)) @
           '' ('' @ stage_strings ! xfer_stage_val (x_stage xfer) @ ''), ep_seq: '' @ seq_str @
           '', cycle: '' @ dec (unat (x_cycle xfer)) @ '', tx: <'' @ ptr tx @
           ''>, tx_len: '' @ sdec (x_tx_len xfer) @ '', tx_ptr: '' @ sdec (x_tx_ptr xfer) @
           '', rx: <'' @ ptr rx @ ''>, rx_len: '' @ sdec (x_rx_len xfer) @
           '', rx_ptr: '' @ sdec (x_rx_ptr xfer) @ '', tok: 0x'' @ zeros 4 (hex (unat tok)) @
           '', crc: 0x'' @ zeros 4 (hex (unat crc)))))"

definition transfer_show :: "ptr_fmt \<Rightarrow> u64 \<Rightarrow> u64 \<Rightarrow> transfer_t \<Rightarrow> string outcome" where
  "transfer_show ptr tx rx xfer =
     bind_c (transfer_string ptr tx rx xfer) (\<lambda>s.
       Inr (''Transfer = {'' @ nl @ ''  '' @ s @ nl @ ''};'' @ nl))"

definition ulpi_bus_string :: "ulpi_bus_t \<Rightarrow> string outcome" where
  "ulpi_bus_string bus =
     (let dat = push_bit 8 (ucast (data_b bus)) OR ucast (data_a bus) :: u32 in
      to_buf 256
        (''clock: '' @ dec (unat (u_clock bus)) @ '', rst#: '' @ dec (unat (u_rst_n bus)) @
         '', dir: '' @ dec (unat (u_dir bus)) @ '', nxt: '' @ dec (unat (u_nxt bus)) @
         '', stp: '' @ dec (unat (u_stp bus)) @ '', data: 0x'' @ hex (unat dat)))"

definition ulpi_bus_show :: "ulpi_bus_t \<Rightarrow> string outcome" where
  "ulpi_bus_show bus = bind_c (ulpi_bus_string bus) (\<lambda>s. Inr (s @ nl))"

subsection \<open>The host\<close>

definition host_op_strings :: "string list" where
  "host_op_strings = [''HostError'', ''HostReset'', ''HostSuspend'', ''HostResume'', ''HostIdle'', ''HostSOF'',
     ''HostSETUP'', ''HostBulkOUT'', ''HostBulkIN'']"

text \<open>
  \<open>sp\<close> is the static array of 64 characters that \<open>host_string\<close> pads its lines with, and that keeps
  its contents from call to call; \<open>cap\<close> is the size of the caller's buffer.
\<close>

definition pad_cells :: "nat \<Rightarrow> char list \<Rightarrow> char list" where
  "pad_cells indent sp = replicate indent (CHR '' '') @ drop indent sp"

definition host_text :: "string \<Rightarrow> ptr_fmt \<Rightarrow> string \<Rightarrow> string \<Rightarrow> usb_host_t \<Rightarrow> string" where
  "host_text sp ptr prev xfer host =
     sp @ ''cycle: '' @ dec (unat (h_cycle host)) @ '','' @ nl @
     sp @ ''op: '' @ sdec (host_op_val (h_op host)) @
       '' ('' @ host_op_strings ! nat (host_op_val (h_op host) + 1) @ ''),'' @ nl @
     sp @ ''step: '' @ dec (unat (h_step host)) @ '','' @ nl @
     sp @ ''prev: {'' @ nl @ sp @ ''  '' @ prev @ nl @ sp @ ''},'' @ nl @
     sp @ ''xfer: {'' @ nl @ sp @ ''  '' @ xfer @ nl @ sp @ ''},'' @ nl @
     sp @ ''sof: 0x'' @ hex (unat (h_sof host)) @ '' ('' @ dec (unat (h_sof host)) @ ''),'' @ nl @
     sp @ ''timer: '' @ dec (unat (h_turnaround host)) @ '','' @ nl @
     sp @ ''addr: 0x'' @ zeros 2 (hex (unat (h_addr host))) @ '','' @ nl @
     sp @ ''error_count: '' @ dec (unat (h_error_count host)) @ '','' @ nl @
     sp @ ''buf['' @ dec (unat (h_len host)) @ '']: <'' @ ptr (h_buf host) @ ''>'' @ nl"

definition host_string :: "nat \<Rightarrow> ptr_fmt \<Rightarrow> u64 \<Rightarrow> u64 \<Rightarrow> char list \<Rightarrow> usb_host_t \<Rightarrow> nat
    \<Rightarrow> (int \<times> string \<times> char list) outcome" where
  "host_string cap ptr tx rx sp host indent =
     assert_c (indent < 60)
       (let sp = pad_cells indent sp in
        bind_c (ulpi_bus_string (h_prev host)) (\<lambda>prev.
        bind_c (transfer_string ptr tx rx (h_xfer host)) (\<lambda>xfer.
        bind_c (to_buf cap (host_text (c_str sp) ptr prev xfer host)) (\<lambda>s.
          Inr (int (length s), s, sp)))))"

definition show_host :: "ptr_fmt \<Rightarrow> u64 \<Rightarrow> u64 \<Rightarrow> char list \<Rightarrow> usb_host_t
    \<Rightarrow> (string \<times> char list) outcome" where
  "show_host ptr tx rx sp host =
     bind_c (host_string 4096 ptr tx rx sp host 2) (\<lambda>(len, s, sp).
       assert_c (len < 4096) (Inr (''USB_HOST = {'' @ nl @ s @ ''};'' @ nl, sp)))"

subsection \<open>No message leaves its buffer\<close>

lemma type_name: "length (type_strings ! xfer_type_val t) \<le> 8"
  by (cases t) (simp_all add: type_strings_def)

lemma stage_name: "length (stage_strings ! xfer_stage_val s) \<le> 9"
  by (cases s) (simp_all add: stage_strings_def)

lemma type_index: "length (dec (xfer_type_val t)) \<le> 2"
  using dec_length [of "xfer_type_val t" 1] by (cases t) simp_all

lemma stage_index: "length (dec (xfer_stage_val s)) \<le> 2"
  using dec_length [of "xfer_stage_val s" 1] by (cases s) simp_all

lemma op_name: "length (host_op_strings ! nat (host_op_val op + 1)) \<le> 11"
  by (cases op) (simp_all add: host_op_strings_def)

lemma seq_string_length: "length (seq_string xfer) = 6"
  by (simp add: seq_string_def hex_half split: option.split)

text \<open>The \<open>int\<close> members of a transfer hold values of C's 32-bit \<open>int\<close>.\<close>

definition c_int :: "int \<Rightarrow> bool" where
  "c_int i \<longleftrightarrow> - (2 ^ 31) \<le> i \<and> i < 2 ^ 31"

definition transfer_ints :: "transfer_t \<Rightarrow> bool" where
  "transfer_ints xfer \<longleftrightarrow> c_int (x_tx_len xfer) \<and> c_int (x_tx_ptr xfer) \<and> c_int (x_rx_len xfer) \<and> c_int (x_rx_ptr xfer)"

lemma c_int_length: "c_int i \<Longrightarrow> length (sdec i) \<le> 11"
  by (simp add: c_int_def sdec_int)

lemma transfer_string_ok:
  assumes "transfer_ints xfer" and "length (ptr tx) \<le> 16" and "length (ptr rx) \<le> 16"
  shows "\<exists>s. transfer_string ptr tx rx xfer = Inr s \<and> length s \<le> 255"
proof -
  note bounds = dec_byte [of "x_address xfer"] dec_byte [of "x_endpoint xfer"] dec_word [of "x_cycle xfer"]
    type_name [of "x_type xfer"] stage_name [of "x_stage xfer"] type_index [of "x_type xfer"]
    stage_index [of "x_stage xfer"] c_int_length [of "x_tx_len xfer"] c_int_length [of "x_tx_ptr xfer"]
    c_int_length [of "x_rx_len xfer"] c_int_length [of "x_rx_ptr xfer"]
  show ?thesis
    using bounds assms
    by (simp add: transfer_string_def to_buf_def Let_def seq_string_length hex_half transfer_ints_def)
qed

lemma bus_string_ok: "\<exists>s. ulpi_bus_string bus = Inr s \<and> length s \<le> 70"
proof -
  let ?dat = "push_bit 8 (ucast (data_b bus)) OR ucast (data_a bus) :: u32"
  have "length (hex (unat ?dat)) \<le> 8"
    using hex_length [of "unat ?dat" 7] unsigned_less [of ?dat, where 'a = nat] by simp
  then show ?thesis
    using dec_byte [of "u_clock bus"] dec_byte [of "u_rst_n bus"] dec_byte [of "u_dir bus"]
      dec_byte [of "u_nxt bus"] dec_byte [of "u_stp bus"]
    by (simp add: ulpi_bus_string_def to_buf_def Let_def)
qed

text \<open>The padding never grows beyond the largest indentation it was asked for.\<close>

definition pad_ok :: "char list \<Rightarrow> bool" where
  "pad_ok sp \<longleftrightarrow> length sp = 64 \<and> (\<exists>k < 60. sp = replicate k (CHR '' '') @ replicate (64 - k) (CHR 0x00))"

lemma pad_start: "pad_ok (replicate 64 (CHR 0x00))"
  by (auto simp: pad_ok_def intro: exI [of _ 0])

lemma pad_cells_ok:
  assumes "pad_ok sp" and "indent < 60"
  shows "pad_ok (pad_cells indent sp)"
proof -
  obtain k where k: "k < 60" "sp = replicate k (CHR '' '') @ replicate (64 - k) (CHR 0x00)"
    using assms(1) by (auto simp: pad_ok_def)
  have "pad_cells indent sp = replicate (max indent k) (CHR '' '') @ replicate (64 - max indent k) (CHR 0x00)"
    using k assms(2) by (cases "indent \<le> k")
      (simp_all add: pad_cells_def max_def flip: replicate_add append_assoc)
  then show ?thesis using k assms(2) unfolding pad_ok_def by (intro conjI exI [of _ "max indent k"]) simp_all
qed

lemma pad_length: "pad_ok sp \<Longrightarrow> length (c_str sp) < 60"
  by (auto simp: pad_ok_def c_str_def takeWhile_append)

lemma host_text_length:
  assumes "length sp < 60" and "length prev \<le> 70" and "length xfer \<le> 255" and "length (ptr (h_buf host)) \<le> 16"
  shows "length (host_text sp ptr prev xfer host) < 1500"
proof -
  have op: "length (sdec (host_op_val (h_op host))) \<le> 11" by (rule sdec_int) (cases "h_op host"; simp)+
  have addr: "length (zeros 2 (hex (unat (h_addr host)))) = 2"
    using hex_length [of "unat (h_addr host)" 1] unsigned_less [of "h_addr host", where 'a = nat]
    by (intro zeros_length) simp
  have sof: "length (hex (unat (h_sof host))) \<le> 4"
    using hex_length [of "unat (h_sof host)" 3] unsigned_less [of "h_sof host", where 'a = nat] by simp
  note bounds = dec_long [of "h_cycle host"] dec_word [of "h_step host"] dec_half [of "h_sof host"]
    dec_half [of "h_turnaround host"] dec_byte [of "h_error_count host"] dec_half [of "h_len host"]
    op_name [of "h_op host"]
  show ?thesis using assms op addr sof bounds by (simp add: host_text_def)
qed

lemma host_string_ok:
  assumes "pad_ok sp" and "indent < 60" and "transfer_ints (h_xfer host)" and "length (ptr tx) \<le> 16"
    and "length (ptr rx) \<le> 16" and "length (ptr (h_buf host)) \<le> 16" and "1500 \<le> cap"
  shows "\<exists>s sp'. host_string cap ptr tx rx sp host indent = Inr (int (length s), s, sp') \<and>
    length s < 1500 \<and> pad_ok sp'"
proof -
  let ?sp = "pad_cells indent sp"
  obtain prev where prev: "ulpi_bus_string (h_prev host) = Inr prev" "length prev \<le> 70"
    using bus_string_ok by blast
  obtain xfer where xfer: "transfer_string ptr tx rx (h_xfer host) = Inr xfer" "length xfer \<le> 255"
    using transfer_string_ok [OF assms(3-5)] by blast
  have sp: "pad_ok ?sp" by (rule pad_cells_ok [OF assms(1,2)])
  have "length (host_text (c_str ?sp) ptr prev xfer host) < 1500"
    using pad_length [OF sp] prev(2) xfer(2) assms(6) by (rule host_text_length)
  then show ?thesis using prev(1) xfer(1) sp assms(2,7)
    by (simp add: host_string_def Let_def to_buf_def)
qed

text \<open>The mask that is written is that of the toggles.\<close>

lemma seq_mask_bits:
  assumes "set ss \<subseteq> {0, 1}" and "i + length ss \<le> 16"
  shows "\<exists>w. seq_mask i ss v = Some w \<and>
    (\<forall>k < 16. bit w k \<longleftrightarrow> bit v k \<or> i \<le> k \<and> k < i + length ss \<and> ss ! (k - i) = 1)"
  using assms
proof (induction ss arbitrary: i v)
  case Nil
  then show ?case by auto
next
  case (Cons s ss)
  have split: "(i \<le> k \<and> k < i + length (s # ss) \<and> (s # ss) ! (k - i) = 1) \<longleftrightarrow>
      (k = i \<and> s = 1) \<or> (Suc i \<le> k \<and> k < Suc i + length ss \<and> ss ! (k - Suc i) = 1)" for k
  proof (cases "k - i")
    case (Suc m)
    then have "k - Suc i = m" "i < k" by simp_all
    then show ?thesis using Suc by simp
  qed auto
  let ?v = "if s = 0 then v else v OR push_bit i 1"
  obtain w where w: "seq_mask (Suc i) ss ?v = Some w"
      "\<And>k. k < 16 \<Longrightarrow> bit w k \<longleftrightarrow> bit ?v k \<or> Suc i \<le> k \<and> k < Suc i + length ss \<and> ss ! (k - Suc i) = 1"
    using Cons.IH [of "Suc i" ?v] Cons.prems by auto
  have s: "s = 0 \<or> s = 1" using Cons.prems(1) by simp
  have "bit ?v k \<longleftrightarrow> bit v k \<or> k = i \<and> s = 1" if "k < 16" for k
    using s that by (auto simp: bit_simps)
  then show ?case using w s unfolding split by (intro exI [of _ w]) auto
qed

text \<open>
  With toggles of 0 and 1, \<open>ep_seq\<close> is shown as the 16 bits of the toggles.
\<close>

lemma seq_string_mask:
  assumes "arrays_ok xfer" and "set (x_ep_seq xfer) \<subseteq> {0, 1}"
  shows "\<exists>w :: u16. seq_string xfer = ''0x'' @ zeros 4 (hex (unat w)) \<and>
    (\<forall>k < 16. bit w k \<longleftrightarrow> x_ep_seq xfer ! k = 1)"
  using seq_mask_bits [of "x_ep_seq xfer" 0 0] assms
  by (auto simp: seq_string_def arrays_ok_def)

subsection \<open>The properties\<close>

text \<open>
  (C38) Printing the host never leaves a buffer and never fails its assertion, if pointers are written
  with at most 16 characters: the transfer fits the 256 bytes of \<open>transfer_string\<close> for all values
  of its members, the toggles are written as their mask, and the text of the host is shorter than 1500
  characters, whatever it was padded with before.
\<close>

theorem show_host_fits:
  assumes "pad_ok sp" and "transfer_ints (h_xfer host)" and "\<And>a. length (ptr a) \<le> 16"
  shows "\<exists>s t sp'. host_string 4096 ptr tx rx sp host 2 = Inr (int (length s), s, sp') \<and> length s < 1500 \<and>
    show_host ptr tx rx sp host = Inr (''USB_HOST = {'' @ nl @ s @ ''};'' @ nl, sp') \<and> pad_ok sp' \<and>
    transfer_string ptr tx rx (h_xfer host) = Inr t \<and> length t < 256"
proof -
  obtain s sp' where s: "host_string 4096 ptr tx rx sp host 2 = Inr (int (length s), s, sp')"
      "length s < 1500" "pad_ok sp'"
    using host_string_ok [of sp 2 host ptr tx rx 4096] assms by auto
  moreover obtain t where "transfer_string ptr tx rx (h_xfer host) = Inr t" "length t < 256"
    using transfer_string_ok [of "h_xfer host" ptr tx rx] assms(2,3) by fastforce
  ultimately show ?thesis by (simp add: show_host_def)
qed

lemma show_host_fits_witness:
  "\<exists>s sp'. show_host (\<lambda>_. ''0x7ffc12345678'') 0 0 (replicate 64 (CHR 0x00)) (usbh_init 0 undefined) =
     Inr (''USB_HOST = {'' @ nl @ s @ ''};'' @ nl, sp')"
  using show_host_fits [OF pad_start, of "usbh_init 0 undefined" "\<lambda>_. ''0x7ffc12345678''" 0 0]
  by (auto simp: usbh_init_def usbh_reset_def xfer_zero_def transfer_ints_def c_int_def)

text \<open>With pointers of 18 characters the buffer of a transfer is too small for extreme values.\<close>

definition extreme_transfer :: transfer_t where
  "extreme_transfer = xfer_zero\<lparr>x_address := 255, x_endpoint := 255, x_type := UpDATA0, x_stage := DATAxBody,
     x_cycle := 4294967295, x_tx_len := - 2147483648, x_tx_ptr := - 2147483648, x_rx_len := - 2147483648,
     x_rx_ptr := - 2147483648\<rparr>"

lemma transfer_string_overflow:
  "transfer_ints extreme_transfer \<and>
   transfer_string (\<lambda>_. ''0xffffffffffffffff'') tx rx extreme_transfer = Inl Out_Of_Bounds"
proof -
  have "dec 255 = ''255''" "dec 4294967295 = ''4294967295''" "dec 2147483648 = ''2147483648''" "dec 16 = ''16''" "dec 9 = ''9''"
    by (simp_all add: radix.simps)
  then show ?thesis
    by (simp add: extreme_transfer_def transfer_ints_def c_int_def transfer_string_def to_buf_def
        seq_string_length hex_half sdec_def type_strings_def stage_strings_def xfer_zero_def)
qed

text \<open>The padding of an earlier call with a larger indentation stays.\<close>

lemma padding_stays:
  "c_str (pad_cells 2 (pad_cells 4 (replicate 64 (CHR 0x00)))) = replicate 4 (CHR '' '')"
  by (simp add: pad_cells_def c_str_def takeWhile_append numeral_eq_Suc)

end
