(* ===== verification/Bench_Messages.thy ===== *)
theory Bench_Messages
  imports Messages Ulpisim Packet_tb Usbfunc Descriptor
begin

text \<open>
  The routines that print a state: \<open>stdreq_show\<close>, \<open>show_desc\<close>, \<open>func_show\<close>, and those of the
  test-benches \<open>ulpisim.c\<close> and \<open>packet_tb.c\<close>. Their value is the text that is printed.
\<close>

subsection \<open>Requests, descriptors and the device\<close>

definition stdreq_show :: "usb_stdreq_t \<Rightarrow> string" where
  "stdreq_show req =
     ''STD_REQ = {'' @ nl @
     ''  bmRequestType:'' @ tab @ ''  0x'' @ zeros 2 (hex (unat (bmRequestType req))) @ '','' @ nl @
     ''  bRequest:     '' @ tab @ ''  0x'' @ zeros 2 (hex (unat (bRequest req))) @ '','' @ nl @
     ''  wValue:       '' @ tab @ ''0x'' @ zeros 4 (hex (unat (wValue req))) @ '','' @ nl @
     ''  wIndex:       '' @ tab @ ''0x'' @ zeros 4 (hex (unat (wIndex req))) @ '','' @ nl @
     ''  wLength:      '' @ tab @ ''0x'' @ zeros 4 (hex (unat (wLength req))) @ nl @ ''};'' @ nl"

text \<open>\<open>for (int i = a; i < b; i++)\<close> with a text for each element of an array.\<close>

fun show_items :: "(u8 \<Rightarrow> string) \<Rightarrow> u8 list \<Rightarrow> int \<Rightarrow> nat \<Rightarrow> string outcome" where
  "show_items f xs i 0 = Inr []"
| "show_items f xs i (Suc n) =
     bind_c (aget xs i) (\<lambda>b. bind_c (show_items f xs (i + 1) n) (\<lambda>s. Inr (f b @ s)))"

definition desc_item :: "u8 \<Rightarrow> string" where
  "desc_item b = '' 0x'' @ HEX (unat b) @ '', ''"

definition show_desc :: "transfer_t \<Rightarrow> string outcome" where
  "show_desc xfer =
     (if x_rx_len xfer < 0 \<or> x_rx_len xfer > int MAX_CONFIG_SIZE then Inr []
      else
        bind_c (show_items desc_item (x_rx xfer) 0 (nat (x_rx_len xfer))) (\<lambda>s.
          Inr (''USB_DESCRIPTOR['' @ sdec (x_rx_len xfer) @ ''] = {'' @ nl @ s @ nl @ ''};'' @ nl)))"

definition hstates :: "string list" where
  "hstates = [''Error'', ''Reset'', ''Suspend'', ''Resume'', ''Idle'', ''SOF'', ''SETUP'', ''BulkOUT'', ''BulkIN'']"

definition fstates :: "string list" where
  "fstates = [''IDLE'', ''RECV'', ''RXCMD'', ''RxPID'', ''BUSY'', ''EOT'']"

primrec usbf_state_val :: "usbf_state \<Rightarrow> nat" where
  "usbf_state_val FuncIdle = 0"
| "usbf_state_val FuncRecv = 1"
| "usbf_state_val FuncRXCMD = 2"
| "usbf_state_val FuncRxPID = 3"
| "usbf_state_val FuncBusy = 4"
| "usbf_state_val FuncEOT = 5"

definition func_show :: "usb_func_t \<Rightarrow> string" where
  "func_show func =
     ''State'' @ tab @ '' = '' @ dec (usbf_state_val (f_state func)) @ tab @ ''('' @
       fstates ! usbf_state_val (f_state func) @ '')'' @ nl @
     ''OP   '' @ tab @ '' = '' @ sdec (host_op_val (f_op func)) @ tab @ ''('' @
       hstates ! nat (host_op_val (f_op func) - host_op_val HostError) @ '')'' @ nl @
     ''Step '' @ tab @ '' = '' @ dec (unat (f_step func)) @ nl @
     ''Timer'' @ tab @ '' = '' @ dec (unat (f_turnaround func)) @ nl"

subsection \<open>The ULPI test-bench\<close>

definition op_strings :: "string list" where
  "op_strings = [''UT_PowerOn'', ''UT_StartUp'', ''UT_Idle'', ''UT_Test'', ''UT_Done'']"

primrec ut_step_val :: "ut_step_t \<Rightarrow> nat" where
  "ut_step_val UT_PowerOn = 0"
| "ut_step_val UT_StartUp = 1"
| "ut_step_val UT_Idle = 2"
| "ut_step_val UT_Test = 3"
| "ut_step_val UT_Done = 4"

text \<open>
  \<open>hx\<close> and \<open>px\<close> are the addresses of the arrays of the transfers of host and PHY, \<open>tests\<close> that of
  the test-cases. The result has the padding that \<open>host_string\<close> leaves.
\<close>

definition show_ut_state :: "ptr_fmt \<Rightarrow> u64 \<times> u64 \<Rightarrow> u64 \<times> u64 \<Rightarrow> u64 \<Rightarrow> char list \<Rightarrow> ut_state_t
    \<Rightarrow> (string \<times> char list) outcome" where
  "show_ut_state ptr hx px tests sp state =
     bind_c (host_string 4096 ptr (fst hx) (snd hx) sp (s_host state) 4) (\<lambda>(len, hstr, sp).
     assert_c (len < 4096)
       (bind_c (ulpi_bus_string (s_bus state)) (\<lambda>bus.
        bind_c (transfer_string ptr (fst px) (snd px) (phy_xfer (s_phy state))) (\<lambda>xfer.
          Inr
            (''UT_STATE = {'' @ nl @
             ''  tick_ns: '' @ dec (unat (s_tick_ns state)) @ '','' @ nl @
             ''  t_recip: '' @ dec (unat (s_t_recip state)) @ '','' @ nl @
             ''  cycle: '' @ dec (unat (s_cycle state)) @ '','' @ nl @
             ''  bus: {'' @ nl @ ''   '' @ bus @ nl @ ''  },'' @ nl @
             ''  phy: {'' @ nl @ ''   xfer: '' @ xfer @ '','' @ nl @
             ''  },'' @ nl @ ''  host: {'' @ nl @ hstr @ nl @ ''  },'' @ nl @
             ''  sync_flag: '' @ sdec (s_sync_flag state) @ '','' @ nl @
             ''  test_curr: '' @ sdec (s_test_curr state) @ '','' @ nl @
             ''  test_step: '' @ sdec (s_test_step state) @ '','' @ nl @
             ''  tests['' @ dec (length (s_tests state)) @ '']: <'' @ ptr tests @ ''>,'' @ nl @
             ''  op: '' @ dec (ut_step_val (s_op state)) @ '' ('' @ op_strings ! ut_step_val (s_op state) @
               '')'' @ nl @ ''};'' @ nl, sp)))))"

subsection \<open>The packet-FIFO test-bench\<close>

definition byte_to_hex :: "byte_t \<Rightarrow> u32" where
  "byte_to_hex b = push_bit 8 (ucast (byte_b b)) OR ucast (byte_a b)"

definition fifo_sigs_show :: "fifo_sigs_t \<Rightarrow> string" where
  "fifo_sigs_show sigs =
     ''reset: '' @ dec (unat (g_reset sigs)) @ '', level: 0x'' @
     zeros 4 (hex (unat (byte_to_hex (g_level sigs)))) @
     '', {v: '' @ dec (unat (g_r_vld sigs)) @ '', r: '' @ dec (unat (g_r_rdy sigs)) @
     '', l: '' @ dec (unat (g_r_lst sigs)) @ '', d: 0x'' @ zeros 4 (hex (unat (byte_to_hex (g_r_dat sigs)))) @
     ''}, {v: '' @ dec (unat (g_w_vld sigs)) @ '', r: '' @ dec (unat (g_w_rdy sigs)) @
     '', l: '' @ dec (unat (g_w_lst sigs)) @ '', d: 0x'' @ zeros 4 (hex (unat (byte_to_hex (g_w_dat sigs)))) @
     ''}'' @ nl"

definition show_pt_state :: "ptr_fmt \<Rightarrow> u64 \<Rightarrow> pt_state_t \<Rightarrow> string" where
  "show_pt_state ptr tests state =
     ''PT_STATE = {'' @ nl @
     ''  tick_ns: '' @ dec (unat (q_tick_ns state)) @ '','' @ nl @
     ''  t_recip: '' @ dec (unat (q_t_recip state)) @ '','' @ nl @
     ''  cycle: '' @ dec (unat (q_cycle state)) @ '','' @ nl @
     ''  sync_flag: '' @ sdec (q_sync_flag state) @ '','' @ nl @
     ''  test_curr: '' @ sdec (q_test_curr state) @ '','' @ nl @
     ''  test_step: '' @ sdec (q_test_step state) @ '','' @ nl @
     ''  tests['' @ dec (length (q_tests state)) @ '']: <'' @ ptr tests @ ''>'' @ nl @ ''};'' @ nl"

definition buf_item :: "u8 \<Rightarrow> string" where
  "buf_item b = ''0x'' @ zeros 2 (hex (unat b)) @ '', ''"

text \<open>\<open>junk\<close> is the string that the uninitialised \<open>str\<close> holds when nothing is written to it.\<close>

definition tc_state_show :: "string \<Rightarrow> tc_state_t \<Rightarrow> string outcome" where
  "tc_state_show junk st =
     bind_c (show_items buf_item (t_buf st) 0 (nat (t_size st))) (\<lambda>s.
     bind_c (to_buf 2048 s) (\<lambda>s.
       Inr
         (''ST: {'' @ nl @
          ''  step: '' @ sdec (t_step st) @ '','' @ nl @
          ''  size: '' @ sdec (t_size st) @ '','' @ nl @
          ''  head: '' @ sdec (t_head st) @ '','' @ nl @
          ''  tail: '' @ sdec (t_tail st) @ '','' @ nl @
          ''  buf[256]: {'' @ nl @ ''    '' @ (if t_size st \<le> 0 then junk else s) @ nl @ ''  }'' @ nl @
          ''};'' @ nl)))"

subsection \<open>No message fails\<close>

lemma items_length:
  assumes "\<And>b. length (f b) \<le> w" and "0 \<le> i" and "i + int n \<le> int (length xs)"
  shows "\<exists>s. show_items f xs i n = Inr s \<and> length s \<le> w * n"
  using assms(2,3)
proof (induction n arbitrary: i)
  case 0
  then show ?case by simp
next
  case (Suc n)
  then have "0 \<le> i + 1" "i + 1 + int n \<le> int (length xs)" by simp_all
  then obtain s where s: "show_items f xs (i + 1) n = Inr s" "length s \<le> w * n" using Suc.IH by blast
  have "aget xs i = Inr (xs ! nat i)" using Suc.prems by (simp add: aget_def)
  then show ?case using s assms(1) [of "xs ! nat i"] by simp
qed

lemma buf_item_length: "length (buf_item b) \<le> 6"
  using hex_length [of "unat b" 1] unsigned_less [of b, where 'a = nat] zeros_length [of "hex (unat b)" 2]
  by (simp add: buf_item_def)

text \<open>
  The buffer of \<open>tc_state_show\<close> is large enough for every packet that the test-cases hold: six
  characters for each of at most 256 bytes.
\<close>

lemma tc_state_show_ok:
  assumes "t_size st \<le> int (length (t_buf st))" and "length (t_buf st) \<le> 256"
  shows "\<exists>s. tc_state_show junk st = Inr s"
proof -
  have "0 + int (nat (t_size st)) \<le> int (length (t_buf st))" using assms(1) by simp
  from items_length [where f = buf_item, OF buf_item_length order_refl this]
  obtain s where s: "show_items buf_item (t_buf st) 0 (nat (t_size st)) = Inr s"
      "length s \<le> 6 * nat (t_size st)" by blast
  have "length s < 2048" using s(2) assms by linarith
  then show ?thesis using s(1) by (simp add: tc_state_show_def to_buf_def)
qed

lemma desc_item_length: "length (desc_item b) \<le> 7"
  using radix_length [of "''0123456789ABCDEF''" "unat b" 1] unsigned_less [of b, where 'a = nat]
  by (simp add: desc_item_def)

lemma show_desc_ok:
  assumes "arrays_ok xfer"
  shows "\<exists>s. show_desc xfer = Inr s"
proof (cases "x_rx_len xfer < 0 \<or> x_rx_len xfer > int MAX_CONFIG_SIZE")
  case False
  then have "0 + int (nat (x_rx_len xfer)) \<le> int (length (x_rx xfer))"
    using assms by (simp add: arrays_ok_def)
  from items_length [where f = desc_item, OF desc_item_length order_refl this]
  obtain s where "show_items desc_item (x_rx xfer) 0 (nat (x_rx_len xfer)) = Inr s" by blast
  then show ?thesis using False by (simp add: show_desc_def)
qed (simp add: show_desc_def)

lemma show_ut_state_ok:
  assumes "pad_ok sp" and "transfer_ints (h_xfer (s_host state))" and "transfer_ints (phy_xfer (s_phy state))"
    and "\<And>a. length (ptr a) \<le> 16"
  shows "\<exists>s sp'. show_ut_state ptr hx px tests sp state = Inr (s, sp') \<and> pad_ok sp'"
proof -
  obtain s sp' where "host_string 4096 ptr (fst hx) (snd hx) sp (s_host state) 4 = Inr (int (length s), s, sp')"
      "length s < 1500" "pad_ok sp'"
    using host_string_ok [of sp 4 "s_host state" ptr "fst hx" "snd hx" 4096] assms by auto
  moreover obtain bus where "ulpi_bus_string (s_bus state) = Inr bus" using bus_string_ok by blast
  moreover obtain xfer where "transfer_string ptr (fst px) (snd px) (phy_xfer (s_phy state)) = Inr xfer"
    using transfer_string_ok [of "phy_xfer (s_phy state)" ptr "fst px" "snd px"] assms by blast
  ultimately show ?thesis by (simp add: show_ut_state_def)
qed

end
