(* ===== verification/Spec2Isabelle.thy ===== *)
theory Spec2Isabelle
  imports Ulpi_Recv Bulk_Stream Control_Run Usbfunc_Props Ulpiphy_Speed Ulpisim_Props Packet_tb_Props Monitor Usb_main_Props Fast_eop
    Tc_Memory Bench_Messages
begin

text \<open>
  The USB simulation of \<open>src/vpi/\<close>: C code that, loaded into a Verilog simulator as a VPI module,
  plays the USB host and the ULPI PHY opposite a USB device core, and two smaller system tasks.

  \<^bold>\<open>The program and the theories that model it.\<close>

  \<^item> Checksums, \<open>usb/usbcrc.c\<close>: \<open>Usbcrc\<close>.
  \<^item> The ULPI bus, transfers, and one step-function per kind of USB packet, \<open>usb/ulpi.h\<close> and
    \<open>usb/ulpi.c\<close>: \<open>Ulpi\<close>. A step-function is called at each clock with the transfer and the sampled
    bus, and returns -1 (failure), 0 (go on) or 1 (packet done) with the new transfer and bus.
    \<open>Ulpi_Steps\<close> states what all step-functions promise, as the locale \<open>step_contract\<close>;
    \<open>Ulpi_Packets\<close> and \<open>Ulpi_Recv\<close> show what is sent and received over whole packets, against a
    link that follows the bus rules. \<open>Fast_eop\<close> has the four step-functions as the option
    \<open>__fast_eop\<close> makes them, and shows where the two builds agree.
  \<^item> The USB host, \<open>usb/usbhost.h\<close>, \<open>usb/usbhost.c\<close> and \<open>usb/stdreq.c\<close>: \<open>Host\<close> (its state),
    \<open>Stdreq\<close> (standard requests) and \<open>Usbhost\<close> (reset, start-of-frame, bulk transactions and the
    dispatch \<open>usbh_step\<close>). \<open>Usbhost_Props\<close>, \<open>Bulk_Out\<close>, \<open>Bulk_Toggle\<close>,
    \<open>Bulk_In\<close> and \<open>Bulk_Stream\<close> hold their lemmas.
  \<^item> The ULPI PHY, \<open>usb/ulpiphy.h\<close> and \<open>usb/ulpiphy.c\<close>: \<open>Ulpiphy\<close>; \<open>Ulpiphy_Props\<close> and
    \<open>Ulpiphy_Speed\<close> hold its lemmas.
  \<^item> A USB device to test the host with, \<open>usb/usbfunc.c\<close> and \<open>usb/descriptor.c\<close>: \<open>Usbfunc\<close>,
    \<open>Descriptor\<close> and \<open>Usbfunc_Props\<close>; the stand-alone simulator \<open>usb/main.c\<close>: \<open>Usb_main\<close>,
    whose whole run \<open>Usb_main_Props\<close> follows.
  \<^item> The test-cases \<open>testcase.h\<close> and \<open>tc_*.c\<close>, which queue transactions on the host and are called
    again when those are done: \<open>Testcase\<close> (what they share, and their contract as the locale
    \<open>testcase\<close>), \<open>Tc_Control\<close>, \<open>Tc_Bulk\<close> and \<open>Tc_Restarts\<close>, with lemmas in \<open>Tc_Props\<close> and
    \<open>Tc_Bulk_Props\<close>. \<open>Tc_Complete\<close> says when a test-case of the registry is fresh, running or completed.
    \<open>Tc_Memory\<close> has their constructors, \<open>testcase.c\<close> and the registry in memory, block by block.
  \<^item> The simulator as the system tasks see it: \<open>Vpi\<close>. The ULPI test-bench, \<open>ulpisim.c\<close>, which owns
    host, PHY and test-cases and steps them at each posedge: \<open>Ulpisim\<close>, \<open>Ulpisim_Props\<close>, and
    \<open>Control_Run\<close>, which runs bench, test-case and host through a whole control transfer. The
    packet-FIFO test-bench, \<open>packet_tb.c\<close>: \<open>Packet_tb\<close> and \<open>Packet_tb_Props\<close>. The bus monitor,
    \<open>monitor.c\<close>: \<open>Monitor\<close>.
  \<^item> The messages that are built in buffers of fixed size, from \<open>ulpi.c\<close>, \<open>usbhost.c\<close>,
    \<open>packet_tb.c\<close> and \<open>ulpisim.c\<close>: \<open>Messages\<close> and \<open>Bench_Messages\<close>.

  \<open>Prelude\<close> holds what all share.

  \<^bold>\<open>How the code is represented.\<close> A struct is a record, an enum a datatype with the code's order
  as an instance of \<open>linorder\<close>, an unsigned integer a word of its width, an \<open>int\<close> that counts or
  indexes a HOL integer. A routine that updates structures through pointers takes and returns them;
  the pointers of one call never alias. A failing \<open>assert\<close>, an access outside an array, a null pointer
  that is used and a division by zero are faults: such routines have the type \<open>outcome\<close>, a sum of
  fault and result, and a property that gives \<open>Inr\<close> says that no fault occurs. What is outside the
  program is a parameter: the results of \<open>rand()\<close> as a function of the number of the call, the
  addresses and contents that \<open>malloc\<close> gives, the answers of the simulator as a record \<open>vpi\<close>. What is
  written to the simulator is a list of writes, and a request to end the simulation sets a flag.

  \<^bold>\<open>What is shown.\<close> For the checksums: the checks accept exactly the right check bytes, for messages of
  any length, and no error within two adjacent bytes goes unnoticed. For the packets: bytes, length
  and number of clocks of what is sent, and what is received of what a link sends. For the host: its
  frame conditions over any run, reset and frame timing, requests, whole bulk transactions in both
  directions with pauses, time-outs and handshakes; sequences of bulk OUT transactions refine the
  data-toggle machine of USB, and sequences of bulk IN transactions a stream without loss or repetition; a control transfer is followed from the
  test-case to the bus and back. For the PHY: start-up, register access, and a refinement of its
  line-speed into an abstract machine, from which high speed implies the full chirp handshake. For the
  test-cases: the number of calls each takes and the packets it queues. For the test-benches and the
  monitor: which arguments they accept, what they drive and report, their invariants over any
  simulation, and the order of start-up, test-cases and end: each test-case runs only when those
  before it are completed. For the registry in memory: what the constructors build is what the bench
  is taken to step, and \<open>tc_finish\<close> frees it once, but for the buffers it does not know. For messages: none leaves its buffer.

  \<^bold>\<open>Bounds and fuel.\<close> Runs over time are structural recursions over the list of clocks, or have a
  number of clocks as fuel; the properties give the exact number of clocks, or bounds that the fuel
  has to reach. \<open>scale_loop\<close> of \<open>Vpi\<close> counts down from the precision's exponent. Claims about
  whole transactions ask that the cycle counter stay below \<open>2 ^ 32\<close>, because the deadlines are
  stored in 32 bits: \<open>bulk_out_late_timeout\<close> shows what happens from there on.

  \<^bold>\<open>Not modelled.\<close> Routines that only pass values to \<open>printf\<close> or \<open>vpi_printf\<close>; the tables of
  \<open>startup.c\<close> and the registration of callbacks with the simulator, whose effect is the order in
  which the simulator calls the modelled routines; freeing of memory other than by \<open>tc_finish\<close>; code under
  \<open>#if 0\<close> and the options \<open>__short_timers\<close> and \<open>__long_timers\<close>, which the build does not set; the
  Verilog cores and test-benches. \<open>x_type\<close> and \<open>x_stage\<close> of a transfer range over the enumerators the
  code assigns to them, though their fields are of type \<open>uint8_t\<close>.
\<close>

end
